(* ===== verification/Prelude.thy ===== *)
theory Prelude
  imports Main "HOL-Library.Char_ord" "HOL-Library.List_Lexorder" "HOL-Library.Sublist"
begin

section \<open>Shared vocabulary of the development\<close>

text \<open>
  What every component of the model uses: the error values of the Rust code, fallible
  state-passing operations (\<open>act\<close>) with the sequencing that Rust's \<open>?\<close> gives, the
  predicate \<open>keeps\<close> ("this operation preserves that invariant") with its composition
  rules, and generic lemmas on lists, sorting and maps. The collections \<open>keeps_rules\<close>
  and \<open>act_simps\<close> carry the component proofs.
\<close>

named_theorems act_simps \<open>equations that run an operation of type act\<close>
named_theorems keeps_rules \<open>rules that show an operation preserves an invariant\<close>

subsection \<open>Errors and fallible state-passing operations\<close>

text \<open>
  \<open>Anyhow m\<close> is an \<open>anyhow::Error\<close> whose Display form (outermost message) is \<open>m\<close>;
  \<open>Panic m\<close> is a Rust panic, which no \<open>match\<close> on a \<open>Result\<close> catches. An operation
  returns its result together with the state, because what was written before an error
  stays written.
\<close>

datatype err = Anyhow string | Panic string

type_synonym ('s, 'a) act = "'s \<Rightarrow> (err + 'a) \<times> 's"

definition ret :: "'a \<Rightarrow> ('s, 'a) act" where
  "ret x s = (Inr x, s)"

definition raise :: "err \<Rightarrow> ('s, 'a) act" where
  "raise e s = (Inl e, s)"

definition reads :: "('s \<Rightarrow> 'a) \<Rightarrow> ('s, 'a) act" where
  "reads f s = (Inr (f s), s)"

definition modify :: "('s \<Rightarrow> 's) \<Rightarrow> ('s, unit) act" where
  "modify f s = (Inr (), f s)"

definition lift_res :: "err + 'a \<Rightarrow> ('s, 'a) act" where
  "lift_res r s = (r, s)"

definition and_then :: "('s, 'a) act \<Rightarrow> ('a \<Rightarrow> ('s, 'b) act) \<Rightarrow> ('s, 'b) act" where
  "and_then m k s = (case m s of (Inl e, t) \<Rightarrow> (Inl e, t) | (Inr x, t) \<Rightarrow> k x t)"

text \<open>A \<open>for\<close> loop whose body may leave with \<open>?\<close>.\<close>

primrec for_each :: "'a list \<Rightarrow> ('a \<Rightarrow> ('s, unit) act) \<Rightarrow> ('s, unit) act" where
  "for_each [] body = ret ()"
| "for_each (x # xs) body = and_then (body x) (\<lambda>_. for_each xs body)"

lemma run_act [act_simps]:
  "ret x s = (Inr x, s)"
  "raise e s = (Inl e, s)"
  "reads f s = (Inr (f s), s)"
  "lift_res r s = (r, s)"
  by (simp_all add: ret_def raise_def reads_def lift_res_def)

lemma run_modify [act_simps]: "modify g s = (Inr (), g s)"
  by (simp add: modify_def)

lemma and_then_Inr [act_simps]: "m s = (Inr x, t) \<Longrightarrow> and_then m k s = k x t"
  by (simp add: and_then_def)

lemma and_then_Inl [act_simps]: "m s = (Inl e, t) \<Longrightarrow> and_then m k s = (Inl e, t)"
  by (simp add: and_then_def)

lemma and_then_simple [act_simps]:
  "and_then (ret x) k s = k x s"
  "and_then (raise e) k s = (Inl e, s)"
  "and_then (reads f) k s = k (f s) s"
  "and_then (lift_res (Inr x)) k s = k x s"
  "and_then (lift_res (Inl e)) k s = (Inl e, s)"
  by (simp_all add: and_then_def run_act)

lemma and_then_modify [act_simps]: "and_then (modify g) k s = k () (g s)"
  by (simp add: and_then_def run_modify)

lemma and_then_ret: "and_then (ret x) k = k x"
  by (rule ext) (simp add: and_then_simple)

lemma snd_and_then: "(\<And>x t. snd (k x t) = t) \<Longrightarrow> snd (and_then m k s) = snd (m s)"
  by (simp add: and_then_def split_def split: sum.split)

lemma snd_and_then_ret [act_simps]: "snd (and_then m (\<lambda>x. ret (f x)) s) = snd (m s)"
  by (rule snd_and_then) (simp add: ret_def)

lemma and_then_InrE:
  assumes "and_then m k s = (Inr y, u)"
  obtains x t where "m s = (Inr x, t)" "k x t = (Inr y, u)"
  using assms by (auto simp: and_then_def split: prod.splits sum.splits)

lemma and_then_assoc: "and_then (and_then m f) g = and_then m (\<lambda>x. and_then (f x) g)"
  by (rule ext) (simp add: and_then_def split: prod.split sum.split)

lemma for_each_append:
  "for_each (xs @ ys) body = and_then (for_each xs body) (\<lambda>_. for_each ys body)"
  by (induction xs) (simp_all add: and_then_assoc and_then_ret)

text \<open>
  A loop whose body never fails and acts as a function on the state is a fold of that
  function.
\<close>

lemma for_each_fold:
  assumes "\<And>x s. x \<in> set xs \<Longrightarrow> body x s = (Inr (), f x s)"
  shows "for_each xs body s = (Inr (), fold f xs s)"
  using assms by (induction xs arbitrary: s) (auto simp: act_simps)

lemma for_each_noop:
  "(\<And>x. x \<in> set xs \<Longrightarrow> body x s = (Inr (), s)) \<Longrightarrow> for_each xs body s = (Inr (), s)"
  by (induction xs) (simp_all add: act_simps)

text \<open>
  What holds after a loop that ran to its end: a property of the elements done so far and
  the state, kept by each successful run of the body.
\<close>

lemma for_each_Inr_rule [consumes 1, case_names start step]:
  assumes run: "for_each xs body s = (Inr (), t)"
    and start: "I [] s"
    and step: "\<And>ys x u v. body x u = (Inr (), v) \<Longrightarrow> I ys u \<Longrightarrow> I (ys @ [x]) v"
  shows "I xs t"
proof -
  have "I (ys @ xs) t" if "I ys s" for ys
    using run that
  proof (induction xs arbitrary: s ys)
    case Nil
    then show ?case by (simp add: ret_def)
  next
    case (Cons x xs)
    then obtain v where v: "body x s = (Inr (), v)" "for_each xs body v = (Inr (), t)"
      by (auto elim: and_then_InrE)
    have "I ((ys @ [x]) @ xs) t"
      using Cons.IH [OF v(2) step [OF v(1) Cons.prems(2)]] .
    then show ?case by simp
  qed
  from this [OF start] show ?thesis by simp
qed

subsection \<open>Preservation of invariants\<close>

definition keeps :: "('s \<Rightarrow> bool) \<Rightarrow> ('s, 'a) act \<Rightarrow> bool" where
  "keeps I m \<longleftrightarrow> (\<forall>s. I s \<longrightarrow> I (snd (m s)))"

lemma keepsI: "(\<And>s. I s \<Longrightarrow> I (snd (m s))) \<Longrightarrow> keeps I m"
  by (simp add: keeps_def)

lemma keepsD: "keeps I m \<Longrightarrow> I s \<Longrightarrow> I (snd (m s))"
  by (simp add: keeps_def)

lemma keepsD_eq: "keeps I m \<Longrightarrow> I s \<Longrightarrow> m s = (r, t) \<Longrightarrow> I t"
  by (metis keepsD snd_conv)

lemma keeps_basic [keeps_rules]:
  "keeps I (ret x)"
  "keeps I (raise e)"
  "keeps I (reads f)"
  "keeps I (lift_res r)"
  by (simp_all add: keeps_def run_act)

lemma keeps_modify [keeps_rules]: "(\<And>s. I s \<Longrightarrow> I (g s)) \<Longrightarrow> keeps I (modify g)"
  by (simp add: keeps_def run_modify)

lemma keeps_and_then [keeps_rules]:
  "keeps I m \<Longrightarrow> (\<And>x. keeps I (k x)) \<Longrightarrow> keeps I (and_then m k)"
  by (auto simp: keeps_def and_then_def split: prod.split sum.split)

lemma keeps_for_each [keeps_rules]:
  "(\<And>x. x \<in> set xs \<Longrightarrow> keeps I (body x)) \<Longrightarrow> keeps I (for_each xs body)"
  by (induction xs) (auto intro!: keeps_basic keeps_and_then)

lemma keeps_if [keeps_rules]:
  "(c \<Longrightarrow> keeps I m) \<Longrightarrow> (\<not> c \<Longrightarrow> keeps I n) \<Longrightarrow> keeps I (if c then m else n)"
  by simp

lemma keeps_option [keeps_rules]:
  "(x = None \<Longrightarrow> keeps I m) \<Longrightarrow> (\<And>y. x = Some y \<Longrightarrow> keeps I (k y)) \<Longrightarrow>
   keeps I (case x of None \<Rightarrow> m | Some y \<Rightarrow> k y)"
  by (cases x) auto

end
