(* ===== verification/RustStr.thy ===== *)
theory RustStr
  imports Prelude
begin

section \<open>The parts of Rust's str and i64 the server uses\<close>

text \<open>
  A \<open>String\<close> or \<open>&str\<close> is a \<open>string\<close>, one \<open>char\<close> per Unicode scalar value; the
  model covers the scalar values up to U+00FF, on which every function below is the Rust
  one (\<open>char::is_whitespace\<close> holds of U+0009 to U+000D, U+0020, U+0085 and U+00A0
  there, the ASCII case functions touch a to z only). An \<open>i64\<close> is an \<open>int\<close> in
  \<open>i64_min .. i64_max\<close>; the operations that could leave the range say so.
\<close>

subsection \<open>Whitespace, trim, split\<close>

definition is_whitespace :: "char \<Rightarrow> bool" where
  "is_whitespace c \<longleftrightarrow> c \<in> set [CHR 0x09, CHR 0x0A, CHR 0x0B, CHR 0x0C, CHR 0x0D, CHR '' '',
     CHR 0x85, CHR 0xA0]"

definition trim_start :: "string \<Rightarrow> string" where
  "trim_start s = dropWhile is_whitespace s"

definition trim_end :: "string \<Rightarrow> string" where
  "trim_end s = rev (dropWhile is_whitespace (rev s))"

definition trim :: "string \<Rightarrow> string" where
  "trim s = trim_end (trim_start s)"

function (sequential) split_whitespace :: "string \<Rightarrow> string list" where
  "split_whitespace [] = []"
| "split_whitespace (c # cs) =
     (if is_whitespace c then split_whitespace cs
      else (c # takeWhile (\<lambda>d. \<not> is_whitespace d) cs)
           # split_whitespace (dropWhile (\<lambda>d. \<not> is_whitespace d) cs))"
  by pat_completeness auto
termination
  by (relation "measure length") (auto simp: le_imp_less_Suc length_dropWhile_le)

text \<open>\<open>str::split_once(pat)\<close>: the text before and after the first occurrence of the pattern.\<close>

fun split_once :: "string \<Rightarrow> string \<Rightarrow> (string \<times> string) option" where
  "split_once pat [] = (if pat = [] then Some ([], []) else None)"
| "split_once pat (c # cs) =
     (if prefix pat (c # cs) then Some ([], drop (length pat) (c # cs))
      else (case split_once pat cs of None \<Rightarrow> None | Some (a, b) \<Rightarrow> Some (c # a, b)))"

definition starts_with :: "string \<Rightarrow> string \<Rightarrow> bool" where
  "starts_with s pat = prefix pat s"

definition strip_prefix :: "string \<Rightarrow> string \<Rightarrow> string option" where
  "strip_prefix s pat = (if prefix pat s then Some (drop (length pat) s) else None)"

text \<open>\<open>[S]::join(sep)\<close>.\<close>

fun join :: "string \<Rightarrow> string list \<Rightarrow> string" where
  "join sep [] = []"
| "join sep [x] = x"
| "join sep (x # y # zs) = x @ sep @ join sep (y # zs)"

definition to_upper_char :: "char \<Rightarrow> char" where
  "to_upper_char c =
     (if CHR ''a'' \<le> c \<and> c \<le> CHR ''z'' then char_of (of_char c - (32 :: nat)) else c)"

definition to_ascii_uppercase :: "string \<Rightarrow> string" where
  "to_ascii_uppercase s = map to_upper_char s"

definition eq_ignore_ascii_case :: "string \<Rightarrow> string \<Rightarrow> bool" where
  "eq_ignore_ascii_case a b \<longleftrightarrow> to_ascii_uppercase a = to_ascii_uppercase b"

subsection \<open>Decimal integers\<close>

definition i64_min :: int where "i64_min = - 9223372036854775808"
definition i64_max :: int where "i64_max = 9223372036854775807"

definition is_i64 :: "int \<Rightarrow> bool" where
  "is_i64 i \<longleftrightarrow> i64_min \<le> i \<and> i \<le> i64_max"

definition digit_val :: "char \<Rightarrow> int option" where
  "digit_val c =
     (if CHR ''0'' \<le> c \<and> c \<le> CHR ''9'' then Some (int (of_char c) - 48) else None)"

text \<open>
  \<open>str::parse::<i64>()\<close>: an optional sign, at least one digit, digits only, and the
  value in range (the standard library checks the range at every digit, which fails
  exactly when the final value is out of range, as the partial values only grow in size).
\<close>

fun digits_val :: "int \<Rightarrow> string \<Rightarrow> int option" where
  "digits_val acc [] = Some acc"
| "digits_val acc (c # cs) =
     (case digit_val c of None \<Rightarrow> None | Some d \<Rightarrow> digits_val (10 * acc + d) cs)"

definition parse_i64 :: "string \<Rightarrow> int option" where
  "parse_i64 s =
     (case s of
        [] \<Rightarrow> None
      | c # cs \<Rightarrow>
          let (sign, ds) = (if c = CHR ''-'' then (- 1, cs) else if c = CHR ''+'' then (1, cs)
                            else (1, c # cs))
          in (if ds = [] then None
              else (case digits_val 0 ds of
                      None \<Rightarrow> None
                    | Some v \<Rightarrow> (if is_i64 (sign * v) then Some (sign * v) else None))))"

text \<open>\<open>i64::to_string()\<close>, the Display form.\<close>

definition digit_char :: "nat \<Rightarrow> char" where
  "digit_char d = char_of (d + 48)"

fun show_nat :: "nat \<Rightarrow> string" where
  "show_nat n = (if n < 10 then [digit_char n] else show_nat (n div 10) @ [digit_char (n mod 10)])"

declare show_nat.simps [simp del]

definition show_int :: "int \<Rightarrow> string" where
  "show_int i = (if i < 0 then CHR ''-'' # show_nat (nat (- i)) else show_nat (nat i))"

text \<open>
  \<open>a + b\<close> on \<open>i64\<close> in the development profile (\<open>cargo run\<close>, as the README
  starts the server): overflow panics.
\<close>

definition add_i64 :: "int \<Rightarrow> int \<Rightarrow> err + int" where
  "add_i64 a b = (if is_i64 (a + b) then Inr (a + b)
                  else Inl (Panic ''attempt to add with overflow''))"

subsection \<open>Facts about whitespace and splitting\<close>

definition no_ws :: "string \<Rightarrow> bool" where
  "no_ws s \<longleftrightarrow> (\<forall>c \<in> set s. \<not> is_whitespace c)"

text \<open>A word: what \<open>split_whitespace\<close> can yield.\<close>

definition is_word :: "string \<Rightarrow> bool" where
  "is_word s \<longleftrightarrow> s \<noteq> [] \<and> no_ws s"

lemma no_ws_simps [simp]:
  "no_ws []"
  "no_ws (c # s) \<longleftrightarrow> \<not> is_whitespace c \<and> no_ws s"
  "no_ws (s @ t) \<longleftrightarrow> no_ws s \<and> no_ws t"
  by (auto simp: no_ws_def)

lemma is_whitespace_space [simp]: "is_whitespace (CHR '' '')"
  by (simp add: is_whitespace_def)

lemma not_whitespace_marks [simp]:
  "\<not> is_whitespace (CHR '':'')"
  "\<not> is_whitespace (CHR ''#'')"
  "\<not> is_whitespace (CHR ''@'')"
  by (simp_all add: is_whitespace_def)

lemma takeWhile_no_ws [simp]: "no_ws s \<Longrightarrow> takeWhile (\<lambda>d. \<not> is_whitespace d) s = s"
  by (auto simp: no_ws_def takeWhile_eq_all_conv)

lemma dropWhile_no_ws [simp]: "no_ws s \<Longrightarrow> dropWhile (\<lambda>d. \<not> is_whitespace d) s = []"
  by (auto simp: no_ws_def dropWhile_eq_Nil_conv)

lemma takeWhile_no_ws_append [simp]:
  "no_ws s \<Longrightarrow> is_whitespace c \<Longrightarrow> takeWhile (\<lambda>d. \<not> is_whitespace d) (s @ c # t) = s"
  by (induction s) auto

lemma dropWhile_no_ws_append [simp]:
  "no_ws s \<Longrightarrow> is_whitespace c \<Longrightarrow> dropWhile (\<lambda>d. \<not> is_whitespace d) (s @ c # t) = c # t"
  by (induction s) auto

lemma split_whitespace_word: "is_word w \<Longrightarrow> split_whitespace w = [w]"
  by (cases w) (auto simp: is_word_def)

lemma split_whitespace_word_append:
  "is_word w \<Longrightarrow> is_whitespace c \<Longrightarrow> split_whitespace (w @ c # s) = w # split_whitespace s"
  by (cases w) (auto simp: is_word_def)

lemma join_Cons: "join sep (x # ys) = (if ys = [] then x else x @ sep @ join sep ys)"
  by (cases ys) simp_all

lemma split_whitespace_join:
  "(\<forall>w \<in> set ws. is_word w) \<Longrightarrow> split_whitespace (join '' '' ws) = ws"
proof (induction ws)
  case Nil
  show ?case by simp
next
  case (Cons w ws)
  then show ?case
    by (simp add: join_Cons split_whitespace_word split_whitespace_word_append)
qed

lemma is_word_takeWhile:
  "\<not> is_whitespace c \<Longrightarrow> is_word (c # takeWhile (\<lambda>d. \<not> is_whitespace d) cs)"
  by (auto simp: is_word_def no_ws_def dest: set_takeWhileD)

lemma split_whitespace_words: "w \<in> set (split_whitespace s) \<Longrightarrow> is_word w"
proof (induction s rule: split_whitespace.induct)
  case 1
  then show ?case by simp
next
  case (2 c cs)
  show ?case
  proof (cases "is_whitespace c")
    case True
    with 2 show ?thesis by simp
  next
    case False
    with "2.prems" have "w = c # takeWhile (\<lambda>d. \<not> is_whitespace d) cs
        \<or> w \<in> set (split_whitespace (dropWhile (\<lambda>d. \<not> is_whitespace d) cs))"
      by simp
    then show ?thesis using "2.IH"(2) [OF False] is_word_takeWhile [OF False] by blast
  qed
qed

subsection \<open>Facts about trim\<close>

lemma trim_end_snoc: "\<not> is_whitespace c \<Longrightarrow> trim_end (s @ [c]) = s @ [c]"
  by (simp add: trim_end_def)

lemma trim_start_Cons: "\<not> is_whitespace c \<Longrightarrow> trim_start (c # s) = c # s"
  by (simp add: trim_start_def)

lemma dropWhile_hd: "s \<noteq> [] \<Longrightarrow> \<not> P (hd s) \<Longrightarrow> dropWhile P s = s"
  by (cases s) auto

lemma trim_ends:
  "s \<noteq> [] \<Longrightarrow> \<not> is_whitespace (hd s) \<Longrightarrow> \<not> is_whitespace (last s) \<Longrightarrow> trim s = s"
  by (simp add: trim_def trim_start_def trim_end_def dropWhile_hd hd_rev)

lemma trim_word: "is_word s \<Longrightarrow> trim s = s"
  by (rule trim_ends) (auto simp: is_word_def no_ws_def)

lemma trim_Nil [simp]: "trim [] = []"
  by (simp add: trim_def trim_start_def trim_end_def)

lemma hd_trim: "trim s \<noteq> [] \<Longrightarrow> \<not> is_whitespace (hd (trim s))"
proof -
  assume ne: "trim s \<noteq> []"
  have "prefix (trim_end t) t" for t
    unfolding trim_end_def using suffix_dropWhile [of is_whitespace "rev t"]
    by (metis rev_rev_ident suffix_to_prefix)
  then have p: "prefix (trim s) (trim_start s)"
    by (simp add: trim_def)
  with ne have "hd (trim s) = hd (trim_start s)" and "trim_start s \<noteq> []"
    by (auto simp: prefix_def)
  then show ?thesis
    using hd_dropWhile [of is_whitespace s] by (simp add: trim_start_def)
qed

lemma last_trim: "trim s \<noteq> [] \<Longrightarrow> \<not> is_whitespace (last (trim s))"
  unfolding trim_def trim_end_def
  using hd_dropWhile [of is_whitespace "rev (trim_start s)"] by (simp add: last_rev)

lemma trim_idem: "trim (trim s) = trim s"
  by (cases "trim s = []") (auto intro!: trim_ends hd_trim last_trim)

subsection \<open>Facts about split\_once\<close>

lemma split_once_Some:
  "split_once pat s = Some (a, b) \<Longrightarrow> s = a @ pat @ b"
proof (induction s arbitrary: a)
  case Nil
  then show ?case by (simp split: if_splits)
next
  case (Cons c cs)
  then show ?case
    by (auto simp: prefix_def split: if_splits option.splits)
qed

lemma split_once_char:
  "c \<notin> set a \<Longrightarrow> split_once [c] (a @ c # b) = Some (a, b)"
  by (induction a) auto

lemma split_once_char_None: "split_once [c] s = None \<longleftrightarrow> c \<notin> set s"
  by (induction s) (auto split: option.splits)

lemma strip_prefix_Some: "strip_prefix s pat = Some r \<longleftrightarrow> s = pat @ r"
  by (auto simp: strip_prefix_def prefix_def)

lemma strip_prefix_append [simp]: "strip_prefix (pat @ r) pat = Some r"
  by (simp add: strip_prefix_def)

subsection \<open>Decimal round trip\<close>

lemma digit_val_digit_char: "d < 10 \<Longrightarrow> digit_val (digit_char d) = Some (int d)"
proof -
  assume "d < 10"
  then have "d \<in> {0, 1, 2, 3, 4, 5, 6, 7, 8, 9}" by auto
  then show ?thesis by (auto simp: digit_val_def digit_char_def less_eq_char_def)
qed

lemma digits_val_append:
  "digits_val acc (s @ t) =
     (case digits_val acc s of None \<Rightarrow> None | Some v \<Rightarrow> digits_val v t)"
  by (induction s arbitrary: acc) (auto split: option.splits)

lemma digits_val_show_nat: "digits_val 0 (show_nat n) = Some (int n)"
proof (induction n rule: show_nat.induct)
  case (1 n)
  show ?case
  proof (cases "n < 10")
    case True
    then show ?thesis by (simp add: show_nat.simps [of n] digit_val_digit_char)
  next
    case False
    have "10 * int (n div 10) + int (n mod 10) = int n" by presburger
    with 1 False show ?thesis
      by (simp add: show_nat.simps [of n] digits_val_append digit_val_digit_char)
  qed
qed

definition is_digit :: "char \<Rightarrow> bool" where
  "is_digit c \<longleftrightarrow> CHR ''0'' \<le> c \<and> c \<le> CHR ''9''"

lemma is_digit_digit_char: "d < 10 \<Longrightarrow> is_digit (digit_char d)"
  using digit_val_digit_char [of d] by (auto simp: is_digit_def digit_val_def split: if_splits)

lemma show_nat_digits: "c \<in> set (show_nat n) \<Longrightarrow> is_digit c"
proof (induction n rule: show_nat.induct)
  case (1 n)
  then show ?case
    by (cases "n < 10") (auto simp: show_nat.simps [of n] is_digit_digit_char)
qed

lemma show_nat_nonempty: "show_nat n \<noteq> []"
  by (subst show_nat.simps) simp

lemma parse_i64_show_int:
  assumes "is_i64 i"
  shows "parse_i64 (show_int i) = Some i"
proof (cases "i < 0")
  case True
  with assms show ?thesis
    by (simp add: parse_i64_def show_int_def show_nat_nonempty digits_val_show_nat)
next
  case False
  obtain c cs where s: "show_nat (nat i) = c # cs"
    using show_nat_nonempty by (cases "show_nat (nat i)") auto
  then have "is_digit c" using show_nat_digits [of c "nat i"] by simp
  then have "c \<noteq> CHR ''-''" "c \<noteq> CHR ''+''" by (auto simp: is_digit_def less_eq_char_def)
  with s False assms digits_val_show_nat [of "nat i"] show ?thesis
    by (simp add: parse_i64_def show_int_def)
qed

lemma parse_i64_range: "parse_i64 s = Some i \<Longrightarrow> is_i64 i"
  by (auto simp: parse_i64_def Let_def split: list.splits if_splits option.splits prod.splits)

lemma digit_no_ws: "is_digit c \<Longrightarrow> \<not> is_whitespace c"
  by (auto simp: is_digit_def is_whitespace_def less_eq_char_def)

lemma is_word_show_int: "is_word (show_int i)"
  using show_nat_digits digit_no_ws
  by (auto simp: is_word_def show_int_def show_nat_nonempty no_ws_def is_whitespace_def)

end
