(* ===== verification/Codec.thy ===== *)
theory Codec
  imports Prelude
begin

section \<open>Interface: encodings that can be read back symbol by symbol\<close>

text \<open>
  The server has two encoders that turn a sequence of symbols into text: the IRCv3 tag
  escaping and the hex encoding of token bytes. What the rest of the development needs of
  either is the contract below: the code word of a symbol can be recognised at the front of
  any text (\<open>prefix_codec\<close>), and a whole decoder that follows it inverts the encoder
  (\<open>stream_codec\<close>). Theory Wire interprets the second on the server's
  \<open>escape_tag_value\<close> and the Python client's \<open>_unescape_tag_value\<close>, theory Tokens
  the first on \<open>hex_encode\<close>.
\<close>

locale prefix_codec =
  fixes enc :: "'a \<Rightarrow> 'b list"
    and dec1 :: "'b list \<Rightarrow> ('a \<times> 'b list) option"
  assumes dec1_enc: "dec1 (enc x @ ys) = Some (x, ys)"
    and dec1_Nil: "dec1 [] = None"
begin

lemma enc_nonempty: "enc x \<noteq> []"
  using dec1_enc [of x "[]"] dec1_Nil by auto

lemma enc_append_eq: "enc x @ ys = enc x' @ ys' \<longleftrightarrow> x = x' \<and> ys = ys'"
  by (metis dec1_enc option.inject prod.inject)

lemma encs_inj: "concat (map enc xs) = concat (map enc xs') \<longleftrightarrow> xs = xs'"
proof (induction xs arbitrary: xs')
  case Nil
  show ?case by (cases xs') (auto simp: enc_nonempty)
next
  case (Cons x xs)
  then show ?case by (cases xs') (auto simp: enc_nonempty enc_append_eq)
qed

end

locale stream_codec = prefix_codec +
  fixes dec :: "'b list \<Rightarrow> 'a list"
  assumes dec_Nil: "dec [] = []"
    and dec_step: "dec1 ys = Some (x, zs) \<Longrightarrow> dec ys = x # dec zs"
begin

lemma dec_encs_append: "dec (concat (map enc xs) @ ys) = xs @ dec ys"
  by (induction xs) (simp_all add: dec_step [OF dec1_enc])

lemma dec_encs: "dec (concat (map enc xs)) = xs"
  using dec_encs_append [of xs "[]"] by (simp add: dec_Nil)

end

end
