(* ===== verification/Wire.thy ===== *)
theory Wire
  imports RustStr Codec
begin

section \<open>Wire format: channel names and message tags\<close>

text \<open>
  The free functions at the end of src/src/server.rs: \<open>normalize_channel\<close>,
  \<open>metadata_tags\<close>, \<open>format_message_tags\<close>, \<open>task_failure_tags\<close> and
  \<open>escape_tag_value\<close>; and the reader the repository ships for them, the tag part of
  \<open>_parse_irc_line\<close> and \<open>_unescape_tag_value\<close> of src/clients/python/aircd/client.py.
\<close>

definition SERVER_NAME :: string where
  "SERVER_NAME = ''aircd''"

subsection \<open>Channel names\<close>

definition normalize_channel :: "string \<Rightarrow> string" where
  "normalize_channel channel =
     (let channel = trim channel in
      if starts_with channel ''#'' then channel
      else if channel = [] then ''#demo''
      else ''#'' @ channel)"

lemma normalize_channel_hash: "\<exists>r. normalize_channel c = CHR ''#'' # r"
  by (cases "trim c")
     (auto simp: normalize_channel_def Let_def starts_with_def)

lemma normalize_channel_fix:
  assumes "is_word (CHR ''#'' # s)"
  shows "normalize_channel (CHR ''#'' # s) = CHR ''#'' # s"
  by (simp add: normalize_channel_def trim_word [OF assms] starts_with_def Let_def)

lemma normalize_channel_trimmed: "trim (normalize_channel c) = normalize_channel c"
proof (cases "trim c = []")
  case True
  have "is_word ''#demo''" by (simp add: is_word_def is_whitespace_def)
  with True show ?thesis by (simp add: normalize_channel_def starts_with_def trim_word)
next
  case False
  then have "\<not> is_whitespace (last (trim c))" by (rule last_trim)
  with False have "trim (''#'' @ trim c) = ''#'' @ trim c"
    by (intro trim_ends) auto
  with False show ?thesis by (auto simp: normalize_channel_def Let_def trim_idem)
qed

lemma normalize_channel_idem:
  "normalize_channel (normalize_channel c) = normalize_channel c"
  using normalize_channel_hash [of c] normalize_channel_trimmed [of c]
  by (auto simp: normalize_channel_def [of "normalize_channel c"] Let_def starts_with_def)

subsection \<open>Escaping tag values\<close>

definition escape_char :: "char \<Rightarrow> string" where
  "escape_char c =
     (if c = CHR '';'' then [CHR 0x5C, CHR '':'']
      else if c = CHR '' '' then [CHR 0x5C, CHR ''s'']
      else if c = CHR 0x5C then [CHR 0x5C, CHR 0x5C]
      else if c = CHR 0x0D then [CHR 0x5C, CHR ''r'']
      else if c = CHR 0x0A then [CHR 0x5C, CHR ''n'']
      else [c])"

definition escape_tag_value :: "string \<Rightarrow> string" where
  "escape_tag_value value = concat (map escape_char value)"

text \<open>The Python client's reader; a lone backslash at the end stands for itself.\<close>

definition unescape_char :: "char \<Rightarrow> char" where
  "unescape_char e =
     (if e = CHR '':'' then CHR '';''
      else if e = CHR ''s'' then CHR '' ''
      else if e = CHR 0x5C then CHR 0x5C
      else if e = CHR ''r'' then CHR 0x0D
      else if e = CHR ''n'' then CHR 0x0A
      else e)"

fun unescape_tag_value :: "string \<Rightarrow> string" where
  "unescape_tag_value [] = []"
| "unescape_tag_value (c # cs) =
     (if c \<noteq> CHR 0x5C then c # unescape_tag_value cs
      else (case cs of [] \<Rightarrow> [CHR 0x5C] | e # es \<Rightarrow> unescape_char e # unescape_tag_value es))"

definition unescape1 :: "string \<Rightarrow> (char \<times> string) option" where
  "unescape1 s =
     (case s of
        [] \<Rightarrow> None
      | c # cs \<Rightarrow>
          if c \<noteq> CHR 0x5C then Some (c, cs)
          else (case cs of [] \<Rightarrow> Some (CHR 0x5C, []) | e # es \<Rightarrow> Some (unescape_char e, es)))"

lemma unescape1_escape_char: "unescape1 (escape_char c @ s) = Some (c, s)"
  by (simp add: unescape1_def escape_char_def unescape_char_def)

lemma unescape1_step:
  assumes "unescape1 s = Some (c, t)"
  shows "unescape_tag_value s = c # unescape_tag_value t"
proof (cases s)
  case Nil
  with assms show ?thesis by (simp add: unescape1_def)
next
  case (Cons d cs)
  with assms show ?thesis
    by (cases "d = CHR 0x5C"; cases cs) (simp_all add: unescape1_def)
qed

interpretation tagc: stream_codec escape_char unescape1 unescape_tag_value
  by unfold_locales (simp_all add: unescape1_escape_char unescape1_step, simp add: unescape1_def)

text \<open>Characters that structure a tag section never come out of the escaping.\<close>

definition tag_safe :: "string \<Rightarrow> bool" where
  "tag_safe s \<longleftrightarrow> set s \<inter> {CHR '';'', CHR '' '', CHR 0x0D, CHR 0x0A} = {}"

lemma tag_safe_simps [simp]:
  "tag_safe []"
  "tag_safe (s @ t) \<longleftrightarrow> tag_safe s \<and> tag_safe t"
  by (auto simp: tag_safe_def)

lemma tag_safe_escape_char: "tag_safe (escape_char c)"
  by (simp add: tag_safe_def escape_char_def)

lemma tag_safe_escape: "tag_safe (escape_tag_value v)"
  by (induction v) (simp_all add: escape_tag_value_def tag_safe_escape_char)

subsection \<open>Tag sections\<close>

definition format_tag :: "string \<times> string \<Rightarrow> string" where
  "format_tag kv = fst kv @ ''='' @ escape_tag_value (snd kv)"

definition format_message_tags :: "(string \<times> string) list \<Rightarrow> string" where
  "format_message_tags tags = ''@'' @ join '';'' (map format_tag tags)"

definition metadata_tags :: "int \<Rightarrow> string \<Rightarrow> int \<Rightarrow> bool \<Rightarrow> string" where
  "metadata_tags seq msg_id created_at replay =
     format_message_tags
       ([(''seq'', show_int seq), (''msg-id'', msg_id), (''time'', show_int created_at)]
        @ (if replay then [(''replay'', ''1'')] else []))"

definition task_failure_tags :: "string \<Rightarrow> string \<Rightarrow> string \<Rightarrow> string" where
  "task_failure_tags action task_id actor =
     format_message_tags
       [(''task-id'', task_id), (''task-action'', action), (''task-status'', ''failed''),
        (''task-actor'', actor)]"

text \<open>
  The reader of client.py, lines 348 to 356: \<open>None\<close> where \<open>line.index\<close> raises. A
  Python dict is a map; a later tag with the same key replaces the earlier one.
\<close>

fun split_char :: "char \<Rightarrow> string \<Rightarrow> string list" where
  "split_char d [] = [[]]"
| "split_char d (c # cs) =
     (if c = d then [] # split_char d cs
      else (case split_char d cs of [] \<Rightarrow> [[c]] | w # ws \<Rightarrow> (c # w) # ws))"

definition add_tag :: "string \<Rightarrow> (string \<rightharpoonup> string) \<Rightarrow> (string \<rightharpoonup> string)" where
  "add_tag part tags =
     (case split_once ''='' part of
        Some (k, v) \<Rightarrow> tags(k \<mapsto> unescape_tag_value v)
      | None \<Rightarrow> tags(part \<mapsto> []))"

definition read_tags :: "string \<Rightarrow> ((string \<rightharpoonup> string) \<times> string) option" where
  "read_tags line =
     (if starts_with line ''@'' then
        (case split_once '' '' line of
           None \<Rightarrow> None
         | Some (tag_part, rest) \<Rightarrow>
             Some (fold add_tag (split_char (CHR '';'') (tl tag_part)) Map.empty, rest))
      else Some (Map.empty, line))"

text \<open>Keys as the server writes them: no separator of the tag syntax in them.\<close>

definition tag_key :: "string \<Rightarrow> bool" where
  "tag_key k \<longleftrightarrow> tag_safe k \<and> CHR ''='' \<notin> set k"

lemma tag_safe_format_tag: "tag_key (fst kv) \<Longrightarrow> tag_safe (format_tag kv)"
  using tag_safe_escape [of "snd kv"] by (simp add: format_tag_def tag_key_def) (simp add: tag_safe_def)

lemma split_char_notin: "d \<notin> set s \<Longrightarrow> split_char d s = [s]"
  by (induction s) auto

lemma split_char_append: "d \<notin> set s \<Longrightarrow> split_char d (s @ d # t) = s # split_char d t"
  by (induction s) auto

lemma split_char_join:
  "ws \<noteq> [] \<Longrightarrow> (\<forall>w \<in> set ws. d \<notin> set w) \<Longrightarrow> split_char d (join [d] ws) = ws"
  by (induction ws) (auto simp: join_Cons split_char_notin split_char_append)

lemma set_join: "set (join sep ws) \<subseteq> set sep \<union> (\<Union>w \<in> set ws. set w)"
  by (induction ws) (auto simp: join_Cons)

lemma add_tag_format_tag:
  assumes "tag_key (fst kv)"
  shows "add_tag (format_tag kv) m = m(fst kv \<mapsto> snd kv)"
proof -
  have "split_once ''='' (fst kv @ CHR ''='' # escape_tag_value (snd kv))
      = Some (fst kv, escape_tag_value (snd kv))"
    using assms by (intro split_once_char) (simp add: tag_key_def)
  then show ?thesis
    by (simp add: add_tag_def format_tag_def escape_tag_value_def tagc.dec_encs)
qed

lemma fold_add_tags:
  "(\<forall>kv \<in> set tags. tag_key (fst kv)) \<Longrightarrow>
   fold add_tag (map format_tag tags) m = m ++ map_of (rev tags)"
proof (induction tags arbitrary: m)
  case Nil
  show ?case by simp
next
  case (Cons kv tags)
  then show ?case
    by (cases kv) (simp add: add_tag_format_tag map_add_upd_left map_add_def fun_eq_iff
        split: option.splits)
qed

lemma format_message_tags_no_space:
  assumes "\<forall>kv \<in> set tags. tag_key (fst kv)"
  shows "CHR '' '' \<notin> set (format_message_tags tags)"
proof -
  have "\<forall>kv \<in> set tags. CHR '' '' \<notin> set (format_tag kv)"
    using assms tag_safe_format_tag by (fastforce simp: tag_safe_def)
  then show ?thesis
    using set_join [of "'';''" "map format_tag tags"] by (auto simp: format_message_tags_def)
qed

lemma read_tags_format:
  assumes keys: "\<forall>kv \<in> set tags. tag_key (fst kv)" and ne: "tags \<noteq> []"
    and dist: "distinct (map fst tags)"
  shows "read_tags (format_message_tags tags @ '' '' @ rest) = Some (map_of tags, rest)"
proof -
  have once: "split_once '' '' (format_message_tags tags @ CHR '' '' # rest)
      = Some (format_message_tags tags, rest)"
    by (intro split_once_char format_message_tags_no_space keys)
  have "\<forall>w \<in> set (map format_tag tags). CHR '';'' \<notin> set w"
    using keys tag_safe_format_tag by (fastforce simp: tag_safe_def)
  then have "split_char (CHR '';'') (tl (format_message_tags tags)) = map format_tag tags"
    using ne by (simp add: format_message_tags_def split_char_join)
  moreover have "map_of (rev tags) = map_of tags"
    using dist by (metis distinct_rev map_of_inject_set rev_map rev_rev_ident set_rev)
  ultimately show ?thesis
    using keys once by (simp add: read_tags_def starts_with_def fold_add_tags)
       (simp add: format_message_tags_def)
qed

lemma metadata_keys [simp]:
  "tag_key ''seq''" "tag_key ''msg-id''" "tag_key ''time''" "tag_key ''replay''"
  "tag_key ''task-id''" "tag_key ''task-action''" "tag_key ''task-status''"
  "tag_key ''task-actor''" "tag_key ''task-title''"
  by (simp_all add: tag_key_def tag_safe_def)

end
