(* ===== verification/Protocol.thy ===== *)
theory Protocol
  imports RustStr
begin

section \<open>The line protocol (src/src/protocol.rs)\<close>

text \<open>
  \<open>command\<close> is the enum \<open>Command\<close>; \<open>parse_command\<close> and its helpers are the
  functions of the same names. \<open>client_line\<close> is the writing side: the lines
  \<open>AircdClient\<close> of src/clients/python/aircd/client.py sends for each command. The
  lemmas show that parsing such a line gives the command back.
\<close>

datatype command =
    Pass string
  | Nick string
  | User string
  | Join string
  | Part string
  | Privmsg string string
  | Ping string
  | Pong
  | Quit
  | Cap string "string list"
  | History "string option" int int
  | TaskCreate string string
  | TaskClaim string
  | TaskDone string
  | TaskRelease string
  | TaskList string
  | Unknown string

subsection \<open>Parsing\<close>

definition strip_tags_and_prefix :: "string \<Rightarrow> string" where
  "strip_tags_and_prefix line =
     (let without_tags =
            (if starts_with line ''@''
             then (case split_once '' '' line of Some (_, rest) \<Rightarrow> rest | None \<Rightarrow> line)
             else line)
      in (if starts_with without_tags '':''
          then (case split_once '' '' without_tags of
                  Some (_, rest) \<Rightarrow> rest | None \<Rightarrow> without_tags)
          else without_tags))"

definition split_trailing :: "string \<Rightarrow> string \<times> string option" where
  "split_trailing line =
     (case split_once '' :'' line of
        Some (head, trailing) \<Rightarrow> (head, Some trailing)
      | None \<Rightarrow> (line, None))"

text \<open>\<open>parts.get(i).copied().unwrap_or(d)\<close>, and \<open>s.parse().unwrap_or(d)\<close>.\<close>

definition part_or :: "string \<Rightarrow> nat \<Rightarrow> string list \<Rightarrow> string" where
  "part_or d i parts = (if i < length parts then parts ! i else d)"

definition int_or :: "int \<Rightarrow> string \<Rightarrow> int" where
  "int_or d s = (case parse_i64 s of Some v \<Rightarrow> v | None \<Rightarrow> d)"

definition parse_chathistory :: "string list \<Rightarrow> command" where
  "parse_chathistory parts =
     (if parts \<noteq> [] \<and> eq_ignore_ascii_case (parts ! 0) ''AFTER'' then
        (if 1 < length parts \<and> starts_with (parts ! 1) ''#'' then
           History (Some (parts ! 1)) (int_or 0 (part_or ''0'' 2 parts))
             (int_or 100 (part_or ''100'' 3 parts))
         else
           History None (int_or 0 (part_or ''0'' 1 parts)) (int_or 100 (part_or ''100'' 2 parts)))
      else
        History (if parts = [] then None else Some (parts ! 0))
          (int_or 0 (part_or ''0'' 1 parts)) (int_or 100 (part_or ''100'' 2 parts)))"

definition parse_task :: "string list \<Rightarrow> string option \<Rightarrow> command" where
  "parse_task parts trailing =
     (case parts of
        [] \<Rightarrow> Unknown ''TASK''
      | first # _ \<Rightarrow>
          let action = to_ascii_uppercase first in
          if action = ''CREATE'' then
            TaskCreate (part_or [] 1 parts)
              (case trailing of Some t \<Rightarrow> t | None \<Rightarrow> join '' '' (drop 2 parts))
          else if action = ''CLAIM'' then TaskClaim (part_or [] 1 parts)
          else if action = ''DONE'' then TaskDone (part_or [] 1 parts)
          else if action = ''RELEASE'' then TaskRelease (part_or [] 1 parts)
          else if action = ''LIST'' then TaskList (part_or [] 1 parts)
          else Unknown (''TASK '' @ action))"

text \<open>The \<open>match\<close> on the verb; \<open>parts\<close> are the words after it.\<close>

definition parse_verb :: "string \<Rightarrow> string list \<Rightarrow> string option \<Rightarrow> command" where
  "parse_verb verb parts trailing =
     (let rest_or = (\<lambda>k. case trailing of Some t \<Rightarrow> t | None \<Rightarrow> join '' '' (drop k parts)) in
      if verb = ''PASS'' then Pass (join '' '' parts)
      else if verb = ''NICK'' then Nick (part_or [] 0 parts)
      else if verb = ''USER'' then User (part_or [] 0 parts)
      else if verb = ''JOIN'' then Join (part_or [] 0 parts)
      else if verb = ''PART'' then Part (part_or [] 0 parts)
      else if verb = ''PRIVMSG'' then Privmsg (part_or [] 0 parts) (rest_or 1)
      else if verb = ''PING'' then Ping (rest_or 0)
      else if verb = ''PONG'' then Pong
      else if verb = ''QUIT'' then Quit
      else if verb = ''CAP'' then
        Cap (to_ascii_uppercase (part_or [] 0 parts)) (split_whitespace (rest_or 1))
      else if verb = ''CHATHISTORY'' then parse_chathistory parts
      else if verb = ''HISTORY'' then
        History (Some (part_or [] 0 parts)) (int_or 0 (part_or ''0'' 1 parts))
          (int_or 100 (part_or ''100'' 2 parts))
      else if verb = ''TASK'' then parse_task parts trailing
      else Unknown verb)"

definition parse_command :: "string \<Rightarrow> command" where
  "parse_command line =
     (let line = strip_tags_and_prefix (trim line);
          (head, trailing) = split_trailing line;
          parts = split_whitespace head;
          verb = to_ascii_uppercase (part_or [] 0 parts)
      in parse_verb verb (drop 1 parts) trailing)"

subsection \<open>The lines the Python client writes\<close>

fun client_line :: "command \<Rightarrow> string" where
  "client_line (Pass token) = ''PASS '' @ token"
| "client_line (Nick nick) = ''NICK '' @ nick"
| "client_line (User nick) = ''USER '' @ nick @ '' 0 * :aircd agent''"
| "client_line (Join channel) = ''JOIN '' @ channel"
| "client_line (Part channel) = ''PART '' @ channel"
| "client_line (Privmsg target text) = ''PRIVMSG '' @ target @ '' :'' @ text"
| "client_line (Ping token) = ''PING :'' @ token"
| "client_line Pong = ''PONG :''"
| "client_line Quit = ''QUIT :bye''"
| "client_line (Cap sub caps) = ''CAP '' @ sub @ '' :'' @ join '' '' caps"
| "client_line (History None after_seq limit) =
     ''CHATHISTORY AFTER '' @ show_int after_seq @ '' '' @ show_int limit"
| "client_line (History (Some channel) after_seq limit) =
     ''CHATHISTORY AFTER '' @ channel @ '' '' @ show_int after_seq @ '' '' @ show_int limit"
| "client_line (TaskCreate channel title) = ''TASK CREATE '' @ channel @ '' :'' @ title"
| "client_line (TaskClaim task_id) = ''TASK CLAIM '' @ task_id"
| "client_line (TaskDone task_id) = ''TASK DONE '' @ task_id"
| "client_line (TaskRelease task_id) = ''TASK RELEASE '' @ task_id"
| "client_line (TaskList channel) = ''TASK LIST '' @ channel"
| "client_line (Unknown name) = name"

text \<open>
  A parameter is a word that does not start with a colon (that would start the trailing
  parameter); the trailing text must not end in whitespace, which the server trims.
\<close>

definition is_param :: "string \<Rightarrow> bool" where
  "is_param w \<longleftrightarrow> is_word w \<and> hd w \<noteq> CHR '':''"

definition is_text :: "string \<Rightarrow> bool" where
  "is_text s \<longleftrightarrow> s = [] \<or> \<not> is_whitespace (last s)"

definition is_channel :: "string \<Rightarrow> bool" where
  "is_channel w \<longleftrightarrow> is_word w \<and> starts_with w ''#''"

fun sendable :: "command \<Rightarrow> bool" where
  "sendable (Pass token) = is_param token"
| "sendable (Nick nick) = is_param nick"
| "sendable (User nick) = is_param nick"
| "sendable (Join channel) = is_param channel"
| "sendable (Part channel) = is_param channel"
| "sendable (Privmsg target text) = (is_param target \<and> is_text text)"
| "sendable (Ping token) = is_text token"
| "sendable Pong = True"
| "sendable Quit = True"
| "sendable (Cap sub caps) =
     (is_param sub \<and> to_ascii_uppercase sub = sub \<and> (\<forall>c \<in> set caps. is_word c))"
| "sendable (History ch after_seq limit) =
     (is_i64 after_seq \<and> is_i64 limit \<and> (case ch of None \<Rightarrow> True | Some c \<Rightarrow> is_channel c))"
| "sendable (TaskCreate channel title) = (is_param channel \<and> is_text title)"
| "sendable (TaskClaim task_id) = is_param task_id"
| "sendable (TaskDone task_id) = is_param task_id"
| "sendable (TaskRelease task_id) = is_param task_id"
| "sendable (TaskList channel) = is_param channel"
| "sendable (Unknown name) = False"

subsection \<open>Splitting a line into words and trailing text\<close>

definition colon_free :: "string \<Rightarrow> bool" where
  "colon_free s \<longleftrightarrow> split_once '' :'' s = None"

lemma colon_free_no_space: "CHR '' '' \<notin> set s \<Longrightarrow> colon_free s"
  by (induction s) (auto simp: colon_free_def)

lemma colon_free_step:
  "CHR '' '' \<notin> set w \<Longrightarrow> colon_free s \<Longrightarrow> (s = [] \<or> hd s \<noteq> CHR '':'') \<Longrightarrow>
   colon_free (w @ CHR '' '' # s)"
  by (induction w) (auto simp: colon_free_def prefix_def split: option.splits)

lemma split_once_colon_free:
  "colon_free h \<Longrightarrow> split_once '' :'' (h @ '' :'' @ b) = Some (h, b)"
proof (induction h)
  case Nil
  show ?case by simp
next
  case (Cons c h)
  then have not: "\<not> prefix '' :'' (c # h)" and "colon_free h"
    by (auto simp: colon_free_def split: if_splits option.splits)
  then have "\<not> prefix '' :'' ((c # h) @ '' :'' @ b)"
    by (cases h) auto
  with Cons.IH [OF \<open>colon_free h\<close>] show ?case by simp
qed

lemma is_word_no_space: "is_word w \<Longrightarrow> CHR '' '' \<notin> set w"
  by (auto simp: is_word_def no_ws_def is_whitespace_def)

lemma is_param_word: "is_param w \<Longrightarrow> is_word w"
  by (simp add: is_param_def)

lemma colon_free_join:
  assumes "is_word v" and "\<forall>w \<in> set ps. is_param w"
  shows "colon_free (join '' '' (v # ps))"
  using assms
proof (induction ps arbitrary: v)
  case Nil
  then show ?case by (simp add: colon_free_no_space is_word_no_space)
next
  case (Cons w ps)
  then have "colon_free (join '' '' (w # ps))" by (simp add: is_param_word)
  moreover have "hd (join '' '' (w # ps)) \<noteq> CHR '':''"
    using Cons.prems(2) by (cases w) (auto simp: join_Cons is_param_def is_word_def)
  ultimately show ?case
    using colon_free_step [OF is_word_no_space [OF Cons.prems(1)]] by simp
qed

subsection \<open>Parsing a line that was written from words\<close>

definition plain_verb :: "string \<Rightarrow> bool" where
  "plain_verb v \<longleftrightarrow> is_word v \<and> hd v \<noteq> CHR ''@'' \<and> hd v \<noteq> CHR '':''"

lemma strip_plain:
  "v \<noteq> [] \<Longrightarrow> hd v \<noteq> CHR ''@'' \<Longrightarrow> hd v \<noteq> CHR '':'' \<Longrightarrow>
   strip_tags_and_prefix (v @ s) = v @ s"
  by (cases v) (simp_all add: strip_tags_and_prefix_def starts_with_def)

lemma last_join_words:
  "ws \<noteq> [] \<Longrightarrow> (\<forall>w \<in> set ws. is_word w) \<Longrightarrow>
   join sep ws \<noteq> [] \<and> \<not> is_whitespace (last (join sep ws))"
proof (induction ws)
  case Nil
  then show ?case by simp
next
  case (Cons w ws)
  then show ?case
    by (cases "ws = []") (auto simp: join_Cons is_word_def no_ws_def)
qed

lemma join_verb: "join '' '' (v # ps) = v @ (if ps = [] then [] else '' '' @ join '' '' ps)"
  by (simp add: join_Cons)

lemma parse_words:
  assumes v: "plain_verb v" and ps: "\<forall>w \<in> set ps. is_param w"
  shows "parse_command (join '' '' (v # ps)) = parse_verb (to_ascii_uppercase v) ps None"
proof -
  let ?l = "join '' '' (v # ps)"
  have words: "\<forall>w \<in> set (v # ps). is_word w"
    using v ps by (auto simp: plain_verb_def is_param_def)
  have hd: "hd ?l = hd v" "v \<noteq> []"
    using v by (auto simp: join_verb plain_verb_def is_word_def)
  have "trim ?l = ?l"
    using words last_join_words [of "v # ps" "'' ''"] hd v
    by (intro trim_ends) (auto simp: plain_verb_def is_word_def no_ws_def)
  moreover have "strip_tags_and_prefix ?l = ?l"
    using v hd by (simp add: join_verb strip_plain plain_verb_def)
  moreover have "split_trailing ?l = (?l, None)"
    using colon_free_join [of v ps] words ps by (simp add: split_trailing_def colon_free_def)
  moreover have "split_whitespace ?l = v # ps"
    by (rule split_whitespace_join [OF words])
  ultimately show ?thesis by (simp add: parse_command_def Let_def part_or_def)
qed

lemma parse_words_trailing:
  assumes v: "plain_verb v" and ps: "\<forall>w \<in> set ps. is_param w" and b: "is_text b"
  shows "parse_command (join '' '' (v # ps) @ '' :'' @ b)
       = parse_verb (to_ascii_uppercase v) ps (Some b)"
proof -
  let ?h = "join '' '' (v # ps)" and ?l = "join '' '' (v # ps) @ '' :'' @ b"
  have words: "\<forall>w \<in> set (v # ps). is_word w"
    using v ps by (auto simp: plain_verb_def is_param_def)
  have hd: "hd ?l = hd v" "v \<noteq> []"
    using v by (auto simp: join_verb plain_verb_def is_word_def)
  have "\<not> is_whitespace (last ?l)"
    using b by (cases "b = []") (auto simp: is_text_def)
  then have "trim ?l = ?l"
    using hd v by (intro trim_ends) (auto simp: plain_verb_def is_word_def no_ws_def)
  moreover have "strip_tags_and_prefix ?l = ?l"
    using v hd by (simp add: join_verb strip_plain plain_verb_def)
  moreover have "split_trailing ?l = (?h, Some b)"
    using split_once_colon_free [OF colon_free_join [of v ps], of b] words ps
    by (simp add: split_trailing_def)
  moreover have "split_whitespace ?h = v # ps"
    by (rule split_whitespace_join [OF words])
  ultimately show ?thesis by (simp add: parse_command_def Let_def part_or_def)
qed

subsection \<open>Round trip: the server reads back what the client writes\<close>

lemmas upper_simps = to_ascii_uppercase_def to_upper_char_def less_eq_char_def

lemma verb_upper [simp]:
  "to_ascii_uppercase ''PASS'' = ''PASS''" "to_ascii_uppercase ''NICK'' = ''NICK''"
  "to_ascii_uppercase ''USER'' = ''USER''" "to_ascii_uppercase ''JOIN'' = ''JOIN''"
  "to_ascii_uppercase ''PART'' = ''PART''" "to_ascii_uppercase ''PRIVMSG'' = ''PRIVMSG''"
  "to_ascii_uppercase ''PING'' = ''PING''" "to_ascii_uppercase ''PONG'' = ''PONG''"
  "to_ascii_uppercase ''QUIT'' = ''QUIT''" "to_ascii_uppercase ''CAP'' = ''CAP''"
  "to_ascii_uppercase ''CHATHISTORY'' = ''CHATHISTORY''"
  "to_ascii_uppercase ''TASK'' = ''TASK''" "to_ascii_uppercase ''CREATE'' = ''CREATE''"
  "to_ascii_uppercase ''CLAIM'' = ''CLAIM''" "to_ascii_uppercase ''DONE'' = ''DONE''"
  "to_ascii_uppercase ''RELEASE'' = ''RELEASE''" "to_ascii_uppercase ''LIST'' = ''LIST''"
  "to_ascii_uppercase ''AFTER'' = ''AFTER''"
  by (simp_all add: upper_simps)

lemma plain_verbs [simp]:
  "plain_verb ''PASS''" "plain_verb ''NICK''" "plain_verb ''USER''" "plain_verb ''JOIN''"
  "plain_verb ''PART''" "plain_verb ''PRIVMSG''" "plain_verb ''PING''" "plain_verb ''PONG''"
  "plain_verb ''QUIT''" "plain_verb ''CAP''" "plain_verb ''CHATHISTORY''" "plain_verb ''TASK''"
  by (simp_all add: plain_verb_def is_word_def is_whitespace_def)

lemma plain_params [simp]:
  "is_param ''CREATE''" "is_param ''CLAIM''" "is_param ''DONE''" "is_param ''RELEASE''"
  "is_param ''LIST''" "is_param ''AFTER''" "is_param ''0''" "is_param ''*''"
  by (simp_all add: is_param_def is_word_def is_whitespace_def)

lemma is_text_consts [simp]: "is_text []" "is_text ''bye''" "is_text ''aircd agent''"
  by (simp_all add: is_text_def is_whitespace_def)

lemma is_param_show_int [simp]: "is_param (show_int i)"
proof -
  have "hd (show_nat n) \<noteq> CHR '':''" for n
    using show_nat_digits [of "hd (show_nat n)" n] show_nat_nonempty [of n]
    by (auto simp: is_digit_def less_eq_char_def)
  then show ?thesis by (simp add: is_param_def is_word_show_int) (simp add: show_int_def)
qed

lemma is_channel_param: "is_channel c \<Longrightarrow> is_param c \<and> starts_with c ''#''"
  by (cases c) (auto simp: is_channel_def is_param_def starts_with_def)

lemma show_int_not_channel: "\<not> starts_with (show_int i) ''#''"
proof -
  have "hd (show_nat n) \<noteq> CHR ''#''" for n
    using show_nat_digits [of "hd (show_nat n)" n] show_nat_nonempty [of n]
    by (auto simp: is_digit_def less_eq_char_def)
  then show ?thesis
    by (cases "show_nat (nat i)") (auto simp: starts_with_def show_int_def show_nat_nonempty,
        metis list.sel(1))
qed

lemma int_or_show_int: "is_i64 i \<Longrightarrow> int_or d (show_int i) = i"
  by (simp add: int_or_def parse_i64_show_int)

lemma is_text_join: "(\<forall>w \<in> set ws. is_word w) \<Longrightarrow> is_text (join sep ws)"
  using last_join_words [of ws sep] by (cases "ws = []") (auto simp: is_text_def)

lemma parse_client_history:
  assumes "sendable (History ch a n)"
  shows "parse_command (client_line (History ch a n)) = History ch a n"
proof (cases ch)
  case None
  have "client_line (History None a n)
      = join '' '' [''CHATHISTORY'', ''AFTER'', show_int a, show_int n]"
    by simp
  with None assms show ?thesis
    by (simp only: parse_words plain_verbs plain_params is_param_show_int
          list.set ball_simps verb_upper)
       (simp add: parse_verb_def parse_chathistory_def part_or_def int_or_show_int
          show_int_not_channel eq_ignore_ascii_case_def)
next
  case (Some c)
  with assms have c: "is_param c" "starts_with c ''#''" by (auto dest: is_channel_param)
  have "client_line (History (Some c) a n)
      = join '' '' [''CHATHISTORY'', ''AFTER'', c, show_int a, show_int n]"
    by simp
  with Some assms c show ?thesis
    by (simp only: parse_words plain_verbs plain_params is_param_show_int
          list.set ball_simps verb_upper)
       (simp add: parse_verb_def parse_chathistory_def part_or_def int_or_show_int
          eq_ignore_ascii_case_def)
qed

lemma client_line_words:
  "client_line (Pass w) = join '' '' [''PASS'', w]"
  "client_line (Nick w) = join '' '' [''NICK'', w]"
  "client_line (User w) = join '' '' [''USER'', w, ''0'', ''*''] @ '' :'' @ ''aircd agent''"
  "client_line (Join w) = join '' '' [''JOIN'', w]"
  "client_line (Part w) = join '' '' [''PART'', w]"
  "client_line (Privmsg w t) = join '' '' [''PRIVMSG'', w] @ '' :'' @ t"
  "client_line (Ping t) = join '' '' [''PING''] @ '' :'' @ t"
  "client_line Pong = join '' '' [''PONG''] @ '' :'' @ []"
  "client_line Quit = join '' '' [''QUIT''] @ '' :'' @ ''bye''"
  "client_line (Cap w cs) = join '' '' [''CAP'', w] @ '' :'' @ join '' '' cs"
  "client_line (TaskCreate w t) = join '' '' [''TASK'', ''CREATE'', w] @ '' :'' @ t"
  "client_line (TaskClaim w) = join '' '' [''TASK'', ''CLAIM'', w]"
  "client_line (TaskDone w) = join '' '' [''TASK'', ''DONE'', w]"
  "client_line (TaskRelease w) = join '' '' [''TASK'', ''RELEASE'', w]"
  "client_line (TaskList w) = join '' '' [''TASK'', ''LIST'', w]"
  by simp_all

lemma parse_client_line: "sendable c \<Longrightarrow> parse_command (client_line c) = c"
proof (cases c)
  case (History ch a n)
  assume "sendable c"
  with History show ?thesis by (simp only: parse_client_history)
next
  case (Cap w cs)
  assume "sendable c"
  with Cap have w: "is_param w" "to_ascii_uppercase w = w" and cs: "\<forall>c \<in> set cs. is_word c"
    by simp_all
  have "parse_command (join '' '' [''CAP'', w] @ '' :'' @ join '' '' cs)
      = parse_verb (to_ascii_uppercase ''CAP'') [w] (Some (join '' '' cs))"
    using w by (intro parse_words_trailing is_text_join cs) simp_all
  with Cap w show ?thesis
    by (simp only: client_line_words)
       (simp add: parse_verb_def part_or_def split_whitespace_join [OF cs])
qed (simp_all only: client_line_words sendable.simps parse_words parse_words_trailing
       plain_verbs plain_params is_text_consts is_text_join list.set ball_simps verb_upper simp_thms,
     simp_all add: parse_verb_def parse_task_def part_or_def split_whitespace_join)

subsection \<open>What parsing guarantees of any line\<close>

lemma int_or_range: "is_i64 d \<Longrightarrow> is_i64 (int_or d s)"
  by (auto simp: int_or_def dest: parse_i64_range split: option.splits)

lemma is_i64_defaults [simp]: "is_i64 0" "is_i64 100"
  by (simp_all add: is_i64_def i64_min_def i64_max_def)

lemma parse_history_range:
  "parse_verb verb parts trailing = History ch a n \<Longrightarrow> is_i64 a \<and> is_i64 n"
  by (auto simp: parse_verb_def parse_chathistory_def parse_task_def Let_def int_or_range
      split: if_splits list.splits)

lemma part_or_word: "(\<forall>w \<in> set parts. is_word w) \<Longrightarrow> no_ws (part_or [] i parts)"
  by (auto simp: part_or_def is_word_def)

lemma parse_history_i64: "parse_command line = History ch a n \<Longrightarrow> is_i64 a \<and> is_i64 n"
  by (auto simp: parse_command_def Let_def dest!: parse_history_range split: prod.splits)

lemma to_upper_char_idem: "to_upper_char (to_upper_char c) = to_upper_char c"
proof -
  have "\<not> (97 \<le> (of_char c - 32 :: nat))" if "of_char c \<le> (122 :: nat)"
    using that by simp
  then show ?thesis
    by (auto simp: to_upper_char_def less_eq_char_def)
qed

lemma to_ascii_uppercase_idem:
  "to_ascii_uppercase (to_ascii_uppercase s) = to_ascii_uppercase s"
  by (simp add: to_ascii_uppercase_def to_upper_char_idem)

text \<open>The verb is read without regard to case.\<close>

lemma parse_verb_case:
  assumes "plain_verb v" "plain_verb v'" "eq_ignore_ascii_case v v'" "\<forall>w \<in> set ps. is_param w"
  shows "parse_command (join '' '' (v # ps)) = parse_command (join '' '' (v' # ps))"
  using assms by (simp add: parse_words eq_ignore_ascii_case_def del: join.simps)

text \<open>A tag section and a prefix in front of a line change nothing.\<close>

lemma strip_unmarked:
  "\<not> starts_with l ''@'' \<Longrightarrow> \<not> starts_with l '':'' \<Longrightarrow> strip_tags_and_prefix l = l"
  by (simp add: strip_tags_and_prefix_def)

lemma strip_tag_section:
  "starts_with m ''@'' \<Longrightarrow> split_once '' '' m = Some (t, l) \<Longrightarrow> \<not> starts_with l '':'' \<Longrightarrow>
   strip_tags_and_prefix m = l"
  by (simp add: strip_tags_and_prefix_def)

lemma parse_skip_tags:
  assumes l: "\<not> starts_with l ''@''" "\<not> starts_with l '':''" "trim l = l" "l \<noteq> []"
    and t: "no_ws t"
  shows "parse_command (''@'' @ t @ '' '' @ l) = parse_command l"
proof -
  let ?m = "CHR ''@'' # t @ CHR '' '' # l"
  from l(3,4) have last: "\<not> is_whitespace (last l)" using last_trim [of l] by simp
  then have "trim ?m = ?m" using l(4) by (intro trim_ends) auto
  moreover have "split_once '' '' ?m = Some (CHR ''@'' # t, l)"
    using split_once_char [of "CHR '' ''" "CHR ''@'' # t" l] t
    by (auto simp: no_ws_def is_whitespace_def)
  then have "strip_tags_and_prefix ?m = l"
    by (intro strip_tag_section l) (simp_all add: starts_with_def)
  ultimately show ?thesis
    by (simp add: parse_command_def strip_unmarked l)
qed

end
