(* ===== verification/Table.thy ===== *)
theory Table
  imports RustStr
begin

section \<open>SQL statements on tables\<close>

text \<open>
  The SQL of the Rust sources, on a table given as the list of its rows in rowid order:
  UPDATE ... WHERE with its count of changed rows, DELETE ... WHERE, MAX, AUTOINCREMENT and
  the first row of a query. A column that may be NULL is an option, and a comparison with
  NULL is not true, as in a WHERE clause. The locale \<open>keyed_table\<close> is the contract of a
  table with a key: the client facts (what a lookup by key gives after a statement, and that
  a statement on one key changes at most one row) are proved in it once and used for every
  table of theory Store through its interpretations.
\<close>

subsection \<open>Statements\<close>

definition update_where :: "('r \<Rightarrow> bool) \<Rightarrow> ('r \<Rightarrow> 'r) \<Rightarrow> 'r list \<Rightarrow> nat \<times> 'r list" where
  "update_where P f rows = (length (filter P rows), map (\<lambda>r. if P r then f r else r) rows)"

definition delete_where :: "('r \<Rightarrow> bool) \<Rightarrow> 'r list \<Rightarrow> 'r list" where
  "delete_where P rows = filter (\<lambda>r. \<not> P r) rows"

text \<open>\<open>query_row\<close>: the first row, or the error \<open>QueryReturnedNoRows\<close> (\<open>None\<close>).\<close>

definition query_row :: "'r list \<Rightarrow> 'r option" where
  "query_row rows = (case rows of [] \<Rightarrow> None | r # _ \<Rightarrow> Some r)"

definition coalesce_max :: "int list \<Rightarrow> int" where
  "coalesce_max xs = (case xs of [] \<Rightarrow> 0 | x # ys \<Rightarrow> fold max ys x)"

text \<open>
  The rowid of a new row of an AUTOINCREMENT table: one more than the largest ever used
  (\<open>lastid\<close> is the entry of \<open>sqlite_sequence\<close>), or SQLITE_FULL (\<open>None\<close>) when that was
  the largest \<open>i64\<close>.
\<close>

definition next_rowid :: "int \<Rightarrow> int list \<Rightarrow> int option" where
  "next_rowid lastid ids =
     (let m = fold max ids lastid in if m < i64_max then Some (m + 1) else None)"

lemma fold_max_ge: "x \<le> fold max ys (x :: int) \<and> (\<forall>y \<in> set ys. y \<le> fold max ys x)"
  by (induction ys arbitrary: x) (auto, (meson max.bounded_iff order_trans)+)

lemma fold_max_in: "fold max ys (x :: int) \<in> insert x (set ys)"
proof (induction ys arbitrary: x)
  case Nil
  show ?case by simp
next
  case (Cons y ys)
  from Cons [of "max y x"] show ?case by (auto simp: max_def split: if_splits)
qed

lemma coalesce_max_ge: "x \<in> set xs \<Longrightarrow> x \<le> coalesce_max xs"
  using fold_max_ge by (cases xs) (auto simp: coalesce_max_def)

lemma coalesce_max_in: "xs \<noteq> [] \<Longrightarrow> coalesce_max xs \<in> set xs"
  using fold_max_in by (cases xs) (auto simp: coalesce_max_def)

lemma next_rowid_above:
  assumes "next_rowid lastid ids = Some n"
  shows "lastid < n" "i \<in> set ids \<Longrightarrow> i < n" "n \<le> i64_max"
  using assms fold_max_ge [of lastid ids]
  by (auto simp: next_rowid_def Let_def split: if_splits)

lemma next_rowid_bound: "\<forall>i \<in> set ids. i \<le> lastid \<Longrightarrow>
   next_rowid lastid ids = (if lastid < i64_max then Some (lastid + 1) else None)"
proof -
  assume "\<forall>i \<in> set ids. i \<le> lastid"
  then have "fold max ids lastid = lastid"
    by (induction ids) (auto simp: max_def)
  then show ?thesis by (simp add: next_rowid_def)
qed

lemma filter_eq_first: "filter P xs = r # ys \<Longrightarrow> r \<in> set xs \<and> P r"
proof -
  assume "filter P xs = r # ys"
  then have "r \<in> set (filter P xs)" by simp
  then show ?thesis by simp
qed

subsection \<open>Tables with a key\<close>

definition keyed :: "('r \<Rightarrow> 'k) \<Rightarrow> 'r list \<Rightarrow> bool" where
  "keyed key rows \<longleftrightarrow> distinct (map key rows)"

definition row_of :: "('r \<Rightarrow> 'k) \<Rightarrow> 'r list \<Rightarrow> 'k \<Rightarrow> 'r option" where
  "row_of key rows k = query_row (filter (\<lambda>r. key r = k) rows)"

lemma filter_keyed:
  "keyed key rows \<Longrightarrow> r \<in> set rows \<Longrightarrow> filter (\<lambda>x. key x = key r) rows = [r]"
proof (induction rows)
  case Nil
  then show ?case by simp
next
  case (Cons x rows)
  then have "key x \<notin> key ` set rows" by (simp add: keyed_def)
  then have "\<forall>y \<in> set rows. key y \<noteq> key x" by (metis imageI)
  with Cons show ?case by (auto simp: keyed_def filter_empty_conv)
qed

locale keyed_table =
  fixes key :: "'r \<Rightarrow> 'k"
    and get :: "'db \<Rightarrow> 'r list"
    and put :: "'r list \<Rightarrow> 'db \<Rightarrow> 'db"
  assumes get_put: "get (put rows d) = rows"
    and put_get: "put (get d) d = d"
    and put_put: "put rows (put rows' d) = put rows d"
begin

lemma keyed_insert:
  "keyed key (get (put (get d @ [r]) d)) \<longleftrightarrow> keyed key (get d) \<and> (\<forall>x \<in> set (get d). key x \<noteq> key r)"
  by (simp add: keyed_def get_put image_iff) metis

lemma keyed_update:
  "(\<And>r. key (f r) = key r) \<Longrightarrow>
   keyed key (get (put (snd (update_where P f (get d))) d)) \<longleftrightarrow> keyed key (get d)"
  by (simp add: keyed_def get_put update_where_def o_def if_distrib cong: if_cong)

lemma keyed_delete: "keyed key (get d) \<Longrightarrow> keyed key (get (put (delete_where P (get d)) d))"
  by (simp add: keyed_def get_put delete_where_def distinct_map_filter)

lemma row_of_filter: "row_of key rows k = query_row (filter (\<lambda>r. key r = k) rows)"
  by (rule row_of_def)

lemma row_of_Some: "row_of key (get d) k = Some r \<Longrightarrow> r \<in> set (get d) \<and> key r = k"
  by (auto simp: row_of_def query_row_def split: list.splits dest: filter_eq_first)

lemma row_of_None: "row_of key (get d) k = None \<longleftrightarrow> (\<forall>r \<in> set (get d). key r \<noteq> k)"
  by (auto simp: row_of_def query_row_def filter_empty_conv split: list.splits
      dest: filter_eq_first)

lemmas filter_key = filter_keyed [where key = key]

lemma row_of_member: "keyed key (get d) \<Longrightarrow> r \<in> set (get d) \<Longrightarrow> row_of key (get d) (key r) = Some r"
  by (simp add: row_of_def filter_key query_row_def)

lemma row_of_eq:
  "keyed key (get d) \<Longrightarrow> row_of key (get d) k = Some r \<longleftrightarrow> r \<in> set (get d) \<and> key r = k"
  using row_of_Some row_of_member by blast

lemma row_of_insert:
  "row_of key (get (put (get d @ [r]) d)) k
   = (if row_of key (get d) k \<noteq> None then row_of key (get d) k
      else if k = key r then Some r else None)"
  by (auto simp: get_put row_of_def query_row_def split: list.splits)

lemma row_of_update:
  assumes "\<And>r. key (f r) = key r"
  shows "row_of key (get (put (snd (update_where P f (get d))) d)) k
       = map_option (\<lambda>r. if P r then f r else r) (row_of key (get d) k)"
proof -
  have "filter (\<lambda>r. key r = k) (map (\<lambda>r. if P r then f r else r) rows)
      = map (\<lambda>r. if P r then f r else r) (filter (\<lambda>r. key r = k) rows)" for rows
    by (induction rows) (auto simp: assms)
  then show ?thesis
    by (simp add: get_put row_of_def query_row_def update_where_def split: list.split)
qed

lemma row_of_delete:
  "keyed key (get d) \<Longrightarrow>
   row_of key (get (put (delete_where P (get d)) d)) k
   = (case row_of key (get d) k of None \<Rightarrow> None | Some r \<Rightarrow> if P r then None else Some r)"
proof -
  assume kd: "keyed key (get d)"
  show ?thesis
  proof (cases "row_of key (get d) k")
    case None
    then have "\<forall>r \<in> set (get d). key r \<noteq> k" by (simp add: row_of_None)
    with None show ?thesis
      by (auto simp: get_put delete_where_def row_of_def query_row_def filter_empty_conv
          split: list.splits)
  next
    case (Some r)
    then have r: "r \<in> set (get d)" "key r = k" by (auto dest: row_of_Some)
    have "filter (\<lambda>x. key x = k) (delete_where P (get d))
        = filter (\<lambda>x. \<not> P x) (filter (\<lambda>x. key x = k) (get d))"
      unfolding delete_where_def filter_filter by (intro filter_cong) auto
    also have "\<dots> = filter (\<lambda>x. \<not> P x) [r]"
      using filter_key [OF kd r(1)] r(2) by simp
    finally have "filter (\<lambda>x. key x = k) (delete_where P (get d)) = filter (\<lambda>x. \<not> P x) [r]" .
    with Some show ?thesis by (simp add: get_put row_of_def query_row_def)
  qed
qed

text \<open>A statement whose condition fixes the key changes the row of that key, or nothing.\<close>

lemma changed_of_key:
  assumes "keyed key (get d)" and "\<And>r. P r \<Longrightarrow> key r = k"
  shows "fst (update_where P f (get d))
       = (case row_of key (get d) k of None \<Rightarrow> 0 | Some r \<Rightarrow> if P r then 1 else 0)"
proof -
  have f: "filter P (get d) = filter P (filter (\<lambda>r. key r = k) (get d))"
    unfolding filter_filter using assms(2) by (intro filter_cong) auto
  show ?thesis
  proof (cases "row_of key (get d) k")
    case None
    then have "filter P (get d) = []"
      unfolding f using row_of_None [of d k] by (simp add: filter_empty_conv)
    with None show ?thesis by (simp add: update_where_def)
  next
    case (Some r)
    then have r: "r \<in> set (get d)" "key r = k" by (auto dest: row_of_Some)
    then have fk: "filter (\<lambda>x. key x = k) (get d) = [r]"
      using filter_key [OF assms(1)] by blast
    have "filter P (get d) = filter P [r]"
      using f by (simp only: fk)
    with Some show ?thesis by (simp add: update_where_def)
  qed
qed

end

end
