(* ===== verification/Tokens.thy ===== *)
theory Tokens
  imports RustStr Codec "HOL-Library.Word"
begin

section \<open>Tokens (src/src/tokens.rs)\<close>

text \<open>
  Tokens \<open>airc_<id>_<secret>\<close>: generation from random bytes, hex encoding, parsing, and
  the two wrappers around argon2. The random bytes (\<open>OsRng\<close>) are arguments; argon2 is
  the record \<open>crypto\<close> of three functions, about which nothing is known unless a lemma
  states \<open>crypto_ok\<close> (a PHC string made from a secret is parsed, and accepts it) or
  \<open>crypto_sound\<close> (and accepts no other secret).
\<close>

subsection \<open>Constants and hex encoding\<close>

type_synonym u8 = "8 word"

definition TOKEN_PREFIX :: string where "TOKEN_PREFIX = ''airc_''"
definition TOKEN_ID_BYTES :: nat where "TOKEN_ID_BYTES = 16"
definition SECRET_BYTES :: nat where "SECRET_BYTES = 32"

definition hex_digit :: "nat \<Rightarrow> char" where
  "hex_digit d = (if d < 10 then char_of (d + 48) else char_of (d + 87))"

text \<open>\<open>format!("{byte:02x}")\<close>: two lower-case hex digits.\<close>

definition hex_byte :: "u8 \<Rightarrow> string" where
  "hex_byte b = [hex_digit (unat b div 16), hex_digit (unat b mod 16)]"

definition hex_encode :: "u8 list \<Rightarrow> string" where
  "hex_encode bytes = concat (map hex_byte bytes)"

definition unhex_digit :: "char \<Rightarrow> nat" where
  "unhex_digit c = (if CHR ''a'' \<le> c then of_char c - 87 else of_char c - 48)"

definition unhex1 :: "string \<Rightarrow> (u8 \<times> string) option" where
  "unhex1 s =
     (case s of
        a # b # t \<Rightarrow> Some (of_nat (16 * unhex_digit a + unhex_digit b), t)
      | _ \<Rightarrow> None)"

lemma below16:
  "d < 16 \<Longrightarrow> d = 0 \<or> d = 1 \<or> d = 2 \<or> d = 3 \<or> d = 4 \<or> d = 5 \<or> d = 6 \<or> d = 7 \<or> d = 8
     \<or> d = 9 \<or> d = 10 \<or> d = 11 \<or> d = 12 \<or> d = 13 \<or> d = 14 \<or> d = (15 :: nat)"
  by presburger

lemma unhex_digit_hex_digit: "d < 16 \<Longrightarrow> unhex_digit (hex_digit d) = d"
  by (drule below16) (elim disjE; simp add: unhex_digit_def hex_digit_def less_eq_char_def)

lemma unat_u8: "unat (b :: u8) < 256"
proof -
  have "unat b < 2 ^ LENGTH(8)" by (rule unsigned_less)
  then show ?thesis by simp
qed

lemma unhex1_hex_byte: "unhex1 (hex_byte b @ s) = Some (b, s)"
proof -
  have "unat b div 16 < 16" using unat_u8 [of b] by simp
  then have "16 * unhex_digit (hex_digit (unat b div 16))
      + unhex_digit (hex_digit (unat b mod 16)) = unat b"
    by (simp add: unhex_digit_hex_digit)
  then show ?thesis
    by (simp add: unhex1_def hex_byte_def del: of_nat_add of_nat_mult)
qed

interpretation hexc: prefix_codec hex_byte unhex1
  by unfold_locales (simp_all add: unhex1_hex_byte, simp add: unhex1_def)

lemma hex_encode_inj: "hex_encode xs = hex_encode ys \<longleftrightarrow> xs = ys"
  unfolding hex_encode_def by (rule hexc.encs_inj)

lemma length_hex_encode: "length (hex_encode bytes) = 2 * length bytes"
  by (induction bytes) (simp_all add: hex_encode_def hex_byte_def)

definition is_hex :: "char \<Rightarrow> bool" where
  "is_hex c \<longleftrightarrow> (CHR ''0'' \<le> c \<and> c \<le> CHR ''9'') \<or> (CHR ''a'' \<le> c \<and> c \<le> CHR ''f'')"

lemma is_hex_digit: "d < 16 \<Longrightarrow> is_hex (hex_digit d)"
  by (drule below16) (elim disjE; simp add: is_hex_def hex_digit_def less_eq_char_def)

lemma hex_encode_chars: "c \<in> set (hex_encode bytes) \<Longrightarrow> is_hex c"
proof (induction bytes)
  case Nil
  then show ?case by (simp add: hex_encode_def)
next
  case (Cons b bytes)
  have "unat b div 16 < 16" using unat_u8 [of b] by simp
  with Cons show ?case by (auto simp: hex_encode_def hex_byte_def is_hex_digit)
qed

subsection \<open>Generation and parsing\<close>

definition token_generate :: "u8 list \<Rightarrow> u8 list \<Rightarrow> string \<times> string \<times> string" where
  "token_generate id_bytes secret_bytes =
     (let token_id_hex = hex_encode id_bytes;
          secret_hex = hex_encode secret_bytes;
          full = TOKEN_PREFIX @ token_id_hex @ ''_'' @ secret_hex
      in (full, token_id_hex, secret_hex))"

definition token_parse :: "string \<Rightarrow> (string \<times> string) option" where
  "token_parse token =
     (case strip_prefix token TOKEN_PREFIX of
        None \<Rightarrow> None
      | Some body \<Rightarrow>
          (case split_once ''_'' body of
             None \<Rightarrow> None
           | Some (token_id, secret) \<Rightarrow>
               if token_id = [] \<or> secret = [] then None else Some (token_id, secret)))"

lemma split_once_before: "split_once [c] s = Some (a, b) \<Longrightarrow> c \<notin> set a"
  by (induction s arbitrary: a) (auto split: if_splits option.splits)

lemma token_parse_Some:
  "token_parse t = Some (i, s) \<longleftrightarrow>
   t = TOKEN_PREFIX @ i @ ''_'' @ s \<and> i \<noteq> [] \<and> s \<noteq> [] \<and> CHR ''_'' \<notin> set i"
  (is "?l = ?r")
proof
  assume ?l
  then obtain body where b: "t = TOKEN_PREFIX @ body" "split_once ''_'' body = Some (i, s)"
      and ne: "i \<noteq> []" "s \<noteq> []"
    by (auto simp: token_parse_def strip_prefix_Some split: option.splits if_splits)
  then show ?r using split_once_Some [OF b(2)] split_once_before [OF b(2)] by simp
next
  assume ?r
  then show ?l by (simp add: token_parse_def split_once_char)
qed

lemma token_parse_needs_prefix: "\<not> prefix TOKEN_PREFIX t \<Longrightarrow> token_parse t = None"
  by (simp add: token_parse_def strip_prefix_def)

lemma token_parse_generate:
  assumes "length ib = TOKEN_ID_BYTES" "length sb = SECRET_BYTES"
    and g: "token_generate ib sb = (full, i, s)"
  shows "token_parse full = Some (i, s) \<and> length i = 2 * TOKEN_ID_BYTES
       \<and> length s = 2 * SECRET_BYTES"
proof -
  have eqs: "full = TOKEN_PREFIX @ i @ ''_'' @ s" "i = hex_encode ib" "s = hex_encode sb"
    using g by (auto simp: token_generate_def Let_def)
  with assms(1,2) have len: "length i = 2 * TOKEN_ID_BYTES" "length s = 2 * SECRET_BYTES"
    by (simp_all add: length_hex_encode)
  then have "i \<noteq> []" "s \<noteq> []" by (auto simp: TOKEN_ID_BYTES_def SECRET_BYTES_def)
  moreover have "CHR ''_'' \<notin> set i"
    using hex_encode_chars [of "CHR ''_''" ib] eqs(2) by (auto simp: is_hex_def less_eq_char_def)
  ultimately show ?thesis using eqs(1) len by (simp add: token_parse_Some)
qed

lemma token_generate_inj:
  assumes "length ib = TOKEN_ID_BYTES" "length ib' = TOKEN_ID_BYTES"
    and "fst (token_generate ib sb) = fst (token_generate ib' sb')"
  shows "ib = ib' \<and> sb = sb'"
  using assms by (auto simp: token_generate_def Let_def length_hex_encode hex_encode_inj)

subsection \<open>argon2\<close>

datatype pw_outcome = PwOk | PwPassword | PwError string

record crypto =
  hash_password :: "string \<Rightarrow> string \<Rightarrow> string + string"
  password_hash_new :: "string \<Rightarrow> string + string"
  verify_password :: "string \<Rightarrow> string \<Rightarrow> pw_outcome"

definition token_hash :: "crypto \<Rightarrow> string \<Rightarrow> string \<Rightarrow> err + string" where
  "token_hash cr salt secret =
     (case hash_password cr salt secret of
        Inl e \<Rightarrow> Inl (Anyhow (''argon2 hash failed: '' @ e))
      | Inr phc \<Rightarrow> Inr phc)"

definition token_verify :: "crypto \<Rightarrow> string \<Rightarrow> string \<Rightarrow> err + bool" where
  "token_verify cr secret phc =
     (case password_hash_new cr phc of
        Inl e \<Rightarrow> Inl (Anyhow (''parse argon2 PHC string: '' @ e))
      | Inr parsed \<Rightarrow>
          (case verify_password cr secret parsed of
             PwOk \<Rightarrow> Inr True
           | PwPassword \<Rightarrow> Inr False
           | PwError e \<Rightarrow> Inl (Anyhow (''argon2 verify failed: '' @ e))))"

definition crypto_ok :: "crypto \<Rightarrow> bool" where
  "crypto_ok cr \<longleftrightarrow>
     (\<forall>salt s h. hash_password cr salt s = Inr h \<longrightarrow>
        (\<exists>p. password_hash_new cr h = Inr p \<and> verify_password cr s p = PwOk))"

definition crypto_sound :: "crypto \<Rightarrow> bool" where
  "crypto_sound cr \<longleftrightarrow>
     (\<forall>salt s h p s'. hash_password cr salt s = Inr h \<longrightarrow> password_hash_new cr h = Inr p \<longrightarrow>
        s' \<noteq> s \<longrightarrow> verify_password cr s' p = PwPassword)"

lemma token_hash_Inr: "token_hash cr salt s = Inr h \<longleftrightarrow> hash_password cr salt s = Inr h"
  by (simp add: token_hash_def split: sum.splits)

lemma token_hash_verify:
  assumes "crypto_ok cr" "token_hash cr salt s = Inr h"
  shows "token_verify cr s h = Inr True"
proof -
  obtain p where "password_hash_new cr h = Inr p" "verify_password cr s p = PwOk"
    using assms unfolding crypto_ok_def token_hash_Inr by blast
  then show ?thesis by (simp add: token_verify_def)
qed

lemma token_hash_verify_wrong:
  assumes "crypto_ok cr" "crypto_sound cr" "token_hash cr salt s = Inr h" "s' \<noteq> s"
  shows "token_verify cr s' h = Inr False"
proof -
  have h: "hash_password cr salt s = Inr h"
    using assms(3) by (simp add: token_hash_Inr)
  then obtain p where p: "password_hash_new cr h = Inr p"
    using assms(1) unfolding crypto_ok_def by blast
  with h assms(2,4) have "verify_password cr s' p = PwPassword"
    unfolding crypto_sound_def by blast
  with p show ?thesis by (simp add: token_verify_def)
qed

end
