(* ===== verification/Store.thy ===== *)
theory Store
  imports Table Tokens
begin

section \<open>The database (src/src/store.rs)\<close>

text \<open>
  The SQLite database: its tables as lists of rows in rowid order, the columns each table
  has (\<open>schema\<close>), and the initialisation at start-up: table creation, column migrations,
  the seeded demo principals and the backfill of token rows. An operation on the database is
  an \<open>act\<close> on \<open>db\<close>: statements already executed stay executed when a later one fails.
  What the environment supplies (random bytes, salt, the clock) is a \<open>draw\<close>.
\<close>

subsection \<open>Rows and tables\<close>

record principal_row =
  p_id :: string
  p_nick :: string
  p_token :: string
  p_team :: "string option"
  p_last_seen_seq :: int
  p_connected_at :: "int option"
  p_disconnected_at :: "int option"
  p_created_at :: int

record membership_row =
  m_principal_id :: string
  m_channel :: string
  m_joined_at :: int
  m_last_seen_seq :: int

record stored_message =
  sm_seq :: int
  sm_msg_id :: string
  sm_channel :: string
  sm_sender_id :: string
  sm_body :: string
  sm_created_at :: int

record task =
  t_id :: string
  t_channel :: string
  t_title :: string
  t_status :: string
  t_claimed_by :: "string option"
  t_lease_expires_at :: "int option"

record task_row = task +
  t_created_at :: int
  t_updated_at :: int

record token_row =
  k_id :: int
  k_principal_id :: string
  k_token_id :: string
  k_token_hash :: string
  k_label :: "string option"
  k_created_at :: int
  k_revoked_at :: "int option"

record db =
  schema :: "string \<rightharpoonup> string list"
  principals :: "principal_row list"
  channel_memberships :: "membership_row list"
  messages :: "stored_message list"
  messages_seq :: int
  tasks :: "task_row list"
  principal_tokens :: "token_row list"
  tokens_seq :: int
  label_index :: bool

definition member_key :: "membership_row \<Rightarrow> string \<times> string" where
  "member_key m = (m_principal_id m, m_channel m)"

interpretation princ: keyed_table p_id principals "\<lambda>rs d. d\<lparr>principals := rs\<rparr>"
  by unfold_locales simp_all

interpretation memb: keyed_table member_key channel_memberships
    "\<lambda>rs d. d\<lparr>channel_memberships := rs\<rparr>"
  by unfold_locales simp_all

interpretation msgs: keyed_table sm_msg_id messages "\<lambda>rs d. d\<lparr>messages := rs\<rparr>"
  by unfold_locales simp_all

interpretation tsks: keyed_table t_id tasks "\<lambda>rs d. d\<lparr>tasks := rs\<rparr>"
  by unfold_locales simp_all

interpretation toks: keyed_table k_token_id principal_tokens "\<lambda>rs d. d\<lparr>principal_tokens := rs\<rparr>"
  by unfold_locales simp_all

definition empty_db :: db where
  "empty_db = \<lparr>schema = Map.empty, principals = [], channel_memberships = [], messages = [],
     messages_seq = 0, tasks = [], principal_tokens = [], tokens_seq = 0, label_index = False\<rparr>"

subsection \<open>Schema\<close>

definition MIGRATED_LEGACY_LABEL :: string where
  "MIGRATED_LEGACY_LABEL = ''migrated-legacy''"

definition SEED_LABEL :: string where "SEED_LABEL = ''seed''"

text \<open>\<open>CREATE TABLE IF NOT EXISTS\<close>.\<close>

definition create_table :: "string \<Rightarrow> string list \<Rightarrow> db \<Rightarrow> db" where
  "create_table name cols d =
     (case schema d name of
        Some _ \<Rightarrow> d
      | None \<Rightarrow> d\<lparr>schema := (schema d)(name \<mapsto> cols)\<rparr>)"

text \<open>
  Two rows clash under the unique index on (principal_id, label); NULL labels are distinct
  from each other in SQLite.
\<close>

definition label_clash :: "token_row \<Rightarrow> token_row \<Rightarrow> bool" where
  "label_clash a b \<longleftrightarrow>
     k_principal_id a = k_principal_id b \<and> k_label a \<noteq> None \<and> k_label a = k_label b"

fun no_label_clash :: "token_row list \<Rightarrow> bool" where
  "no_label_clash [] \<longleftrightarrow> True"
| "no_label_clash (t # ts) \<longleftrightarrow> (\<forall>u \<in> set ts. \<not> label_clash t u) \<and> no_label_clash ts"

definition table_columns :: "(string \<times> string list) list" where
  "table_columns =
     [(''principals'', [''id'', ''nick'', ''token'', ''team'', ''last_seen_seq'',
         ''connected_at'', ''disconnected_at'', ''created_at'']),
      (''channel_memberships'', [''principal_id'', ''channel'', ''joined_at'', ''last_seen_seq'']),
      (''messages'', [''seq'', ''msg_id'', ''channel'', ''sender_id'', ''body'', ''created_at'']),
      (''tasks'', [''id'', ''channel'', ''title'', ''status'', ''claimed_by'',
         ''lease_expires_at'', ''created_at'', ''updated_at'']),
      (''principal_tokens'', [''id'', ''principal_id'', ''token_id'', ''token_hash'', ''label'',
         ''created_at'', ''revoked_at''])]"

text \<open>
  The batch of CREATE statements. The unique index can only be created over rows that
  respect it; a database that already has it keeps it.
\<close>

definition create_schema :: "(db, unit) act" where
  "create_schema =
     and_then (for_each table_columns (\<lambda>(name, cols). modify (create_table name cols))) (\<lambda>_.
     and_then (reads (\<lambda>d. label_index d \<or> no_label_clash (principal_tokens d))) (\<lambda>ok.
       if ok then modify (\<lambda>d. d\<lparr>label_index := True\<rparr>)
       else raise (Anyhow ''initialize sqlite schema'')))"

subsection \<open>Column migrations\<close>

text \<open>The count that \<open>pragma_table_info\<close> gives for a column name.\<close>

definition column_count :: "string \<Rightarrow> string \<Rightarrow> db \<Rightarrow> nat" where
  "column_count table column d =
     (case schema d table of None \<Rightarrow> 0 | Some cols \<Rightarrow> length (filter (\<lambda>c. c = column) cols))"

definition add_column :: "string \<Rightarrow> string \<Rightarrow> db \<Rightarrow> db" where
  "add_column table column d =
     (case schema d table of
        None \<Rightarrow> d
      | Some cols \<Rightarrow> d\<lparr>schema := (schema d)(table \<mapsto> cols @ [column])\<rparr>)"

text \<open>A new column gives every existing row its default (0 for last_seen_seq, else NULL).\<close>

definition default_principal_column :: "string \<Rightarrow> principal_row \<Rightarrow> principal_row" where
  "default_principal_column column r =
     (if column = ''last_seen_seq'' then r\<lparr>p_last_seen_seq := 0\<rparr>
      else if column = ''connected_at'' then r\<lparr>p_connected_at := None\<rparr>
      else if column = ''disconnected_at'' then r\<lparr>p_disconnected_at := None\<rparr>
      else r)"

definition migrate_principals :: "(db, unit) act" where
  "migrate_principals =
     for_each [''last_seen_seq'', ''connected_at'', ''disconnected_at''] (\<lambda>column.
       and_then (reads (column_count ''principals'' column)) (\<lambda>exists.
         if exists = 0 then
           modify (\<lambda>d. (add_column ''principals'' column d)
             \<lparr>principals := map (default_principal_column column) (principals d)\<rparr>)
         else ret ()))"

definition migrate_channel_memberships :: "(db, unit) act" where
  "migrate_channel_memberships =
     and_then (reads (column_count ''channel_memberships'' ''last_seen_seq'')) (\<lambda>exists.
       if exists = 0 then
         modify (\<lambda>d. (add_column ''channel_memberships'' ''last_seen_seq'' d)
           \<lparr>channel_memberships := map (m_last_seen_seq_update (\<lambda>_. 0)) (channel_memberships d)\<rparr>)
       else ret ())"

subsection \<open>Principals and their token rows\<close>

record draw =
  d_id_bytes :: "u8 list"
  d_secret_bytes :: "u8 list"
  d_salt :: string
  d_now :: int

text \<open>
  The INSERT into \<open>principal_tokens\<close>: refused when the principal does not exist (the
  bundled SQLite enforces foreign keys), when the token_id is taken, or when the pair of
  principal and label is.
\<close>

definition insert_token ::
    "string \<Rightarrow> string \<Rightarrow> string \<Rightarrow> string option \<Rightarrow> int \<Rightarrow> string \<Rightarrow> (db, unit) act" where
  "insert_token principal_id token_id thash label now ctx =
     and_then (reads (\<lambda>d. next_rowid (tokens_seq d) (map k_id (principal_tokens d)))) (\<lambda>rid.
       case rid of
         None \<Rightarrow> raise (Anyhow ctx)
       | Some i \<Rightarrow>
           let row = \<lparr>k_id = i, k_principal_id = principal_id, k_token_id = token_id,
                      k_token_hash = thash, k_label = label, k_created_at = now,
                      k_revoked_at = None\<rparr> in
           and_then (reads (\<lambda>d. p_id ` set (principals d))) (\<lambda>ids.
           and_then (reads principal_tokens) (\<lambda>ts.
             if principal_id \<in> ids \<and> token_id \<notin> k_token_id ` set ts
                \<and> (\<forall>t \<in> set ts. \<not> label_clash row t)
             then modify (\<lambda>d. d\<lparr>principal_tokens := principal_tokens d @ [row],
                                tokens_seq := i\<rparr>)
             else raise (Anyhow ctx))))"

text \<open>\<open>INSERT OR IGNORE INTO principals\<close>, with the number of rows inserted.\<close>

definition insert_or_ignore_principal ::
    "string \<Rightarrow> string \<Rightarrow> string \<Rightarrow> string option \<Rightarrow> int \<Rightarrow> db \<Rightarrow> nat \<times> db" where
  "insert_or_ignore_principal pid nick token team now d =
     (if \<exists>p \<in> set (principals d). p_id p = pid \<or> p_token p = token then (0, d)
      else (1, d\<lparr>principals := principals d @
        [\<lparr>p_id = pid, p_nick = nick, p_token = token, p_team = team, p_last_seen_seq = 0,
          p_connected_at = None, p_disconnected_at = None, p_created_at = now\<rparr>]\<rparr>))"

text \<open>\<open>Result::context\<close>: the message that Display shows is the context.\<close>

definition with_context :: "string \<Rightarrow> err + 'a \<Rightarrow> err + 'a" where
  "with_context ctx r =
     (case r of Inl (Anyhow _) \<Rightarrow> Inl (Anyhow ctx) | Inl (Panic m) \<Rightarrow> Inl (Panic m) | Inr x \<Rightarrow> Inr x)"

definition seed_principal ::
    "crypto \<Rightarrow> draw \<Rightarrow> string \<Rightarrow> string \<Rightarrow> string \<Rightarrow> string \<Rightarrow> (db, unit) act" where
  "seed_principal cr w pid nick token team =
     and_then (reads (fst \<circ> insert_or_ignore_principal pid nick token (Some team) (d_now w))) (\<lambda>inserted.
     and_then (modify (snd \<circ> insert_or_ignore_principal pid nick token (Some team) (d_now w))) (\<lambda>_.
       if inserted = 0 then ret ()
       else
         (let (_, token_id_hex, _) = token_generate (d_id_bytes w) (d_secret_bytes w) in
          and_then (lift_res (with_context ''hash seed token'' (token_hash cr (d_salt w) token)))
            (\<lambda>hash. insert_token pid token_id_hex hash (Some SEED_LABEL) (d_now w)
                      ''seed principal_tokens row''))))"

text \<open>The principals without any token row: the LEFT JOIN whose right side is NULL.\<close>

definition needs_backfill :: "db \<Rightarrow> (string \<times> string) list" where
  "needs_backfill d =
     map (\<lambda>p. (p_id p, p_token p))
       (filter (\<lambda>p. p_id p \<notin> k_principal_id ` set (principal_tokens d)) (principals d))"

definition backfill_one :: "crypto \<Rightarrow> draw \<times> string \<times> string \<Rightarrow> (db, unit) act" where
  "backfill_one cr x =
     (case x of (w, principal_id, plaintext) \<Rightarrow>
        let (_, token_id_hex, _) = token_generate (d_id_bytes w) (d_secret_bytes w) in
        and_then (lift_res (with_context ''hash legacy token for backfill''
                    (token_hash cr (d_salt w) plaintext)))
          (\<lambda>hash. insert_token principal_id token_id_hex hash (Some MIGRATED_LEGACY_LABEL)
                    (d_now w) ''insert migrated-legacy principal_tokens row''))"

definition backfill_principal_tokens :: "crypto \<Rightarrow> (nat \<Rightarrow> draw) \<Rightarrow> (db, unit) act" where
  "backfill_principal_tokens cr ws =
     and_then (reads needs_backfill) (\<lambda>rows.
       for_each (zip (map ws [0..<length rows]) rows) (backfill_one cr))"

definition seed_rows :: "(string \<times> string \<times> string) list" where
  "seed_rows =
     [(''human'', ''human-token'', ''demo''), (''agent-a'', ''agent-a-token'', ''demo''),
      (''agent-b'', ''agent-b-token'', ''demo''), (''agent-c'', ''agent-c-token'', ''demo''),
      (''agent-1'', ''test-token-1'', ''test''), (''agent-2'', ''test-token-2'', ''test''),
      (''agent-3'', ''test-token-3'', ''test'')]"

text \<open>
  \<open>init\<close>: \<open>ws\<close> supplies the draws, the first seven to the seeds in their order, the
  following ones to the backfill.
\<close>

definition db_init :: "crypto \<Rightarrow> (nat \<Rightarrow> draw) \<Rightarrow> (db, unit) act" where
  "db_init cr ws =
     and_then create_schema (\<lambda>_.
     and_then migrate_principals (\<lambda>_.
     and_then migrate_channel_memberships (\<lambda>_.
     and_then (for_each (zip (map ws [0..<7]) seed_rows)
        (\<lambda>(w, pid, token, team). seed_principal cr w pid pid token team)) (\<lambda>_.
       backfill_principal_tokens cr (\<lambda>i. ws (7 + i))))))"

subsection \<open>What the initialisation does\<close>

lemma insert_token_Inr:
  assumes "insert_token pid tid h l now ctx d = (Inr (), d')"
  obtains r where "d' = d\<lparr>principal_tokens := principal_tokens d @ [r], tokens_seq := k_id r\<rparr>"
    "k_principal_id r = pid" "k_token_id r = tid" "k_token_hash r = h" "k_label r = l"
    "k_revoked_at r = None" "pid \<in> p_id ` set (principals d)"
    "tid \<notin> k_token_id ` set (principal_tokens d)"
    "\<forall>t \<in> set (principal_tokens d). \<not> label_clash r t"
proof (cases "next_rowid (tokens_seq d) (map k_id (principal_tokens d))")
  case None
  with assms show ?thesis by (simp add: insert_token_def act_simps)
next
  case (Some i)
  with assms that [of "\<lparr>k_id = i, k_principal_id = pid, k_token_id = tid, k_token_hash = h,
      k_label = l, k_created_at = now, k_revoked_at = None\<rparr>"]
  show ?thesis by (simp add: insert_token_def act_simps Let_def split: if_splits)
qed

lemma with_context_Inr [simp]: "with_context c r = Inr x \<longleftrightarrow> r = Inr x"
  by (auto simp: with_context_def split: sum.splits err.splits)

text \<open>The token row that the backfill writes for a principal and its plaintext.\<close>

definition backfilled :: "crypto \<Rightarrow> draw \<times> string \<times> string \<Rightarrow> token_row \<Rightarrow> bool" where
  "backfilled cr x r \<longleftrightarrow>
     (case x of (w, principal_id, plaintext) \<Rightarrow>
        k_principal_id r = principal_id \<and> k_label r = Some MIGRATED_LEGACY_LABEL
        \<and> token_hash cr (d_salt w) plaintext = Inr (k_token_hash r) \<and> k_revoked_at r = None)"

lemma backfill_one_Inr:
  assumes "backfill_one cr x d = (Inr (), d')"
  obtains r where "d' = d\<lparr>principal_tokens := principal_tokens d @ [r], tokens_seq := k_id r\<rparr>"
    "backfilled cr x r"
proof -
  obtain w pid pt where x: "x = (w, pid, pt)" by (cases x)
  from assms obtain h where h: "token_hash cr (d_salt w) pt = Inr h"
      and ins: "insert_token pid (hex_encode (d_id_bytes w)) h (Some MIGRATED_LEGACY_LABEL)
        (d_now w) ''insert migrated-legacy principal_tokens row'' d = (Inr (), d')"
    by (auto simp: x backfill_one_def token_generate_def Let_def run_act elim!: and_then_InrE)
  from ins show ?thesis
    by (rule insert_token_Inr) (rule that, auto simp: x backfilled_def h)
qed

lemma backfill_Inr:
  assumes "backfill_principal_tokens cr ws d = (Inr (), d')"
  obtains rows i where "d' = d\<lparr>principal_tokens := principal_tokens d @ rows, tokens_seq := i\<rparr>"
    "list_all2 (backfilled cr) (zip (map ws [0..<length (needs_backfill d)]) (needs_backfill d)) rows"
proof -
  have "for_each (zip (map ws [0..<length (needs_backfill d)]) (needs_backfill d))
      (backfill_one cr) d = (Inr (), d')"
    using assms by (simp add: backfill_principal_tokens_def act_simps)
  then have "\<exists>rows i. d' = d\<lparr>principal_tokens := principal_tokens d @ rows, tokens_seq := i\<rparr>
      \<and> list_all2 (backfilled cr)
           (zip (map ws [0..<length (needs_backfill d)]) (needs_backfill d)) rows"
  proof (induction rule: for_each_Inr_rule)
    case start
    have "d = d\<lparr>principal_tokens := principal_tokens d @ [], tokens_seq := tokens_seq d\<rparr>" by simp
    then show ?case by blast
  next
    case (step ys x u v)
    then obtain rows i where u: "u = d\<lparr>principal_tokens := principal_tokens d @ rows, tokens_seq := i\<rparr>"
        "list_all2 (backfilled cr) ys rows" by blast
    from step(1) obtain r where "v = u\<lparr>principal_tokens := principal_tokens u @ [r], tokens_seq := k_id r\<rparr>"
        "backfilled cr x r" by (rule backfill_one_Inr)
    with u have "v = d\<lparr>principal_tokens := principal_tokens d @ (rows @ [r]), tokens_seq := k_id r\<rparr>"
        "list_all2 (backfilled cr) (ys @ [x]) (rows @ [r])"
      by (simp_all add: list_all2_appendI)
    then show ?case by blast
  qed
  then show ?thesis using that by blast
qed

text \<open>
  Seeding one principal: either its pid or its token was already there and nothing changes,
  or a principal and its seed token row are added.
\<close>

definition seeded :: "principal_row \<Rightarrow> token_row \<Rightarrow> bool" where
  "seeded p r \<longleftrightarrow> k_principal_id r = p_id p \<and> k_label r = Some SEED_LABEL \<and> k_revoked_at r = None"

definition seed_present :: "string \<Rightarrow> string \<Rightarrow> db \<Rightarrow> bool" where
  "seed_present pid token d \<longleftrightarrow> (\<exists>p \<in> set (principals d). p_id p = pid \<or> p_token p = token)"

lemma seed_principal_present:
  "seed_present pid token d \<Longrightarrow> seed_principal cr w pid nick token team d = (Inr (), d)"
  by (simp add: seed_principal_def insert_or_ignore_principal_def seed_present_def act_simps)

lemma seed_principal_Inr:
  assumes "seed_principal cr w pid nick token team d = (Inr (), d')" "\<not> seed_present pid token d"
  obtains p r where "d' = d\<lparr>principals := principals d @ [p],
      principal_tokens := principal_tokens d @ [r], tokens_seq := k_id r\<rparr>"
    "seeded p r" "p_id p = pid" "p_nick p = nick" "p_token p = token" "p_team p = Some team"
    "token_hash cr (d_salt w) token = Inr (k_token_hash r)"
proof -
  let ?p = "\<lparr>p_id = pid, p_nick = nick, p_token = token, p_team = Some team, p_last_seen_seq = 0,
      p_connected_at = None, p_disconnected_at = None, p_created_at = d_now w\<rparr>"
  let ?e = "d\<lparr>principals := principals d @ [?p]\<rparr>"
  have ins: "insert_or_ignore_principal pid nick token (Some team) (d_now w) d = (1, ?e)"
    using assms(2) by (auto simp: insert_or_ignore_principal_def seed_present_def)
  from assms(1) obtain h where h: "token_hash cr (d_salt w) token = Inr h"
      and t: "insert_token pid (hex_encode (d_id_bytes w)) h (Some SEED_LABEL) (d_now w)
        ''seed principal_tokens row'' ?e = (Inr (), d')"
    by (auto simp: seed_principal_def ins token_generate_def Let_def act_simps
        elim!: and_then_InrE)
  from t show ?thesis
    by (rule insert_token_Inr) (rule that [where p = ?p], auto simp: seeded_def h)
qed

text \<open>The seeding loop as the code runs it.\<close>

definition seed_all :: "crypto \<Rightarrow> (nat \<Rightarrow> draw) \<Rightarrow> (db, unit) act" where
  "seed_all cr ws = for_each (zip (map ws [0..<7]) seed_rows)
     (\<lambda>(w, pid, token, team). seed_principal cr w pid pid token team)"

definition seeds_present :: "db \<Rightarrow> bool" where
  "seeds_present d \<longleftrightarrow> (\<forall>(pid, token, team) \<in> set seed_rows. seed_present pid token d)"

lemma seed_present_mono:
  "seed_present pid token d \<Longrightarrow> set (principals d) \<subseteq> set (principals e) \<Longrightarrow> seed_present pid token e"
  by (auto simp: seed_present_def)

lemma seed_step:
  assumes "seed_principal cr w pid pid token team d = (Inr (), d')"
  obtains ps ts i where "d' = d\<lparr>principals := principals d @ ps,
      principal_tokens := principal_tokens d @ ts, tokens_seq := i\<rparr>"
    "list_all2 seeded ps ts" "seed_present pid token d'"
    "\<forall>p \<in> set ps. p_id p \<notin> p_id ` set (principals d)"
proof (cases "seed_present pid token d")
  case True
  with assms have "d' = d" by (simp add: seed_principal_present)
  with True show ?thesis by (intro that [where ps = "[]" and ts = "[]" and i = "tokens_seq d"]) simp_all
next
  case False
  from seed_principal_Inr [OF assms False] obtain p r where
    d': "d' = d\<lparr>principals := principals d @ [p], principal_tokens := principal_tokens d @ [r],
      tokens_seq := k_id r\<rparr>" and "seeded p r" "p_id p = pid" by metis
  then show ?thesis by (intro that [where ps = "[p]" and ts = "[r]" and i = "k_id r"])
      (use False in \<open>auto simp: seed_present_def\<close>)
qed

lemma seed_all_Inr:
  assumes "seed_all cr ws d = (Inr (), d')"
  obtains ps ts i where "d' = d\<lparr>principals := principals d @ ps,
      principal_tokens := principal_tokens d @ ts, tokens_seq := i\<rparr>"
    "list_all2 seeded ps ts" "seeds_present d'"
    "\<forall>p \<in> set ps. p_id p \<notin> p_id ` set (principals d)"
proof -
  let ?xs = "zip (map ws [0..<7]) seed_rows"
  let ?I = "\<lambda>ys e. \<exists>ps ts i. e = d\<lparr>principals := principals d @ ps,
      principal_tokens := principal_tokens d @ ts, tokens_seq := i\<rparr> \<and> list_all2 seeded ps ts
      \<and> (\<forall>(w, pid, token, team) \<in> set ys. seed_present pid token e)
      \<and> (\<forall>p \<in> set ps. p_id p \<notin> p_id ` set (principals d))"
  have "?I ?xs d'"
    using assms unfolding seed_all_def
  proof (induction rule: for_each_Inr_rule)
    case start
    show ?case by (intro exI [of _ "[]"] exI [of _ "tokens_seq d"]) simp
  next
    case (step ys x u v)
    obtain w pid token team where x: "x = (w, pid, token, team)" by (cases x)
    from step(2) obtain ps ts i where u: "u = d\<lparr>principals := principals d @ ps,
        principal_tokens := principal_tokens d @ ts, tokens_seq := i\<rparr>" "list_all2 seeded ps ts"
        "\<forall>(w, pid, token, team) \<in> set ys. seed_present pid token u"
        "\<forall>p \<in> set ps. p_id p \<notin> p_id ` set (principals d)" by blast
    from step(1) x have "seed_principal cr w pid pid token team u = (Inr (), v)" by simp
    then obtain qs us j where v: "v = u\<lparr>principals := principals u @ qs,
        principal_tokens := principal_tokens u @ us, tokens_seq := j\<rparr>" "list_all2 seeded qs us"
        "seed_present pid token v" "\<forall>p \<in> set qs. p_id p \<notin> p_id ` set (principals u)"
      by (rule seed_step)
    have "v = d\<lparr>principals := principals d @ (ps @ qs),
        principal_tokens := principal_tokens d @ (ts @ us), tokens_seq := j\<rparr>"
      using u v by simp
    moreover have "list_all2 seeded (ps @ qs) (ts @ us)"
      using u v by (simp add: list_all2_appendI)
    moreover have "\<forall>(w, pid, token, team) \<in> set (ys @ [x]). seed_present pid token v"
      using u v x by (auto intro: seed_present_mono)
    moreover have "\<forall>p \<in> set (ps @ qs). p_id p \<notin> p_id ` set (principals d)"
      using u v by (simp add: image_Un) blast
    ultimately show ?case by blast
  qed
  then obtain ps ts i where d': "d' = d\<lparr>principals := principals d @ ps,
      principal_tokens := principal_tokens d @ ts, tokens_seq := i\<rparr>" "list_all2 seeded ps ts"
      "\<forall>(w, pid, token, team) \<in> set ?xs. seed_present pid token d'"
      "\<forall>p \<in> set ps. p_id p \<notin> p_id ` set (principals d)" by blast
  have "set seed_rows = set (map snd ?xs)"
    by (simp add: seed_rows_def)
  with d'(3) have "seeds_present d'" by (fastforce simp: seeds_present_def)
  with d' show ?thesis using that by blast
qed

subsection \<open>Schema and migrations are total once the tables exist\<close>

definition schema_ok :: "db \<Rightarrow> bool" where
  "schema_ok d \<longleftrightarrow> label_index d
     \<and> {''principals'', ''channel_memberships'', ''messages'', ''tasks'', ''principal_tokens''}
         \<subseteq> dom (schema d)
     \<and> (\<forall>c \<in> {''last_seen_seq'', ''connected_at'', ''disconnected_at''}.
          0 < column_count ''principals'' c d)
     \<and> 0 < column_count ''channel_memberships'' ''last_seen_seq'' d"

text \<open>What no start-up step changes of a principal.\<close>

definition static :: "principal_row \<Rightarrow> string \<times> string \<times> string \<times> string option" where
  "static p = (p_id p, p_nick p, p_token p, p_team p)"

lemma static_default [simp]: "static (default_principal_column c p) = static p"
  by (simp add: static_def default_principal_column_def)

lemma map_static_default [simp]:
  "map static (map (default_principal_column c) ps) = map static ps"
  by simp

definition init_done :: "db \<Rightarrow> bool" where
  "init_done d \<longleftrightarrow> schema_ok d \<and> seeds_present d \<and> needs_backfill d = []"

lemma create_table_present: "name \<in> dom (schema d) \<Longrightarrow> create_table name cols d = d"
  by (auto simp: create_table_def)

lemma create_schema_ok: "schema_ok d \<Longrightarrow> create_schema d = (Inr (), d)"
  by (simp add: create_schema_def table_columns_def create_table_present schema_ok_def act_simps)

lemma migrate_ok:
  "schema_ok d \<Longrightarrow> migrate_principals d = (Inr (), d)"
  "schema_ok d \<Longrightarrow> migrate_channel_memberships d = (Inr (), d)"
  by (simp_all add: migrate_principals_def migrate_channel_memberships_def schema_ok_def act_simps)

lemma seed_all_present: "seeds_present d \<Longrightarrow> seed_all cr ws d = (Inr (), d)"
  unfolding seed_all_def
  by (rule for_each_noop)
     (auto simp: seeds_present_def intro!: seed_principal_present dest!: set_zip_rightD)

lemma backfill_none: "needs_backfill d = [] \<Longrightarrow> backfill_principal_tokens cr ws d = (Inr (), d)"
  by (simp add: backfill_principal_tokens_def act_simps)

lemma db_init_alt:
  "db_init cr ws =
     and_then create_schema (\<lambda>_. and_then migrate_principals (\<lambda>_.
     and_then migrate_channel_memberships (\<lambda>_. and_then (seed_all cr ws) (\<lambda>_.
       backfill_principal_tokens cr (\<lambda>i. ws (7 + i))))))"
  by (simp add: db_init_def seed_all_def)

lemma db_init_done: "init_done d \<Longrightarrow> db_init cr ws d = (Inr (), d)"
  by (simp add: db_init_alt init_done_def and_then_def create_schema_ok migrate_ok
      seed_all_present backfill_none)

text \<open>What the schema steps leave alone.\<close>

definition same_data :: "db \<Rightarrow> db \<Rightarrow> bool" where
  "same_data d e \<longleftrightarrow> map static (principals e) = map static (principals d)
     \<and> map member_key (channel_memberships e) = map member_key (channel_memberships d)
     \<and> messages e = messages d \<and> messages_seq e = messages_seq d \<and> tasks e = tasks d
     \<and> principal_tokens e = principal_tokens d \<and> tokens_seq e = tokens_seq d"

lemma same_data_refl: "same_data d d"
  by (simp add: same_data_def)

lemma same_data_trans: "same_data d e \<Longrightarrow> same_data e f \<Longrightarrow> same_data d f"
  by (simp add: same_data_def)

lemma create_table_facts:
  "same_data d (create_table name cols d)"
  "dom (schema (create_table name cols d)) = insert name (dom (schema d))"
  "label_index (create_table name cols d) = label_index d"
  "principal_tokens (create_table name cols d) = principal_tokens d"
  by (auto simp: create_table_def same_data_def split: option.splits)

lemma create_schema_run:
  "create_schema d =
     (let e = fold (\<lambda>(n, c). create_table n c) table_columns d in
      if label_index e \<or> no_label_clash (principal_tokens e)
      then (Inr (), e\<lparr>label_index := True\<rparr>)
      else (Inl (Anyhow ''initialize sqlite schema''), e))"
proof -
  have run: "for_each cs (\<lambda>(name, cols). modify (create_table name cols)) e
      = (Inr (), fold (\<lambda>(n, c). create_table n c) cs e)" for cs :: "(string \<times> string list) list" and e
    by (rule for_each_fold) (auto simp: run_modify)
  show ?thesis by (simp add: create_schema_def and_then_Inr [OF run] act_simps Let_def)
qed

lemma create_schema_Inr:
  assumes "create_schema d = (Inr (), e)"
  shows "same_data d e \<and> label_index e
    \<and> {''principals'', ''channel_memberships'', ''messages'', ''tasks'', ''principal_tokens''}
        \<subseteq> dom (schema e)"
proof -
  have same: "same_data f (create_table n c f)" for f n c by (rule create_table_facts)
  have li: "same_data f (f\<lparr>label_index := True\<rparr>)" for f by (simp add: same_data_def)
  let ?f = "fold (\<lambda>(n, c). create_table n c) table_columns d"
  have data: "same_data d (fold (\<lambda>(n, c). create_table n c) cs d)" for cs
    by (induction cs arbitrary: d) (auto intro: same_data_refl same_data_trans [OF same])
  have names: "dom (schema (fold (\<lambda>(n, c). create_table n c) cs d))
      = dom (schema d) \<union> set (map fst cs)" for cs
    by (induction cs arbitrary: d) (simp_all add: create_table_facts split: prod.splits)
  have e: "e = ?f\<lparr>label_index := True\<rparr>"
    using assms by (simp add: create_schema_run Let_def split: if_splits)
  have "set (map fst table_columns) = {''principals'', ''channel_memberships'', ''messages'',
      ''tasks'', ''principal_tokens''}"
    by (simp add: table_columns_def)
  with e names [of table_columns] same_data_trans [OF data [of table_columns] li]
  show ?thesis by simp
qed

definition mig :: "string \<Rightarrow> db \<Rightarrow> db" where
  "mig column d =
     (if column_count ''principals'' column d = 0
      then (add_column ''principals'' column d)
             \<lparr>principals := map (default_principal_column column) (principals d)\<rparr>
      else d)"

definition migm :: "db \<Rightarrow> db" where
  "migm d =
     (if column_count ''channel_memberships'' ''last_seen_seq'' d = 0
      then (add_column ''channel_memberships'' ''last_seen_seq'' d)
           \<lparr>channel_memberships := map (m_last_seen_seq_update (\<lambda>_. 0)) (channel_memberships d)\<rparr>
      else d)"

lemma migrate_eqs:
  "migrate_principals d
   = (Inr (), mig ''disconnected_at'' (mig ''connected_at'' (mig ''last_seen_seq'' d)))"
  "migrate_channel_memberships d = (Inr (), migm d)"
  by (simp_all add: migrate_principals_def migrate_channel_memberships_def mig_def migm_def
      act_simps)

lemma add_column_facts:
  "label_index (add_column t c d) = label_index d"
  "dom (schema (add_column t c d)) = dom (schema d)"
  "same_data d (add_column t c d)"
  "principals (add_column t c d) = principals d"
  "channel_memberships (add_column t c d) = channel_memberships d"
  "0 < column_count t' c' d \<Longrightarrow> 0 < column_count t' c' (add_column t c d)"
  "t \<in> dom (schema d) \<Longrightarrow> 0 < column_count t c (add_column t c d)"
  by (auto simp: add_column_def same_data_def column_count_def split: option.splits)

lemma column_count_rows [simp]:
  "column_count t c (d\<lparr>principals := ps\<rparr>) = column_count t c d"
  "column_count t c (d\<lparr>channel_memberships := ms\<rparr>) = column_count t c d"
  by (simp_all add: column_count_def)

lemma mig_facts:
  "label_index (mig c d) = label_index d"
  "dom (schema (mig c d)) = dom (schema d)"
  "same_data d (mig c d)"
  "0 < column_count t' c' d \<Longrightarrow> 0 < column_count t' c' (mig c d)"
  "''principals'' \<in> dom (schema d) \<Longrightarrow> 0 < column_count ''principals'' c (mig c d)"
  using add_column_facts [where t = "''principals''" and c = c and d = d]
    add_column_facts(6) [of t' c' d "''principals''" c]
  by (auto simp: mig_def same_data_def)

lemma migm_facts:
  "label_index (migm d) = label_index d"
  "dom (schema (migm d)) = dom (schema d)"
  "same_data d (migm d)"
  "0 < column_count t' c' d \<Longrightarrow> 0 < column_count t' c' (migm d)"
  "''channel_memberships'' \<in> dom (schema d) \<Longrightarrow>
   0 < column_count ''channel_memberships'' ''last_seen_seq'' (migm d)"
  using add_column_facts [where t = "''channel_memberships''" and c = "''last_seen_seq''" and d = d]
    add_column_facts(6) [of t' c' d "''channel_memberships''" "''last_seen_seq''"]
  by (auto simp: migm_def same_data_def o_def member_key_def)

lemma migrated_schema_ok:
  assumes "create_schema d = (Inr (), e)"
  defines "f \<equiv> migm (mig ''disconnected_at'' (mig ''connected_at'' (mig ''last_seen_seq'' e)))"
  shows "schema_ok f \<and> same_data d f"
proof -
  note e = create_schema_Inr [OF assms(1)]
  have "same_data d f"
    unfolding f_def by (meson e mig_facts(3) migm_facts(3) same_data_trans)
  moreover have "schema_ok f"
    using e unfolding schema_ok_def f_def
    by (simp add: mig_facts migm_facts)
  ultimately show ?thesis by blast
qed

text \<open>
  The whole initialisation, when it succeeds: the schema steps give \<open>e\<close> with the same
  data, the seeds \<open>ps\<close> with their rows \<open>ts\<close> are appended, and then one row for each
  principal that still has none.
\<close>

lemma db_init_Inr:
  assumes "db_init cr ws d = (Inr (), d')"
  obtains e ps ts rows i f where "schema_ok e" "same_data d e"
    "f = e\<lparr>principals := principals e @ ps, principal_tokens := principal_tokens e @ ts,
        tokens_seq := i\<rparr>"
    "list_all2 seeded ps ts" "seeds_present f"
    "\<forall>p \<in> set ps. p_id p \<notin> p_id ` set (principals e)"
    "principals d' = principals f" "principal_tokens d' = principal_tokens f @ rows"
    "list_all2 (backfilled cr) (zip (map (\<lambda>i. ws (7 + i)) [0..<length (needs_backfill f)])
        (needs_backfill f)) rows"
    "d' = f\<lparr>principal_tokens := principal_tokens f @ rows, tokens_seq := tokens_seq d'\<rparr>"
proof -
  from assms obtain e0 f where e0: "create_schema d = (Inr (), e0)"
      and f: "seed_all cr ws (migm (mig ''disconnected_at'' (mig ''connected_at''
                (mig ''last_seen_seq'' e0)))) = (Inr (), f)"
      and b: "backfill_principal_tokens cr (\<lambda>i. ws (7 + i)) f = (Inr (), d')"
    by (auto simp: db_init_alt elim!: and_then_InrE) (auto simp: migrate_eqs)
  note e = migrated_schema_ok [OF e0]
  from b obtain rows i where rows: "d' = f\<lparr>principal_tokens := principal_tokens f @ rows, tokens_seq := i\<rparr>"
    "list_all2 (backfilled cr) (zip (map (\<lambda>i. ws (7 + i)) [0..<length (needs_backfill f)])
        (needs_backfill f)) rows" by (rule backfill_Inr)
  from f obtain ps ts j where "f = (migm (mig ''disconnected_at'' (mig ''connected_at''
        (mig ''last_seen_seq'' e0))))\<lparr>principals := principals (migm (mig ''disconnected_at''
        (mig ''connected_at'' (mig ''last_seen_seq'' e0)))) @ ps, principal_tokens :=
        principal_tokens (migm (mig ''disconnected_at'' (mig ''connected_at''
        (mig ''last_seen_seq'' e0)))) @ ts, tokens_seq := j\<rparr>"
      "list_all2 seeded ps ts" "seeds_present f"
      "\<forall>p \<in> set ps. p_id p \<notin> p_id ` set (principals (migm (mig ''disconnected_at''
        (mig ''connected_at'' (mig ''last_seen_seq'' e0)))))" by (rule seed_all_Inr)
  with e rows show ?thesis
    by (intro that [where e = "migm (mig ''disconnected_at'' (mig ''connected_at''
          (mig ''last_seen_seq'' e0)))" and f = f and ps = ps and ts = ts and i = j and rows = rows])
       auto
qed

subsection \<open>Consequences of a successful start\<close>

lemma schema_ok_cong:
  "schema e = schema d \<Longrightarrow> label_index e = label_index d \<Longrightarrow> schema_ok e = schema_ok d"
  by (simp add: schema_ok_def column_count_def)

lemma backfilled_covers:
  assumes "list_all2 (backfilled cr) (zip ws ns) rows" "length ws = length ns" "n \<in> set ns"
  obtains r w where "r \<in> set rows" "w \<in> set ws" "backfilled cr (w, n) r"
proof -
  from assms(3) obtain i where i: "i < length ns" "ns ! i = n" by (auto simp: in_set_conv_nth)
  with assms(1,2) have "i < length rows" "backfilled cr (ws ! i, n) (rows ! i)"
    by (auto simp: list_all2_conv_all_nth)
  with i assms(2) show ?thesis using that by (metis nth_mem)
qed

lemma backfilled_from:
  assumes "list_all2 (backfilled cr) (zip ws ns) rows" "length ws = length ns" "r \<in> set rows"
  obtains n w where "n \<in> set ns" "backfilled cr (w, n) r"
proof -
  from assms(3) obtain i where i: "i < length rows" "rows ! i = r" by (auto simp: in_set_conv_nth)
  with assms(1,2) have "i < length ns" "backfilled cr (ws ! i, ns ! i) r"
    by (auto simp: list_all2_conv_all_nth)
  then show ?thesis using that by (metis nth_mem)
qed

lemma db_init_establishes: "db_init cr ws d = (Inr (), d') \<Longrightarrow> init_done d'"
proof (erule db_init_Inr)
  fix e ps ts rows i f
  let ?ns = "needs_backfill f"
  assume e: "schema_ok e" "seeds_present f"
    "f = e\<lparr>principals := principals e @ ps, principal_tokens := principal_tokens e @ ts,
      tokens_seq := i\<rparr>"
    and d': "principals d' = principals f" "principal_tokens d' = principal_tokens f @ rows"
      "d' = f\<lparr>principal_tokens := principal_tokens f @ rows, tokens_seq := tokens_seq d'\<rparr>"
    and rows: "list_all2 (backfilled cr) (zip (map (\<lambda>i. ws (7 + i)) [0..<length ?ns]) ?ns) rows"
  have "schema d' = schema e" "label_index d' = label_index e"
    using arg_cong [OF d'(3), of schema] arg_cong [OF d'(3), of label_index] e(3) by simp_all
  then have "schema_ok d'" using e(1) schema_ok_cong [of d' e] by simp
  moreover have "seeds_present d'"
    using e(2) d'(1) by (simp add: seeds_present_def seed_present_def)
  moreover have "p_id p \<in> k_principal_id ` set (principal_tokens d')"
    if p: "p \<in> set (principals d')" for p
  proof (cases "p_id p \<in> k_principal_id ` set (principal_tokens f)")
    case True
    then show ?thesis by (auto simp: d'(2))
  next
    case False
    with p d'(1) have "(p_id p, p_token p) \<in> set ?ns" by (auto simp: needs_backfill_def)
    then obtain r w where "r \<in> set rows" "backfilled cr (w, p_id p, p_token p) r"
      using rows by (auto elim: backfilled_covers)
    then show ?thesis by (force simp: backfilled_def d'(2))
  qed
  then have "needs_backfill d' = []" by (auto simp: needs_backfill_def filter_empty_conv)
  ultimately show ?thesis by (simp add: init_done_def)
qed

text \<open>
  A principal that had no token row gets exactly the rows of the backfill, which accept its
  current plaintext, also when the code's seed list names it with another token.
\<close>

lemma needs_backfill_old:
  assumes "same_data d e" "\<forall>p \<in> set ps. p_id p \<notin> p_id ` set (principals e)" "list_all2 seeded ps ts"
    and "f = e\<lparr>principals := principals e @ ps, principal_tokens := principal_tokens e @ ts,
      tokens_seq := i\<rparr>"
    and p: "p \<in> set (principals d)" "p_id p \<notin> k_principal_id ` set (principal_tokens d)"
  shows "(p_id p, p_token p) \<in> set (needs_backfill f)
       \<and> p_id p \<notin> k_principal_id ` set (principal_tokens f)"
proof -
  have "static p \<in> set (map static (principals e))"
    using assms(1) p(1) by (simp add: same_data_def)
  then obtain q where q: "q \<in> set (principals e)" "p_id q = p_id p" "p_token q = p_token p"
    by (auto simp: static_def)
  have "k_principal_id ` set ts = p_id ` set ps"
    using assms(3) by (induction rule: list_all2_induct) (auto simp: seeded_def)
  moreover have "p_id p \<in> p_id ` set (principals e)" using q by (metis imageI)
  then have "p_id p \<notin> p_id ` set ps" using assms(2) by fastforce
  ultimately have "p_id p \<notin> k_principal_id ` set (principal_tokens f)"
    using assms(1,4) p(2) by (simp add: same_data_def image_Un)
  moreover from this q assms(4) have "q \<in> set (filter (\<lambda>p. p_id p \<notin> k_principal_id ` set (principal_tokens f)) (principals f))"
    by simp
  then have "(p_id q, p_token q) \<in> set (needs_backfill f)"
    unfolding needs_backfill_def by (metis (no_types, lifting) image_eqI list.set_map)
  ultimately show ?thesis using q by simp
qed

lemma db_init_backfills:
  assumes run: "db_init cr ws d = (Inr (), d')"
    and p: "p \<in> set (principals d)" "p_id p \<notin> k_principal_id ` set (principal_tokens d)"
    and keyed: "keyed p_id (principals d)"
  shows "\<exists>r \<in> set (principal_tokens d'). k_principal_id r = p_id p"
    and "\<forall>r \<in> set (principal_tokens d'). k_principal_id r = p_id p \<longrightarrow>
           k_label r = Some MIGRATED_LEGACY_LABEL \<and> (\<exists>salt. token_hash cr salt (p_token p) = Inr (k_token_hash r))"
proof -
  from run obtain e ps ts rows i f where
    same: "same_data d e" and
    f: "f = e\<lparr>principals := principals e @ ps, principal_tokens := principal_tokens e @ ts,
      tokens_seq := i\<rparr>" and
    ps: "list_all2 seeded ps ts" "\<forall>p \<in> set ps. p_id p \<notin> p_id ` set (principals e)" and
    d': "principal_tokens d' = principal_tokens f @ rows" and
    rows: "list_all2 (backfilled cr) (zip (map (\<lambda>i. ws (7 + i)) [0..<length (needs_backfill f)])
        (needs_backfill f)) rows"
    by (rule db_init_Inr)
  note old = needs_backfill_old [OF same ps(2,1) f p]
  then obtain r w where "r \<in> set rows" "backfilled cr (w, p_id p, p_token p) r"
    using rows by (auto elim: backfilled_covers)
  then show "\<exists>r \<in> set (principal_tokens d'). k_principal_id r = p_id p"
    by (auto simp: backfilled_def d')
  show "\<forall>r \<in> set (principal_tokens d'). k_principal_id r = p_id p \<longrightarrow>
           k_label r = Some MIGRATED_LEGACY_LABEL \<and> (\<exists>salt. token_hash cr salt (p_token p) = Inr (k_token_hash r))"
  proof (intro ballI impI)
    fix r assume "r \<in> set (principal_tokens d')" and k: "k_principal_id r = p_id p"
    from old k have "r \<notin> set (principal_tokens f)" by (metis imageI)
    with \<open>r \<in> set (principal_tokens d')\<close> have "r \<in> set rows" by (simp add: d')
    then obtain w pt where x: "(p_id p, pt) \<in> set (needs_backfill f)" "backfilled cr (w, p_id p, pt) r"
      using rows k by (auto elim!: backfilled_from simp: backfilled_def)
    then have "(p_id p, pt) \<in> (\<lambda>q. (p_id q, p_token q)) ` (set (principals e) \<union> set ps)"
      by (auto simp: needs_backfill_def f)
    then obtain q where q: "q \<in> set (principals e) \<or> q \<in> set ps" "p_id q = p_id p" "p_token q = pt"
      by fastforce
    have st: "map static (principals e) = map static (principals d)"
      using same by (simp add: same_data_def)
    have "static p \<in> static ` set (principals e)"
      using st p(1) by (metis image_eqI list.set_map)
    with q ps(2) have "q \<in> set (principals e)" by (auto simp: static_def)
    then have "static q \<in> static ` set (principals d)"
      using st by (metis image_eqI list.set_map)
    then obtain q' where "q' \<in> set (principals d)" "p_id q' = p_id p" "p_token q' = pt"
      using q by (auto simp: static_def)
    with keyed p(1) have "pt = p_token p"
      by (auto simp: keyed_def distinct_map dest: inj_onD)
    with x(2) show "k_label r = Some MIGRATED_LEGACY_LABEL
        \<and> (\<exists>salt. token_hash cr salt (p_token p) = Inr (k_token_hash r))"
      by (auto simp: backfilled_def)
  qed
qed

subsection \<open>The invariant of the principal tables\<close>

text \<open>
  Ids and plaintext tokens are unique among the principals; token_ids are unique, no two
  token rows share principal and label once the index exists, and every token row belongs to
  a principal.
\<close>

definition principals_wf :: "db \<Rightarrow> bool" where
  "principals_wf d \<longleftrightarrow> keyed p_id (principals d) \<and> keyed p_token (principals d)
     \<and> keyed k_token_id (principal_tokens d)
     \<and> (label_index d \<longrightarrow> no_label_clash (principal_tokens d))
     \<and> k_principal_id ` set (principal_tokens d) \<subseteq> p_id ` set (principals d)"

lemma principals_wf_empty: "principals_wf empty_db"
  by (simp add: principals_wf_def empty_db_def keyed_def)

lemma label_clash_sym: "label_clash a b = label_clash b a"
  by (cases "k_label a"; cases "k_label b") (auto simp: label_clash_def)

lemma no_label_clash_snoc:
  "no_label_clash (ts @ [r]) \<longleftrightarrow> no_label_clash ts \<and> (\<forall>t \<in> set ts. \<not> label_clash r t)"
  by (induction ts) (auto simp: label_clash_sym)

text \<open>A change of the principal rows that keeps ids and tokens.\<close>

lemma principals_wf_cong:
  assumes "map p_id (principals e) = map p_id (principals d)"
    and "map p_token (principals e) = map p_token (principals d)"
    and "principal_tokens e = principal_tokens d" and "label_index e = label_index d"
  shows "principals_wf e = principals_wf d"
  using assms by (simp add: principals_wf_def keyed_def) (metis list.set_map)

lemma principals_wf_same_data:
  "same_data d e \<Longrightarrow> label_index e = label_index d \<Longrightarrow> principals_wf e = principals_wf d"
proof (rule principals_wf_cong)
  assume "same_data d e"
  then have st: "map static (principals e) = map static (principals d)"
      and "principal_tokens e = principal_tokens d"
    by (simp_all add: same_data_def)
  have "map p_id xs = map fst (map static xs)"
      "map p_token xs = map (fst \<circ> snd \<circ> snd) (map static xs)" for xs
    by (simp_all add: static_def)
  with st show "map p_id (principals e) = map p_id (principals d)"
      "map p_token (principals e) = map p_token (principals d)"
    by metis+
  show "principal_tokens e = principal_tokens d" by fact
qed

lemma keeps_create_schema: "keeps principals_wf create_schema"
proof (rule keepsI)
  fix d assume wf: "principals_wf d"
  have c: "principals_wf (create_table n c e) = principals_wf e" for n c e
    by (rule principals_wf_same_data) (simp_all add: create_table_facts)
  have f: "principals_wf (fold (\<lambda>(n, c). create_table n c) cs d)" for cs
    using wf by (induction cs arbitrary: d) (auto simp: c)
  then have "principals_wf (e\<lparr>label_index := True\<rparr>)"
    if "e = fold (\<lambda>(n, c). create_table n c) table_columns d"
      "label_index e \<or> no_label_clash (principal_tokens e)" for e
    using that f [of table_columns] by (auto simp: principals_wf_def)
  with f [of table_columns] show "principals_wf (snd (create_schema d))"
    by (simp add: create_schema_run Let_def)
qed

lemma keeps_insert_token: "keeps principals_wf (insert_token pid tid h l now ctx)"
proof (rule keepsI)
  fix d assume wf: "principals_wf d"
  show "principals_wf (snd (insert_token pid tid h l now ctx d))"
  proof (cases "next_rowid (tokens_seq d) (map k_id (principal_tokens d))")
    case None
    with wf show ?thesis by (simp add: insert_token_def act_simps)
  next
    case (Some i)
    with wf show ?thesis
      by (simp add: insert_token_def act_simps Let_def)
         (auto simp: principals_wf_def keyed_def no_label_clash_snoc)
  qed
qed

lemma keeps_insert_principal:
  "keeps principals_wf (modify (snd \<circ> insert_or_ignore_principal pid nick token team now))"
proof (rule keeps_modify)
  fix d assume "principals_wf d"
  then show "principals_wf ((snd \<circ> insert_or_ignore_principal pid nick token team now) d)"
    by (auto simp: insert_or_ignore_principal_def principals_wf_def keyed_def)
qed

lemma keeps_seed_principal: "keeps principals_wf (seed_principal cr w pid nick token team)"
  unfolding seed_principal_def Let_def split_def
  by (intro keeps_rules keeps_insert_principal keeps_insert_token)

lemma keeps_backfill_one: "keeps principals_wf (backfill_one cr x)"
  unfolding backfill_one_def Let_def split_def
  by (intro keeps_rules keeps_insert_token)

lemma keeps_migrations:
  "keeps principals_wf migrate_principals"
  "keeps principals_wf migrate_channel_memberships"
proof -
  have "principals_wf (mig c d) = principals_wf d" for c d
    by (rule principals_wf_same_data) (simp_all add: mig_facts)
  moreover have "principals_wf (migm d) = principals_wf d" for d
    by (rule principals_wf_same_data) (simp_all add: migm_facts)
  ultimately show "keeps principals_wf migrate_principals"
      "keeps principals_wf migrate_channel_memberships"
    by (simp_all add: keeps_def migrate_eqs)
qed

lemma keeps_db_init: "keeps principals_wf (db_init cr ws)"
  unfolding db_init_alt seed_all_def backfill_principal_tokens_def split_def
  by (intro keeps_rules keeps_create_schema keeps_migrations keeps_seed_principal
      keeps_backfill_one)

end
