(* ===== verification/History.thy ===== *)
theory History
  imports Store
begin

section \<open>Message history (src/src/history.rs)\<close>

text \<open>
  \<open>HistoryStore\<close>: appending a message and reading the messages of a channel after a
  sequence number, at most 500 at a time. The lemmas give the log invariant \<open>log_wf\<close>
  (sequence numbers grow with the rows) and, through the interface \<open>message_log\<close>, what a
  reader of pages gets.
\<close>

subsection \<open>Operations\<close>

definition history_append ::
    "string \<Rightarrow> int \<Rightarrow> string \<Rightarrow> string \<Rightarrow> string \<Rightarrow> (db, stored_message) act" where
  "history_append uuid now channel sender_id body =
     and_then (reads (\<lambda>d. next_rowid (messages_seq d) (map sm_seq (messages d)))) (\<lambda>rid.
     and_then (reads (\<lambda>d. sm_msg_id ` set (messages d))) (\<lambda>ids.
       let msg_id = ''msg_'' @ uuid in
       case rid of
         None \<Rightarrow> raise (Anyhow ''insert message'')
       | Some seq \<Rightarrow>
           if msg_id \<in> ids then raise (Anyhow ''insert message'')
           else
             let m = \<lparr>sm_seq = seq, sm_msg_id = msg_id, sm_channel = channel,
                      sm_sender_id = sender_id, sm_body = body, sm_created_at = now\<rparr> in
             and_then (modify (\<lambda>d. d\<lparr>messages := messages d @ [m], messages_seq := seq\<rparr>))
               (\<lambda>_. ret m)))"

text \<open>\<open>limit.clamp(1, 500)\<close>.\<close>

definition clamp_limit :: "int \<Rightarrow> int" where
  "clamp_limit limit = (if limit < 1 then 1 else if limit > 500 then 500 else limit)"

definition history_after :: "string \<Rightarrow> int \<Rightarrow> int \<Rightarrow> db \<Rightarrow> stored_message list" where
  "history_after channel after_seq limit d =
     take (nat (clamp_limit limit))
       (sort_key sm_seq
         (filter (\<lambda>m. sm_channel m = channel \<and> sm_seq m > after_seq) (messages d)))"

subsection \<open>The invariant of the log\<close>

definition log_wf :: "db \<Rightarrow> bool" where
  "log_wf d \<longleftrightarrow> sorted_wrt (<) (map sm_seq (messages d))
     \<and> (\<forall>m \<in> set (messages d). 1 \<le> sm_seq m \<and> sm_seq m \<le> messages_seq d)
     \<and> 0 \<le> messages_seq d \<and> messages_seq d \<le> i64_max
     \<and> keyed sm_msg_id (messages d)"

definition channel_messages :: "string \<Rightarrow> db \<Rightarrow> stored_message list" where
  "channel_messages channel d = filter (\<lambda>m. sm_channel m = channel) (messages d)"

lemma log_wf_empty: "log_wf empty_db"
  by (simp add: log_wf_def empty_db_def keyed_def i64_max_def)

lemma log_wf_cong:
  "messages e = messages d \<Longrightarrow> messages_seq e = messages_seq d \<Longrightarrow> log_wf e = log_wf d"
  by (simp add: log_wf_def)

text \<open>The new row is one above everything stored before.\<close>

lemma history_append_cases:
  assumes "log_wf d"
  shows "history_append u now ch s b d =
    (if messages_seq d < i64_max \<and> ''msg_'' @ u \<notin> sm_msg_id ` set (messages d)
     then (let m = \<lparr>sm_seq = messages_seq d + 1, sm_msg_id = ''msg_'' @ u, sm_channel = ch,
                    sm_sender_id = s, sm_body = b, sm_created_at = now\<rparr>
           in (Inr m, d\<lparr>messages := messages d @ [m], messages_seq := messages_seq d + 1\<rparr>))
     else (Inl (Anyhow ''insert message''), d))"
proof -
  have "next_rowid (messages_seq d) (map sm_seq (messages d))
      = (if messages_seq d < i64_max then Some (messages_seq d + 1) else None)"
    using assms by (intro next_rowid_bound) (auto simp: log_wf_def)
  then show ?thesis by (simp add: history_append_def act_simps Let_def)
qed

lemma log_wf_snoc:
  assumes "log_wf d" "messages_seq d < i64_max" "sm_msg_id m \<notin> sm_msg_id ` set (messages d)"
    and "sm_seq m = messages_seq d + 1"
  shows "log_wf (d\<lparr>messages := messages d @ [m], messages_seq := messages_seq d + 1\<rparr>)"
  using assms by (auto simp: log_wf_def sorted_wrt_append keyed_def)

lemma keeps_history_append: "keeps log_wf (history_append u now ch s b)"
  by (rule keepsI) (auto simp: history_append_cases Let_def intro!: log_wf_snoc)

lemma history_append_Inr:
  assumes "log_wf d" "history_append u now ch s b d = (Inr m, d')"
  shows "d' = d\<lparr>messages := messages d @ [m], messages_seq := sm_seq m\<rparr>"
    "sm_seq m = messages_seq d + 1" "sm_channel m = ch" "sm_sender_id m = s" "sm_body m = b"
    "sm_msg_id m = ''msg_'' @ u" "sm_created_at m = now"
  using assms by (auto simp: history_append_cases Let_def split: if_splits)

lemma history_append_frame:
  assumes "history_append u now ch s b d = (r, d')"
  shows "d' = d\<lparr>messages := messages d', messages_seq := messages_seq d'\<rparr>"
  using assms
  by (auto simp: history_append_def act_simps Let_def split: option.splits if_splits)

subsection \<open>Interface: a log read in pages\<close>

text \<open>
  A reader of the history relies on this alone: a page is a prefix of the channel's
  messages after a position, and these are in order.
\<close>

locale message_log =
  fixes inv :: "'db \<Rightarrow> bool"
    and in_channel :: "'c \<Rightarrow> 'db \<Rightarrow> 'm list"
    and seqno :: "'m \<Rightarrow> int"
    and page :: "'c \<Rightarrow> int \<Rightarrow> nat \<Rightarrow> 'db \<Rightarrow> 'm list"
  assumes page_take: "inv d \<Longrightarrow> page c a n d = take n (filter (\<lambda>m. a < seqno m) (in_channel c d))"
    and in_order: "inv d \<Longrightarrow> sorted_wrt (<) (map seqno (in_channel c d))"
begin

lemma page_sorted: "inv d \<Longrightarrow> sorted_wrt (<) (map seqno (page c a n d))"
  using in_order [of d c]
  by (simp add: page_take sorted_wrt_map sorted_wrt_filter sorted_wrt_take)

lemma page_after: "inv d \<Longrightarrow> m \<in> set (page c a n d) \<Longrightarrow> a < seqno m \<and> m \<in> set (in_channel c d)"
  by (auto simp: page_take dest: in_set_takeD)

lemma page_length: "inv d \<Longrightarrow> length (page c a n d) \<le> n"
  by (simp add: page_take)

lemma sorted_split:
  fixes f :: "'x \<Rightarrow> int"
  assumes "sorted_wrt (<) (map f (xs @ [x] @ ys))"
  shows "filter (\<lambda>m. f x < f m) (xs @ [x] @ ys) = ys"
proof -
  have "\<forall>y \<in> set xs. f y < f x" "\<forall>y \<in> set ys. f x < f y"
    using assms by (auto simp: sorted_wrt_append)
  then have "filter (\<lambda>m. f x < f m) xs = []" "filter (\<lambda>m. f x < f m) ys = ys"
    by (auto simp: filter_empty_conv not_less intro: less_imp_le)
  then show ?thesis by simp
qed

text \<open>Reading on from the last message of a page gives exactly the messages that follow it.\<close>

lemma page_next:
  assumes "inv d" "page c a n d \<noteq> []"
  shows "page c (seqno (last (page c a n d))) k d
       = take k (drop (length (page c a n d)) (filter (\<lambda>m. a < seqno m) (in_channel c d)))"
proof -
  let ?l = "filter (\<lambda>m. a < seqno m) (in_channel c d)" and ?x = "last (page c a n d)"
  let ?p = "page c a n d"
  have l: "sorted_wrt (<) (map seqno ?l)"
    using in_order [OF assms(1), of c] by (simp add: sorted_wrt_map sorted_wrt_filter)
  have "?l = ?p @ drop (length ?p) ?l"
    using assms(1) by (cases "length ?l \<le> n") (simp_all add: page_take)
  then have dec: "?l = butlast ?p @ [?x] @ drop (length ?p) ?l"
    using assms(2) by (metis append_assoc append_butlast_last_id)
  have "a < seqno ?x"
    using page_after [OF assms(1), of ?x c a n] assms(2) by simp
  then have "filter (\<lambda>m. seqno ?x < seqno m) (in_channel c d)
      = filter (\<lambda>m. seqno ?x < seqno m) ?l"
    by (auto intro: filter_cong)
  also have "\<dots> = drop (length ?p) ?l"
    using sorted_split [of seqno "butlast ?p" ?x "drop (length ?p) ?l"] dec l by metis
  finally show ?thesis using assms(1) by (simp add: page_take)
qed

lemma page_join:
  assumes "inv d" "length (page c a n d) = n" "0 < n"
  shows "page c a (n + k) d = page c a n d @ page c (seqno (last (page c a n d))) k d"
proof -
  have ne: "page c a n d \<noteq> []" using assms(2,3) by auto
  have "page c a (n + k) d = take n (filter (\<lambda>m. a < seqno m) (in_channel c d))
      @ take k (drop n (filter (\<lambda>m. a < seqno m) (in_channel c d)))"
    using assms(1) by (simp add: page_take take_add)
  also have "\<dots> = page c a n d @ page c (seqno (last (page c a n d))) k d"
    using page_next [OF assms(1) ne] assms(1,2) by (simp add: page_take)
  finally show ?thesis .
qed

end

definition history_page :: "string \<Rightarrow> int \<Rightarrow> nat \<Rightarrow> db \<Rightarrow> stored_message list" where
  "history_page c a n d =
     take n (sort_key sm_seq (filter (\<lambda>m. sm_channel m = c \<and> sm_seq m > a) (messages d)))"

lemma history_after_page: "history_after c a l d = history_page c a (nat (clamp_limit l)) d"
  by (simp add: history_after_def history_page_def)

lemma channel_messages_sorted: "log_wf d \<Longrightarrow> sorted_wrt (<) (map sm_seq (channel_messages c d))"
  by (simp add: log_wf_def channel_messages_def sorted_wrt_map sorted_wrt_filter)

lemma sort_key_sorted: "sorted_wrt (<) (map f xs) \<Longrightarrow> sort_key f xs = (xs :: 'a list)"
  for f :: "'a \<Rightarrow> int"
  by (intro sort_key_id_if_sorted) (auto intro: strict_sorted_imp_sorted)

lemma history_page_take:
  "log_wf d \<Longrightarrow> history_page c a n d = take n (filter (\<lambda>m. a < sm_seq m) (channel_messages c d))"
proof -
  assume wf: "log_wf d"
  have "filter (\<lambda>m. sm_channel m = c \<and> sm_seq m > a) (messages d)
      = filter (\<lambda>m. a < sm_seq m) (channel_messages c d)"
    by (auto simp: channel_messages_def intro: filter_cong)
  moreover have "sorted_wrt (<) (map sm_seq (filter (\<lambda>m. a < sm_seq m) (channel_messages c d)))"
    using channel_messages_sorted [OF wf] by (simp add: sorted_wrt_map sorted_wrt_filter)
  ultimately show ?thesis by (simp add: history_page_def sort_key_sorted)
qed

interpretation hlog: message_log log_wf channel_messages sm_seq history_page
  by unfold_locales (simp_all add: history_page_take channel_messages_sorted)

subsection \<open>Reading the log\<close>

lemma clamp_limit_bounds: "1 \<le> clamp_limit l \<and> clamp_limit l \<le> 500"
  by (simp add: clamp_limit_def)

lemma history_after_take:
  "log_wf d \<Longrightarrow> history_after c a l d
     = take (nat (clamp_limit l)) (filter (\<lambda>m. a < sm_seq m) (channel_messages c d))"
  by (simp add: history_after_page history_page_take)

lemma history_after_length: "length (history_after c a l d) \<le> 500"
proof -
  have "nat (clamp_limit l) \<le> 500" using clamp_limit_bounds [of l] by (simp add: nat_le_iff)
  then show ?thesis by (simp add: history_after_def min.coboundedI2)
qed

text \<open>A message just appended is the last of its channel; the other channels do not see it.\<close>

lemma channel_messages_append:
  assumes "log_wf d" "history_append u now ch s b d = (Inr m, d')"
  shows "channel_messages c d' = channel_messages c d @ (if c = ch then [m] else [])"
  using history_append_Inr [OF assms] by (simp add: channel_messages_def)

lemma history_after_append:
  assumes wf: "log_wf d" and app: "history_append u now ch s b d = (Inr m, d')"
    and a: "a \<le> messages_seq d"
    and room: "length (filter (\<lambda>x. a < sm_seq x) (channel_messages ch d)) < nat (clamp_limit l)"
  shows "history_after ch a l d' = history_after ch a l d @ [m]"
proof -
  have wf': "log_wf d'" using keepsD_eq [OF keeps_history_append wf app] .
  show ?thesis
    using history_append_Inr(2) [OF wf app] a room
    by (simp add: history_after_take [OF wf] history_after_take [OF wf']
        channel_messages_append [OF wf app])
qed

end
