(* ===== verification/Membership.thy ===== *)
theory Membership
  imports History
begin

section \<open>Durable memberships and cursors (src/src/server.rs, database part)\<close>

text \<open>
  The methods of \<open>Server\<close> that are SQL under the database mutex: connection marks, the
  channel memberships with their \<open>last_seen_seq\<close> cursors, and display names. The cursor of
  a member is \<open>cursor\<close>; the interface \<open>roster\<close> states what the three writers do to it
  and gives the facts about runs of them (a cursor never goes back while the member stays).
\<close>

record membership =
  mb_channel :: string
  mb_last_seen_seq :: int

subsection \<open>Operations\<close>

definition update_principals ::
    "(principal_row \<Rightarrow> bool) \<Rightarrow> (principal_row \<Rightarrow> principal_row) \<Rightarrow> db \<Rightarrow> db" where
  "update_principals P f d = d\<lparr>principals := snd (update_where P f (principals d))\<rparr>"

definition update_members ::
    "(membership_row \<Rightarrow> bool) \<Rightarrow> (membership_row \<Rightarrow> membership_row) \<Rightarrow> db \<Rightarrow> db" where
  "update_members P f d =
     d\<lparr>channel_memberships := snd (update_where P f (channel_memberships d))\<rparr>"

definition memberships :: "string \<Rightarrow> db \<Rightarrow> membership list" where
  "memberships principal_id d =
     map (\<lambda>m. \<lparr>mb_channel = m_channel m, mb_last_seen_seq = m_last_seen_seq m\<rparr>)
       (sort_key m_channel
         (filter (\<lambda>m. m_principal_id m = principal_id) (channel_memberships d)))"

definition mark_connected :: "int \<Rightarrow> string \<Rightarrow> db \<Rightarrow> db" where
  "mark_connected now principal_id =
     update_principals (\<lambda>p. p_id p = principal_id)
       (\<lambda>p. p\<lparr>p_connected_at := Some now, p_disconnected_at := None\<rparr>)"

definition mark_connected_and_memberships :: "int \<Rightarrow> string \<Rightarrow> (db, membership list) act" where
  "mark_connected_and_memberships now principal_id =
     and_then (modify (mark_connected now principal_id)) (\<lambda>_. reads (memberships principal_id))"

definition mark_disconnected :: "int \<Rightarrow> string \<Rightarrow> db \<Rightarrow> db" where
  "mark_disconnected now principal_id =
     update_principals (\<lambda>p. p_id p = principal_id) (\<lambda>p. p\<lparr>p_disconnected_at := Some now\<rparr>)"

text \<open>\<open>SELECT COALESCE(MAX(seq), 0) FROM messages WHERE channel = ?1\<close>.\<close>

definition current_channel_seq :: "string \<Rightarrow> db \<Rightarrow> int" where
  "current_channel_seq channel d = coalesce_max (map sm_seq (channel_messages channel d))"

definition add_membership :: "int \<Rightarrow> string \<Rightarrow> string \<Rightarrow> db \<Rightarrow> db" where
  "add_membership now principal_id channel d =
     (if \<exists>m \<in> set (channel_memberships d). member_key m = (principal_id, channel) then d
      else d\<lparr>channel_memberships := channel_memberships d @
        [\<lparr>m_principal_id = principal_id, m_channel = channel, m_joined_at = now,
          m_last_seen_seq = current_channel_seq channel d\<rparr>]\<rparr>)"

definition remove_membership :: "string \<Rightarrow> string \<Rightarrow> db \<Rightarrow> db" where
  "remove_membership principal_id channel d =
     d\<lparr>channel_memberships := delete_where
         (\<lambda>m. m_principal_id m = principal_id \<and> m_channel m = channel) (channel_memberships d)\<rparr>"

definition is_member :: "string \<Rightarrow> string \<Rightarrow> db \<Rightarrow> bool" where
  "is_member principal_id channel d \<longleftrightarrow>
     0 < length (filter (\<lambda>m. m_principal_id m = principal_id \<and> m_channel m = channel)
           (channel_memberships d))"

definition display_name :: "string \<Rightarrow> string \<Rightarrow> db \<Rightarrow> string" where
  "display_name server_name principal_id d =
     (if principal_id = server_name then server_name
      else (case row_of p_id (principals d) principal_id of
              None \<Rightarrow> principal_id | Some p \<Rightarrow> p_nick p))"

definition mark_seen :: "string \<Rightarrow> string \<Rightarrow> int \<Rightarrow> db \<Rightarrow> db" where
  "mark_seen principal_id channel seq d =
     update_members (\<lambda>m. m_principal_id m = principal_id \<and> m_channel m = channel)
       (\<lambda>m. m\<lparr>m_last_seen_seq := max (m_last_seen_seq m) seq\<rparr>)
       (update_principals (\<lambda>p. p_id p = principal_id)
         (\<lambda>p. p\<lparr>p_last_seen_seq := max (p_last_seen_seq p) seq\<rparr>) d)"

subsection \<open>Cursors\<close>

definition cursor :: "string \<Rightarrow> string \<Rightarrow> db \<Rightarrow> int option" where
  "cursor p c d = map_option m_last_seen_seq (row_of member_key (channel_memberships d) (p, c))"

definition members_wf :: "db \<Rightarrow> bool" where
  "members_wf d \<longleftrightarrow> keyed member_key (channel_memberships d)"

lemma members_wf_empty: "members_wf empty_db"
  by (simp add: members_wf_def empty_db_def keyed_def)

lemma member_key_cond: "(m_principal_id m = p \<and> m_channel m = c) \<longleftrightarrow> member_key m = (p, c)"
  by (simp add: member_key_def)

lemma is_member_cursor: "is_member p c d \<longleftrightarrow> cursor p c d \<noteq> None"
  by (auto simp: is_member_def cursor_def member_key_cond row_of_def query_row_def
      split: list.splits)

lemma is_member_in: "is_member p c d \<longleftrightarrow> (\<exists>m \<in> set (channel_memberships d). member_key m = (p, c))"
  by (auto simp: is_member_def member_key_cond filter_empty_conv)

lemma update_principals_frame [simp]:
  "channel_memberships (update_principals P f d) = channel_memberships d"
  "messages (update_principals P f d) = messages d"
  "messages_seq (update_principals P f d) = messages_seq d"
  "tasks (update_principals P f d) = tasks d"
  "principal_tokens (update_principals P f d) = principal_tokens d"
  "tokens_seq (update_principals P f d) = tokens_seq d"
  "schema (update_principals P f d) = schema d"
  "label_index (update_principals P f d) = label_index d"
  by (simp_all add: update_principals_def)

lemma update_members_frame [simp]:
  "principals (update_members P f d) = principals d"
  "messages (update_members P f d) = messages d"
  "messages_seq (update_members P f d) = messages_seq d"
  "tasks (update_members P f d) = tasks d"
  "principal_tokens (update_members P f d) = principal_tokens d"
  "tokens_seq (update_members P f d) = tokens_seq d"
  "schema (update_members P f d) = schema d"
  "label_index (update_members P f d) = label_index d"
  by (simp_all add: update_members_def)

lemma cursor_mark_seen:
  "cursor p c (mark_seen q e s d)
   = (if p = q \<and> c = e then map_option (\<lambda>x. max x s) (cursor p c d) else cursor p c d)"
proof -
  let ?f = "\<lambda>m. m\<lparr>m_last_seen_seq := max (m_last_seen_seq m) s\<rparr>"
  have "row_of member_key (channel_memberships (mark_seen q e s d)) (p, c)
      = map_option (\<lambda>r. if member_key r = (q, e) then ?f r else r)
          (row_of member_key (channel_memberships d) (p, c))"
    using memb.row_of_update [of ?f "\<lambda>m. member_key m = (q, e)" d "(p, c)"]
    by (simp add: mark_seen_def update_members_def member_key_cond)
       (simp add: member_key_def)
  then show ?thesis
    by (cases "row_of member_key (channel_memberships d) (p, c)")
       (auto simp: cursor_def dest: memb.row_of_Some)
qed

lemma cursor_add_membership:
  "cursor p c (add_membership now q e d)
   = (if p = q \<and> c = e then Some (case cursor p c d of None \<Rightarrow> current_channel_seq c d | Some x \<Rightarrow> x)
      else cursor p c d)"
proof (cases "\<exists>m \<in> set (channel_memberships d). member_key m = (q, e)")
  case True
  then have "is_member q e d" by (simp add: is_member_in)
  with True show ?thesis by (auto simp: add_membership_def is_member_cursor)
next
  case False
  then have none: "row_of member_key (channel_memberships d) (q, e) = None"
    by (simp add: memb.row_of_None)
  show ?thesis
    using False none memb.row_of_insert [of d]
    by (auto simp: add_membership_def cursor_def member_key_def split: option.splits)
qed

lemma cursor_remove_membership:
  assumes "members_wf d"
  shows "cursor p c (remove_membership q e d) = (if p = q \<and> c = e then None else cursor p c d)"
proof -
  have "row_of member_key (channel_memberships (remove_membership q e d)) (p, c)
      = (case row_of member_key (channel_memberships d) (p, c) of
           None \<Rightarrow> None | Some r \<Rightarrow> if member_key r = (q, e) then None else Some r)"
    using memb.row_of_delete [of d "\<lambda>m. member_key m = (q, e)" "(p, c)"] assms
    by (simp add: remove_membership_def member_key_cond members_wf_def)
  then show ?thesis
    by (auto simp: cursor_def dest: memb.row_of_Some split: option.splits)
qed

lemma members_wf_ops:
  "members_wf d \<Longrightarrow> members_wf (mark_seen p c s d)"
  "members_wf d \<Longrightarrow> members_wf (add_membership now p c d)"
  "members_wf d \<Longrightarrow> members_wf (remove_membership p c d)"
  "members_wf (update_principals P f d) = members_wf d"
proof -
  show "members_wf d \<Longrightarrow> members_wf (mark_seen p c s d)"
    using memb.keyed_update [of "\<lambda>m. m\<lparr>m_last_seen_seq := max (m_last_seen_seq m) s\<rparr>"
        "\<lambda>m. m_principal_id m = p \<and> m_channel m = c" d]
    by (simp add: members_wf_def mark_seen_def update_members_def member_key_def)
  show "members_wf d \<Longrightarrow> members_wf (add_membership now p c d)"
    by (auto simp: members_wf_def add_membership_def keyed_def member_key_def)
  show "members_wf d \<Longrightarrow> members_wf (remove_membership p c d)"
    using memb.keyed_delete [of d "\<lambda>m. m_principal_id m = p \<and> m_channel m = c"]
    by (simp add: members_wf_def remove_membership_def)
  show "members_wf (update_principals P f d) = members_wf d"
    by (simp add: members_wf_def)
qed

subsection \<open>Marking seen commutes and is idempotent\<close>

text \<open>What \<open>mark_seen\<close> does to one row of each table.\<close>

definition seen_principal :: "string \<Rightarrow> int \<Rightarrow> principal_row \<Rightarrow> principal_row" where
  "seen_principal p s r = (if p_id r = p then r\<lparr>p_last_seen_seq := max (p_last_seen_seq r) s\<rparr> else r)"

definition seen_member :: "string \<Rightarrow> string \<Rightarrow> int \<Rightarrow> membership_row \<Rightarrow> membership_row" where
  "seen_member p c s r =
     (if m_principal_id r = p \<and> m_channel r = c
      then r\<lparr>m_last_seen_seq := max (m_last_seen_seq r) s\<rparr> else r)"

lemma mark_seen_rows:
  "mark_seen p c s d = d\<lparr>principals := map (seen_principal p s) (principals d),
     channel_memberships := map (seen_member p c s) (channel_memberships d)\<rparr>"
  by (simp add: mark_seen_def update_members_def update_principals_def update_where_def
      seen_principal_def [abs_def] seen_member_def [abs_def])

lemma seen_rows_comm:
  "seen_principal p s (seen_principal q t r) = seen_principal q t (seen_principal p s r)"
  "seen_member p c s (seen_member q e t m) = seen_member q e t (seen_member p c s m)"
  by (auto simp: seen_principal_def seen_member_def max.assoc max.commute [of s t])

lemma seen_rows_max:
  "seen_principal p s (seen_principal p t r) = seen_principal p (max s t) r"
  "seen_member p c s (seen_member p c t m) = seen_member p c (max s t) m"
  by (simp_all add: seen_principal_def seen_member_def max.left_commute max.commute max.assoc)

lemma mark_seen_comm:
  "mark_seen p c s (mark_seen q e t d) = mark_seen q e t (mark_seen p c s d)"
  by (simp add: mark_seen_rows seen_rows_comm)

lemma mark_seen_max: "mark_seen p c s (mark_seen p c t d) = mark_seen p c (max s t) d"
  by (simp add: mark_seen_rows seen_rows_max)

subsection \<open>Interface: the roster of a channel\<close>

datatype roster_op = Enter int string string | Leave string string | Seen string string int

fun roster_subject :: "roster_op \<Rightarrow> string \<times> string" where
  "roster_subject (Enter now p c) = (p, c)"
| "roster_subject (Leave p c) = (p, c)"
| "roster_subject (Seen p c s) = (p, c)"

fun roster_step :: "roster_op \<Rightarrow> db \<Rightarrow> db" where
  "roster_step (Enter now p c) d = add_membership now p c d"
| "roster_step (Leave p c) d = remove_membership p c d"
| "roster_step (Seen p c s) d = mark_seen p c s d"

locale roster =
  fixes inv :: "'s \<Rightarrow> bool"
    and pos :: "string \<Rightarrow> string \<Rightarrow> 's \<Rightarrow> int option"
    and top :: "string \<Rightarrow> 's \<Rightarrow> int"
    and step :: "roster_op \<Rightarrow> 's \<Rightarrow> 's"
  assumes step_inv: "inv d \<Longrightarrow> inv (step x d)"
    and enter: "inv d \<Longrightarrow> pos p c (step (Enter now p c) d)
      = Some (case pos p c d of None \<Rightarrow> top c d | Some x \<Rightarrow> x)"
    and leave: "inv d \<Longrightarrow> pos p c (step (Leave p c) d) = None"
    and seen: "inv d \<Longrightarrow> pos p c (step (Seen p c s) d) = map_option (\<lambda>x. max x s) (pos p c d)"
    and others: "inv d \<Longrightarrow> roster_subject x \<noteq> (p, c) \<Longrightarrow> pos p c (step x d) = pos p c d"
begin

lemma step_forward:
  assumes "inv d" "pos p c d = Some x" "op \<noteq> Leave p c"
  shows "\<exists>y. pos p c (step op d) = Some y \<and> x \<le> y"
proof (cases "roster_subject op = (p, c)")
  case True
  with assms show ?thesis
    by (cases op) (auto simp: enter seen)
next
  case False
  with assms show ?thesis by (simp add: others)
qed

text \<open>While a member does not leave, it stays a member and its cursor only grows.\<close>

lemma run_forward:
  assumes "inv d" "pos p c d = Some x" "Leave p c \<notin> set ops"
  shows "\<exists>y. pos p c (fold step ops d) = Some y \<and> x \<le> y"
  using assms
proof (induction ops arbitrary: d x)
  case Nil
  then show ?case by simp
next
  case (Cons op ops)
  then obtain y where y: "pos p c (step op d) = Some y" "x \<le> y"
    using step_forward [of d p c x op] by auto
  from Cons.IH [OF step_inv [OF Cons.prems(1)] y(1)] Cons.prems(3) y(2)
  show ?case by (auto intro: order_trans)
qed

lemma enter_again: "inv d \<Longrightarrow> pos p c d = Some x \<Longrightarrow> pos p c (step (Enter now p c) d) = Some x"
  by (simp add: enter)

lemma leave_enter: "inv d \<Longrightarrow> pos p c (step (Enter now p c) (step (Leave p c) d)) = Some (top c (step (Leave p c) d))"
  by (simp add: enter leave step_inv)

end

interpretation ros: roster members_wf cursor current_channel_seq roster_step
proof unfold_locales
  fix d :: db and x p c
  assume "members_wf d" "roster_subject x \<noteq> (p, c)"
  then show "cursor p c (roster_step x d) = cursor p c d"
    by (cases x) (auto simp: cursor_add_membership cursor_remove_membership cursor_mark_seen)
next
  fix d :: db and x
  assume "members_wf d"
  then show "members_wf (roster_step x d)" by (cases x) (simp_all add: members_wf_ops)
qed (simp_all add: cursor_add_membership cursor_remove_membership cursor_mark_seen)

subsection \<open>Cursors stand at messages of their channel\<close>

text \<open>
  A cursor is 0 or the sequence number of a message stored in its channel; the
  principal's own \<open>last_seen_seq\<close> is 0 or the number of some stored message.
\<close>

definition cursors_wf :: "db \<Rightarrow> bool" where
  "cursors_wf d \<longleftrightarrow>
     (\<forall>m \<in> set (channel_memberships d).
        m_last_seen_seq m \<in> insert 0 (sm_seq ` set (channel_messages (m_channel m) d)))
     \<and> (\<forall>p \<in> set (principals d). p_last_seen_seq p \<in> insert 0 (sm_seq ` set (messages d)))"

lemma cursors_wf_mark_seen:
  assumes "cursors_wf d" "s \<in> sm_seq ` set (channel_messages c d)"
  shows "cursors_wf (mark_seen p c s d)"
proof -
  have s: "s \<in> sm_seq ` set (messages d)"
    using assms(2) by (auto simp: channel_messages_def)
  have cm: "channel_messages e (mark_seen p c s d) = channel_messages e d"
      "messages (mark_seen p c s d) = messages d" for e
    by (simp_all add: mark_seen_rows channel_messages_def)
  have mx: "max a b \<in> insert 0 S" if "a \<in> insert 0 S" "b \<in> S" for a b :: int and S
    using that by (simp add: max_def)
  show ?thesis
    unfolding cursors_wf_def cm
  proof (intro conjI ballI)
    fix m assume "m \<in> set (channel_memberships (mark_seen p c s d))"
    then obtain r where r: "r \<in> set (channel_memberships d)" "m = seen_member p c s r"
      by (auto simp: mark_seen_rows)
    then have "m_last_seen_seq r \<in> insert 0 (sm_seq ` set (channel_messages (m_channel r) d))"
      using assms(1) by (simp add: cursors_wf_def)
    with mx [OF this] r(2) assms(2)
    show "m_last_seen_seq m \<in> insert 0 (sm_seq ` set (channel_messages (m_channel m) d))"
      by (cases "m_principal_id r = p \<and> m_channel r = c") (simp_all add: seen_member_def)
  next
    fix x assume "x \<in> set (principals (mark_seen p c s d))"
    then obtain r where r: "r \<in> set (principals d)" "x = seen_principal p s r"
      by (auto simp: mark_seen_rows)
    then have "p_last_seen_seq r \<in> insert 0 (sm_seq ` set (messages d))"
      using assms(1) by (simp add: cursors_wf_def)
    with mx [OF this s] r(2) show "p_last_seen_seq x \<in> insert 0 (sm_seq ` set (messages d))"
      by (cases "p_id r = p") (simp_all add: seen_principal_def)
  qed
qed

lemma current_channel_seq_in:
  "current_channel_seq c d \<in> insert 0 (sm_seq ` set (channel_messages c d))"
  using coalesce_max_in [of "map sm_seq (channel_messages c d)"]
  by (cases "channel_messages c d = []") (auto simp: current_channel_seq_def coalesce_max_def)

lemma cursors_wf_add: "cursors_wf d \<Longrightarrow> cursors_wf (add_membership now p c d)"
  using current_channel_seq_in [of c d]
  by (auto simp: cursors_wf_def add_membership_def channel_messages_def)

lemma cursors_wf_remove: "cursors_wf d \<Longrightarrow> cursors_wf (remove_membership p c d)"
  by (auto simp: cursors_wf_def remove_membership_def delete_where_def channel_messages_def)

lemma cursors_wf_connect:
  "cursors_wf d \<Longrightarrow> cursors_wf (mark_connected now p d)"
  "cursors_wf d \<Longrightarrow> cursors_wf (mark_disconnected now p d)"
  by (auto simp: cursors_wf_def mark_connected_def mark_disconnected_def update_principals_def
      update_where_def channel_messages_def)

end
