(* ===== verification/Tasks.thy ===== *)
theory Tasks
  imports Store
begin

section \<open>Tasks (src/src/tasks.rs)\<close>

text \<open>
  \<open>TaskStore\<close>: create, claim, done, release and list, each one SQL statement under the
  database mutex (and a reload). \<open>task_phase\<close> is the abstract state of a task and
  \<open>spec_claim\<close>, \<open>spec_done\<close>, \<open>spec_release\<close> the abstract lease protocol; the
  refinement lemmas relate the two, and the interface \<open>lease_protocol\<close> carries the
  facts about runs of operations (exclusion while a lease lasts, who may finish, done is
  final).
\<close>

subsection \<open>Operations\<close>

text \<open>\<open>from_row\<close>: the columns of \<open>Task\<close>.\<close>

definition task_from_row :: "task_row \<Rightarrow> task" where
  "task_from_row r = task.truncate r"

definition tasks_create :: "string \<Rightarrow> int \<Rightarrow> string \<Rightarrow> string \<Rightarrow> (db, task) act" where
  "tasks_create uuid now channel title =
     (let r = \<lparr>t_id = ''task_'' @ uuid, t_channel = channel, t_title = title,
               t_status = ''open'', t_claimed_by = None, t_lease_expires_at = None,
               t_created_at = now, t_updated_at = now\<rparr> in
      and_then (reads (\<lambda>d. t_id ` set (tasks d))) (\<lambda>ids.
        if t_id r \<in> ids then raise (Anyhow ''insert task'')
        else and_then (modify (\<lambda>d. d\<lparr>tasks := tasks d @ [r]\<rparr>)) (\<lambda>_. ret (task_from_row r))))"

definition get_locked :: "string \<Rightarrow> (db, task) act" where
  "get_locked task_id =
     and_then (reads (\<lambda>d. row_of t_id (tasks d) task_id)) (\<lambda>r.
       case r of None \<Rightarrow> raise (Anyhow ''load task'') | Some t \<Rightarrow> ret (task_from_row t))"

text \<open>An UPDATE on the tasks with the number of rows it changed.\<close>

definition update_tasks ::
    "(task_row \<Rightarrow> bool) \<Rightarrow> (task_row \<Rightarrow> task_row) \<Rightarrow> (db, nat) act" where
  "update_tasks P f =
     and_then (reads (\<lambda>d. fst (update_where P f (tasks d)))) (\<lambda>changed.
     and_then (modify (\<lambda>d. d\<lparr>tasks := snd (update_where P f (tasks d))\<rparr>)) (\<lambda>_. ret changed))"

text \<open>The condition of the claiming UPDATE; a comparison with a NULL lease is not true.\<close>

definition claimable :: "int \<Rightarrow> task_row \<Rightarrow> bool" where
  "claimable now r \<longleftrightarrow>
     t_status r \<noteq> ''done''
     \<and> (t_status r = ''open''
        \<or> t_lease_expires_at r = None
        \<or> (case t_lease_expires_at r of None \<Rightarrow> False | Some l \<Rightarrow> l < now))"

definition tasks_claim :: "int \<Rightarrow> int \<Rightarrow> string \<Rightarrow> string \<Rightarrow> (db, task) act" where
  "tasks_claim lease_seconds now task_id principal_id =
     and_then (lift_res (add_i64 now lease_seconds)) (\<lambda>lease_expires_at.
     and_then (update_tasks (\<lambda>r. t_id r = task_id \<and> claimable now r)
        (\<lambda>r. r\<lparr>t_status := ''claimed'', t_claimed_by := Some principal_id,
               t_lease_expires_at := Some lease_expires_at, t_updated_at := now\<rparr>)) (\<lambda>changed.
       if changed \<noteq> 1 then raise (Anyhow ''task is already claimed or done'')
       else get_locked task_id))"

definition held_by :: "string \<Rightarrow> task_row \<Rightarrow> bool" where
  "held_by principal_id r \<longleftrightarrow> t_claimed_by r = Some principal_id \<and> t_status r = ''claimed''"

definition tasks_done :: "int \<Rightarrow> string \<Rightarrow> string \<Rightarrow> (db, task) act" where
  "tasks_done now task_id principal_id =
     and_then (update_tasks (\<lambda>r. t_id r = task_id \<and> held_by principal_id r)
        (\<lambda>r. r\<lparr>t_status := ''done'', t_updated_at := now\<rparr>)) (\<lambda>changed.
       if changed \<noteq> 1 then raise (Anyhow ''task is not claimed by this principal'')
       else get_locked task_id)"

definition tasks_release :: "int \<Rightarrow> string \<Rightarrow> string \<Rightarrow> (db, task) act" where
  "tasks_release now task_id principal_id =
     and_then (update_tasks (\<lambda>r. t_id r = task_id \<and> held_by principal_id r)
        (\<lambda>r. r\<lparr>t_status := ''open'', t_claimed_by := None, t_lease_expires_at := None,
               t_updated_at := now\<rparr>)) (\<lambda>changed.
       if changed \<noteq> 1 then raise (Anyhow ''task is not claimed by this principal'')
       else get_locked task_id)"

text \<open>
  ORDER BY created_at; SQL leaves the order of equal times open, the model keeps the rowid
  order there.
\<close>

definition tasks_list :: "string \<Rightarrow> db \<Rightarrow> task list" where
  "tasks_list channel d =
     map task_from_row
       (sort_key t_created_at
         (filter (\<lambda>r. t_channel r = channel \<and> t_status r \<noteq> ''done'') (tasks d)))"

subsection \<open>Abstract state and protocol\<close>

datatype phase = Absent | Open | Claimed string int | Done

text \<open>A lease end outside \<open>i64\<close> makes the claim fail without effect.\<close>

definition spec_claim :: "int \<Rightarrow> int \<Rightarrow> string \<Rightarrow> phase \<Rightarrow> bool \<times> phase" where
  "spec_claim lease now p ph =
     (if \<not> is_i64 (now + lease) then (False, ph)
      else (case ph of
              Open \<Rightarrow> (True, Claimed p (now + lease))
            | Claimed q l \<Rightarrow> if l < now then (True, Claimed p (now + lease)) else (False, ph)
            | _ \<Rightarrow> (False, ph)))"

definition spec_done :: "string \<Rightarrow> phase \<Rightarrow> bool \<times> phase" where
  "spec_done p ph =
     (case ph of Claimed q l \<Rightarrow> if q = p then (True, Done) else (False, ph) | _ \<Rightarrow> (False, ph))"

definition spec_release :: "string \<Rightarrow> phase \<Rightarrow> bool \<times> phase" where
  "spec_release p ph =
     (case ph of Claimed q l \<Rightarrow> if q = p then (True, Open) else (False, ph) | _ \<Rightarrow> (False, ph))"

definition spec_create :: "phase \<Rightarrow> bool \<times> phase" where
  "spec_create ph = (case ph of Absent \<Rightarrow> (True, Open) | _ \<Rightarrow> (False, ph))"

text \<open>
  What the four writers keep of a row: the status is one of three, a claimed row names its
  holder and lease, an open one neither.
\<close>

definition row_ok :: "task_row \<Rightarrow> bool" where
  "row_ok r \<longleftrightarrow>
     t_status r = ''open'' \<and> t_claimed_by r = None \<and> t_lease_expires_at r = None
     \<or> (t_status r = ''claimed'' \<or> t_status r = ''done'')
       \<and> t_claimed_by r \<noteq> None \<and> t_lease_expires_at r \<noteq> None"

definition tasks_wf :: "db \<Rightarrow> bool" where
  "tasks_wf d \<longleftrightarrow> keyed t_id (tasks d) \<and> (\<forall>r \<in> set (tasks d). row_ok r)"

definition row_phase :: "task_row \<Rightarrow> phase" where
  "row_phase r =
     (if t_status r = ''open'' then Open
      else if t_status r = ''done'' then Done
      else (case (t_claimed_by r, t_lease_expires_at r) of
              (Some p, Some l) \<Rightarrow> Claimed p l
            | _ \<Rightarrow> Absent))"

definition task_phase :: "string \<Rightarrow> db \<Rightarrow> phase" where
  "task_phase task_id d =
     (case row_of t_id (tasks d) task_id of None \<Rightarrow> Absent | Some r \<Rightarrow> row_phase r)"

subsection \<open>The invariant\<close>

lemma tasks_wf_empty: "tasks_wf empty_db"
  by (simp add: tasks_wf_def empty_db_def keyed_def)

lemma tasks_wf_cong: "tasks e = tasks d \<Longrightarrow> tasks_wf e = tasks_wf d"
  by (simp add: tasks_wf_def)

lemma tasks_wf_update:
  assumes "tasks_wf d" and "\<And>r. t_id (f r) = t_id r" and "\<And>r. P r \<Longrightarrow> row_ok r \<Longrightarrow> row_ok (f r)"
  shows "tasks_wf (d\<lparr>tasks := snd (update_where P f (tasks d))\<rparr>)"
proof -
  have "keyed t_id (tasks (d\<lparr>tasks := snd (update_where P f (tasks d))\<rparr>))"
    using assms tsks.keyed_update [of f P d] by (simp add: tasks_wf_def)
  with assms show ?thesis by (auto simp: tasks_wf_def update_where_def)
qed

lemma keeps_update_tasks:
  assumes "\<And>r. t_id (f r) = t_id r" and "\<And>r. P r \<Longrightarrow> row_ok r \<Longrightarrow> row_ok (f r)"
  shows "keeps tasks_wf (update_tasks P f)"
  unfolding update_tasks_def by (intro keeps_rules tasks_wf_update assms)

lemma keeps_get_locked: "keeps tasks_wf (get_locked tid)"
  unfolding get_locked_def by (intro keeps_rules)

lemma keeps_tasks_create: "keeps tasks_wf (tasks_create u now ch title)"
  by (rule keepsI)
     (auto simp: tasks_create_def Let_def act_simps tasks_wf_def keyed_def row_ok_def)

lemma keeps_tasks_claim: "keeps tasks_wf (tasks_claim lease now tid p)"
  unfolding tasks_claim_def
  by (intro keeps_rules keeps_update_tasks keeps_get_locked) (auto simp: row_ok_def)

lemma keeps_tasks_done: "keeps tasks_wf (tasks_done now tid p)"
  unfolding tasks_done_def
  by (intro keeps_rules keeps_update_tasks keeps_get_locked) (auto simp: row_ok_def held_by_def)

lemma keeps_tasks_release: "keeps tasks_wf (tasks_release now tid p)"
  unfolding tasks_release_def
  by (intro keeps_rules keeps_update_tasks keeps_get_locked) (auto simp: row_ok_def)

subsection \<open>Refinement: each operation does what the protocol says\<close>

lemma update_tasks_run:
  "update_tasks P f d = (Inr (fst (update_where P f (tasks d))),
     d\<lparr>tasks := snd (update_where P f (tasks d))\<rparr>)"
  by (simp add: update_tasks_def act_simps)

text \<open>One guarded UPDATE of a task, then the reload; the three writers are instances.\<close>

definition guarded_write ::
    "string \<Rightarrow> (task_row \<Rightarrow> bool) \<Rightarrow> (task_row \<Rightarrow> task_row) \<Rightarrow> string \<Rightarrow> (db, task) act" where
  "guarded_write tid P f msg =
     and_then (update_tasks (\<lambda>r. t_id r = tid \<and> P r) f)
       (\<lambda>changed. if changed \<noteq> 1 then raise (Anyhow msg) else get_locked tid)"

lemma writers_guarded:
  "tasks_claim lease now tid p = and_then (lift_res (add_i64 now lease)) (\<lambda>l.
     guarded_write tid (claimable now) (\<lambda>r. r\<lparr>t_status := ''claimed'', t_claimed_by := Some p,
       t_lease_expires_at := Some l, t_updated_at := now\<rparr>) ''task is already claimed or done'')"
  "tasks_done now tid p =
     guarded_write tid (held_by p) (\<lambda>r. r\<lparr>t_status := ''done'', t_updated_at := now\<rparr>)
       ''task is not claimed by this principal''"
  "tasks_release now tid p =
     guarded_write tid (held_by p) (\<lambda>r. r\<lparr>t_status := ''open'', t_claimed_by := None,
       t_lease_expires_at := None, t_updated_at := now\<rparr>) ''task is not claimed by this principal''"
  by (simp_all add: tasks_claim_def tasks_done_def tasks_release_def guarded_write_def)

lemma guarded_write:
  assumes wf: "tasks_wf d" and key: "\<And>r. t_id (f r) = t_id r"
  shows "guarded_write tid P f msg d = (case row_of t_id (tasks d) tid of
      None \<Rightarrow> (Inl (Anyhow msg), d)
    | Some r \<Rightarrow> if P r
        then (Inr (task_from_row (f r)),
              d\<lparr>tasks := snd (update_where (\<lambda>r. t_id r = tid \<and> P r) f (tasks d))\<rparr>)
        else (Inl (Anyhow msg), d))"
    and "row_of t_id (tasks (snd (guarded_write tid P f msg d))) u
       = map_option (\<lambda>r. if t_id r = tid \<and> P r then f r else r) (row_of t_id (tasks d) u)"
proof -
  let ?Q = "\<lambda>r. t_id r = tid \<and> P r"
  let ?d = "d\<lparr>tasks := snd (update_where ?Q f (tasks d))\<rparr>"
  have kd: "keyed t_id (tasks d)" using wf by (simp add: tasks_wf_def)
  have ch: "fst (update_where ?Q f (tasks d))
      = (case row_of t_id (tasks d) tid of None \<Rightarrow> 0 | Some r \<Rightarrow> if ?Q r then 1 else 0)"
    by (rule tsks.changed_of_key [OF kd]) simp
  have ro: "row_of t_id (tasks ?d) u
      = map_option (\<lambda>r. if ?Q r then f r else r) (row_of t_id (tasks d) u)" for u
    by (rule tsks.row_of_update) (rule key)
  have id: "snd (update_where ?Q f (tasks d)) = tasks d"
    if "\<forall>r \<in> set (tasks d). \<not> ?Q r"
    using that by (simp add: update_where_def) (rule map_idI, auto)
  have only: "\<forall>r \<in> set (tasks d). \<not> ?Q r"
    if "case row_of t_id (tasks d) tid of None \<Rightarrow> True | Some r \<Rightarrow> \<not> P r"
    using that tsks.row_of_member [OF kd] by (auto split: option.splits)
  show "guarded_write tid P f msg d = (case row_of t_id (tasks d) tid of
      None \<Rightarrow> (Inl (Anyhow msg), d)
    | Some r \<Rightarrow> if P r then (Inr (task_from_row (f r)), ?d) else (Inl (Anyhow msg), d))"
  proof (cases "row_of t_id (tasks d) tid")
    case None
    with id [OF only] show ?thesis
      by (simp add: guarded_write_def and_then_Inr [OF update_tasks_run] ch run_act)
  next
    case (Some r)
    then have "t_id r = tid" using tsks.row_of_Some by blast
    with Some id [OF only] ro [of tid] show ?thesis
      by (auto simp: guarded_write_def and_then_Inr [OF update_tasks_run] ch run_act get_locked_def act_simps)
  qed
  show "row_of t_id (tasks (snd (guarded_write tid P f msg d))) u
       = map_option (\<lambda>r. if ?Q r then f r else r) (row_of t_id (tasks d) u)"
  proof -
    have "snd (guarded_write tid P f msg d) = ?d"
      by (auto simp: guarded_write_def and_then_Inr [OF update_tasks_run] run_act get_locked_def act_simps
          split: option.split)
    then show ?thesis using ro [of u] by simp
  qed
qed

lemma row_phase_cases:
  assumes "row_ok r"
  obtains (opened) "row_phase r = Open" "t_status r = ''open''" "\<And>p. \<not> held_by p r"
      "\<And>now. claimable now r"
    | (claimed) q l where "row_phase r = Claimed q l" "t_status r = ''claimed''"
      "\<And>p. held_by p r \<longleftrightarrow> q = p" "\<And>now. claimable now r \<longleftrightarrow> l < now"
    | (finished) "row_phase r = Done" "t_status r = ''done''" "\<And>p. \<not> held_by p r"
      "\<And>now. \<not> claimable now r"
  using assms by (auto simp: row_ok_def row_phase_def held_by_def claimable_def)

lemma row_phase_not_Absent: "row_ok r \<Longrightarrow> row_phase r \<noteq> Absent"
  by (auto elim: row_phase_cases)

lemma task_row_ok: "tasks_wf d \<Longrightarrow> row_of t_id (tasks d) tid = Some r \<Longrightarrow> row_ok r"
  by (auto simp: tasks_wf_def dest: tsks.row_of_Some)

text \<open>
  \<open>refines\<close>: a fallible operation succeeds exactly when the protocol step does, takes the
  task to the protocol's next phase and leaves every other task alone.
\<close>

definition refines ::
    "string \<Rightarrow> (phase \<Rightarrow> bool \<times> phase) \<Rightarrow> db \<Rightarrow> (err + 'a) \<times> db \<Rightarrow> bool" where
  "refines tid spec d res \<longleftrightarrow>
     ((\<exists>x. fst res = Inr x) \<longleftrightarrow> fst (spec (task_phase tid d)))
     \<and> task_phase tid (snd res) = snd (spec (task_phase tid d))
     \<and> (\<forall>u. u \<noteq> tid \<longrightarrow> task_phase u (snd res) = task_phase u d)"

lemma guarded_write_refines:
  assumes wf: "tasks_wf d" and key: "\<And>r. t_id (f r) = t_id r"
    and absent: "spec Absent = (False, Absent)"
    and row: "\<And>r. row_ok r \<Longrightarrow>
      spec (row_phase r) = (if P r then (True, row_phase (f r)) else (False, row_phase r))"
  shows "refines tid spec d (guarded_write tid P f msg d)"
proof -
  note run = guarded_write [OF wf, of f tid P msg, OF key]
  have "task_phase u (snd (guarded_write tid P f msg d)) = task_phase u d" if "u \<noteq> tid" for u
    using that tsks.row_of_Some [of d u]
    by (auto simp: task_phase_def run(2) split: option.split)
  moreover have "((\<exists>x. fst (guarded_write tid P f msg d) = Inr x)
      \<longleftrightarrow> fst (spec (task_phase tid d)))
    \<and> task_phase tid (snd (guarded_write tid P f msg d)) = snd (spec (task_phase tid d))"
  proof (cases "row_of t_id (tasks d) tid")
    case None
    then show ?thesis by (simp add: task_phase_def absent run)
  next
    case (Some r)
    with row [OF task_row_ok [OF wf Some]] tsks.row_of_Some [OF Some] run(2) [of tid]
    show ?thesis by (auto simp: task_phase_def run(1))
  qed
  ultimately show ?thesis by (simp add: refines_def)
qed

lemma tasks_claim_refines:
  assumes "tasks_wf d"
  shows "refines tid (spec_claim lease now p) d (tasks_claim lease now tid p d)"
proof (cases "is_i64 (now + lease)")
  case True
  then have eq: "tasks_claim lease now tid p d = guarded_write tid (claimable now)
      (\<lambda>r. r\<lparr>t_status := ''claimed'', t_claimed_by := Some p,
        t_lease_expires_at := Some (now + lease), t_updated_at := now\<rparr>)
      ''task is already claimed or done'' d"
    by (simp add: writers_guarded add_i64_def act_simps)
  show ?thesis
    unfolding eq
  proof (rule guarded_write_refines [OF assms])
    fix r assume "row_ok r"
    then show "spec_claim lease now p (row_phase r) = (if claimable now r
        then (True, row_phase (r\<lparr>t_status := ''claimed'', t_claimed_by := Some p,
                t_lease_expires_at := Some (now + lease), t_updated_at := now\<rparr>))
        else (False, row_phase r))"
      by (rule row_phase_cases) (simp_all add: spec_claim_def True, simp_all add: row_phase_def)
  qed (simp_all add: spec_claim_def)
next
  case False
  then show ?thesis
    by (simp add: writers_guarded add_i64_def act_simps refines_def spec_claim_def)
qed

lemma tasks_done_refines:
  assumes "tasks_wf d"
  shows "refines tid (spec_done p) d (tasks_done now tid p d)"
  unfolding writers_guarded
proof (rule guarded_write_refines [OF assms])
  fix r assume "row_ok r"
  then show "spec_done p (row_phase r) = (if held_by p r
      then (True, row_phase (r\<lparr>t_status := ''done'', t_updated_at := now\<rparr>))
      else (False, row_phase r))"
    by (rule row_phase_cases) (simp_all add: spec_done_def, simp_all add: row_phase_def)
qed (simp_all add: spec_done_def)

lemma tasks_release_refines:
  assumes "tasks_wf d"
  shows "refines tid (spec_release p) d (tasks_release now tid p d)"
  unfolding writers_guarded
proof (rule guarded_write_refines [OF assms])
  fix r assume "row_ok r"
  then show "spec_release p (row_phase r) = (if held_by p r
      then (True, row_phase (r\<lparr>t_status := ''open'', t_claimed_by := None,
              t_lease_expires_at := None, t_updated_at := now\<rparr>))
      else (False, row_phase r))"
    by (rule row_phase_cases) (simp_all add: spec_release_def, simp_all add: row_phase_def)
qed (simp_all add: spec_release_def)

lemma tasks_create_refines:
  assumes "tasks_wf d"
  shows "refines (''task_'' @ uuid) spec_create d (tasks_create uuid now ch title d)"
proof (cases "''task_'' @ uuid \<in> t_id ` set (tasks d)")
  case True
  then obtain r where r: "row_of t_id (tasks d) (''task_'' @ uuid) = Some r"
    using tsks.row_of_None [of d "''task_'' @ uuid"] by (cases "row_of t_id (tasks d) (''task_'' @ uuid)") auto
  then have "row_phase r \<noteq> Absent" using row_phase_not_Absent task_row_ok [OF assms r] by blast
  then have "spec_create (row_phase r) = (False, row_phase r)"
    by (simp add: spec_create_def split: phase.split)
  with True r show ?thesis
    by (simp add: tasks_create_def act_simps refines_def task_phase_def Let_def)
next
  case False
  then have none: "row_of t_id (tasks d) (''task_'' @ uuid) = None"
    unfolding tsks.row_of_None by (metis imageI)
  show ?thesis
    using False none tsks.row_of_insert [of d]
    by (simp add: tasks_create_def act_simps refines_def task_phase_def Let_def spec_create_def
        row_phase_def)
qed

subsection \<open>Interface: the lease protocol\<close>

text \<open>
  A run of task operations, by any principals and in any order: each is one region under the
  database mutex, so every interleaving of concurrent sessions is such a list.
\<close>

datatype task_op =
    OpCreate string int string string
  | OpClaim int int string string
  | OpDone int string string
  | OpRelease int string string

fun op_task :: "task_op \<Rightarrow> string" where
  "op_task (OpCreate uuid now ch title) = ''task_'' @ uuid"
| "op_task (OpClaim lease now tid p) = tid"
| "op_task (OpDone now tid p) = tid"
| "op_task (OpRelease now tid p) = tid"

fun spec_op :: "task_op \<Rightarrow> phase \<Rightarrow> bool \<times> phase" where
  "spec_op (OpCreate uuid now ch title) = spec_create"
| "spec_op (OpClaim lease now tid p) = spec_claim lease now p"
| "spec_op (OpDone now tid p) = spec_done p"
| "spec_op (OpRelease now tid p) = spec_release p"

definition succeeded :: "(err + 'a) \<times> 's \<Rightarrow> bool \<times> 's" where
  "succeeded r = ((case fst r of Inl _ \<Rightarrow> False | Inr _ \<Rightarrow> True), snd r)"

fun task_step :: "task_op \<Rightarrow> db \<Rightarrow> bool \<times> db" where
  "task_step (OpCreate uuid now ch title) d = succeeded (tasks_create uuid now ch title d)"
| "task_step (OpClaim lease now tid p) d = succeeded (tasks_claim lease now tid p d)"
| "task_step (OpDone now tid p) d = succeeded (tasks_done now tid p d)"
| "task_step (OpRelease now tid p) d = succeeded (tasks_release now tid p d)"

primrec run_ops :: "('o \<Rightarrow> 's \<Rightarrow> bool \<times> 's) \<Rightarrow> 'o list \<Rightarrow> 's \<Rightarrow> bool list \<times> 's" where
  "run_ops step [] d = ([], d)"
| "run_ops step (x # xs) d =
     (let (ok, e) = step x d; (oks, f) = run_ops step xs e in (ok # oks, f))"

text \<open>
  An operation that cannot disturb a lease of \<open>p\<close> on \<open>tid\<close> that runs to \<open>l\<close>: one on
  another task, a claim no later than \<open>l\<close>, or another principal's done or release.
\<close>

fun respects_lease :: "string \<Rightarrow> string \<Rightarrow> int \<Rightarrow> task_op \<Rightarrow> bool" where
  "respects_lease tid p l (OpCreate uuid now ch title) = True"
| "respects_lease tid p l (OpClaim lease now u q) = (u = tid \<longrightarrow> now \<le> l)"
| "respects_lease tid p l (OpDone now u q) = (u = tid \<longrightarrow> q \<noteq> p)"
| "respects_lease tid p l (OpRelease now u q) = (u = tid \<longrightarrow> q \<noteq> p)"

lemma spec_op_Done: "spec_op x Done = (False, Done)"
  by (cases x) (simp_all add: spec_create_def spec_claim_def spec_done_def spec_release_def)

locale lease_protocol =
  fixes inv :: "'s \<Rightarrow> bool"
    and ph :: "string \<Rightarrow> 's \<Rightarrow> phase"
    and step :: "task_op \<Rightarrow> 's \<Rightarrow> bool \<times> 's"
  assumes step_inv: "inv d \<Longrightarrow> inv (snd (step x d))"
    and step_ok: "inv d \<Longrightarrow> fst (step x d) \<longleftrightarrow> fst (spec_op x (ph (op_task x) d))"
    and step_phase: "inv d \<Longrightarrow> ph (op_task x) (snd (step x d)) = snd (spec_op x (ph (op_task x) d))"
    and step_frame: "inv d \<Longrightarrow> u \<noteq> op_task x \<Longrightarrow> ph u (snd (step x d)) = ph u d"
begin

lemma run_inv: "inv d \<Longrightarrow> inv (snd (run_ops step xs d))"
  by (induction xs arbitrary: d) (auto simp: Let_def split_def step_inv)

text \<open>Done is final.\<close>

lemma step_Done: "inv d \<Longrightarrow> ph t d = Done \<Longrightarrow> ph t (snd (step x d)) = Done"
  by (cases "t = op_task x") (auto simp: step_phase step_frame spec_op_Done)

lemma run_Done: "inv d \<Longrightarrow> ph t d = Done \<Longrightarrow> ph t (snd (run_ops step xs d)) = Done"
  by (induction xs arbitrary: d) (auto simp: Let_def split_def step_inv step_Done)

text \<open>A lease holds against every operation that respects it, and the intruders fail.\<close>

lemma step_lease:
  assumes "inv d" "ph t d = Claimed p l" "respects_lease t p l x"
  shows "ph t (snd (step x d)) = Claimed p l"
    and "op_task x = t \<Longrightarrow> \<not> fst (step x d)"
proof -
  have spec: "spec_op x (Claimed p l) = (False, Claimed p l)" if "op_task x = t"
    using assms(3) that
    by (cases x) (auto simp: spec_create_def spec_claim_def spec_done_def spec_release_def)
  then show "op_task x = t \<Longrightarrow> \<not> fst (step x d)"
    using step_ok [OF assms(1), of x] assms(2) by auto
  show "ph t (snd (step x d)) = Claimed p l"
    using step_phase [OF assms(1), of x] step_frame [OF assms(1), of t x] spec assms(2)
    by (cases "op_task x = t") auto
qed

lemma run_lease:
  assumes "inv d" "ph t d = Claimed p l" "\<forall>x \<in> set xs. respects_lease t p l x"
  shows "ph t (snd (run_ops step xs d)) = Claimed p l"
    and "\<forall>(x, ok) \<in> set (zip xs (fst (run_ops step xs d))). op_task x = t \<longrightarrow> \<not> ok"
proof -
  have "ph t (snd (run_ops step xs d)) = Claimed p l
      \<and> (\<forall>(x, ok) \<in> set (zip xs (fst (run_ops step xs d))). op_task x = t \<longrightarrow> \<not> ok)"
    using assms
  proof (induction xs arbitrary: d)
    case Nil
    then show ?case by simp
  next
    case (Cons x xs)
    then have x: "respects_lease t p l x" by simp
    note s = step_lease [OF Cons.prems(1,2) x]
    from Cons.IH [OF step_inv [OF Cons.prems(1)] s(1)] Cons.prems(3) s(2)
    show ?case by (auto simp: Let_def split_def)
  qed
  then show "ph t (snd (run_ops step xs d)) = Claimed p l"
      "\<forall>(x, ok) \<in> set (zip xs (fst (run_ops step xs d))). op_task x = t \<longrightarrow> \<not> ok"
    by blast+
qed

text \<open>Of racing claims on an open task, made before the first one's lease ends, the first wins.\<close>

lemma race:
  assumes "inv d" "ph t d = Open" "is_i64 (now + lease)" "0 \<le> lease"
    and "\<forall>(n, q) \<in> set cs. n \<le> now + lease"
  shows "run_ops step (OpClaim lease now t p # map (\<lambda>(n, q). OpClaim lease n t q) cs) d
       = (True # replicate (length cs) False,
          snd (run_ops step (OpClaim lease now t p # map (\<lambda>(n, q). OpClaim lease n t q) cs) d))"
    and "ph t (snd (run_ops step (OpClaim lease now t p # map (\<lambda>(n, q). OpClaim lease n t q) cs) d))
       = Claimed p (now + lease)"
proof -
  let ?x = "OpClaim lease now t p" and ?xs = "map (\<lambda>(n, q). OpClaim lease n t q) cs"
  have ok: "fst (step ?x d)" and ph1: "ph t (snd (step ?x d)) = Claimed p (now + lease)"
    using step_ok [OF assms(1), of ?x] step_phase [OF assms(1), of ?x] assms(2,3)
    by (simp_all add: spec_claim_def)
  have "\<forall>x \<in> set ?xs. respects_lease t p (now + lease) x" using assms(5) by auto
  note rl = run_lease [OF step_inv [OF assms(1)] ph1 this]
  have len: "length (fst (run_ops step xs e)) = length xs" for xs e
    by (induction xs arbitrary: e) (auto simp: Let_def split_def)
  have "\<forall>ok \<in> set (fst (run_ops step ?xs (snd (step ?x d)))). \<not> ok"
  proof
    fix ok assume "ok \<in> set (fst (run_ops step ?xs (snd (step ?x d))))"
    then obtain i where i: "i < length ?xs" "fst (run_ops step ?xs (snd (step ?x d))) ! i = ok"
      by (auto simp: in_set_conv_nth len)
    then have "(?xs ! i, ok) \<in> set (zip ?xs (fst (run_ops step ?xs (snd (step ?x d)))))"
      by (auto simp: set_zip len intro!: exI [of _ i])
    with rl(2) have "op_task (?xs ! i) = t \<longrightarrow> \<not> ok" by blast
    then show "\<not> ok" using i(1) by (simp add: split_def)
  qed
  then have "fst (run_ops step ?xs (snd (step ?x d))) = replicate (length cs) False"
    using len [of ?xs] by (intro replicate_eqI) auto
  with ok show "run_ops step (?x # ?xs) d
      = (True # replicate (length cs) False, snd (run_ops step (?x # ?xs) d))"
    by (simp add: Let_def split_def)
  show "ph t (snd (run_ops step (?x # ?xs) d)) = Claimed p (now + lease)"
    using rl(1) by (simp add: Let_def split_def)
qed

end

lemma task_step_refines:
  assumes "tasks_wf d"
  shows "fst (task_step x d) \<longleftrightarrow> fst (spec_op x (task_phase (op_task x) d))"
    and "task_phase (op_task x) (snd (task_step x d)) = snd (spec_op x (task_phase (op_task x) d))"
    and "u \<noteq> op_task x \<Longrightarrow> task_phase u (snd (task_step x d)) = task_phase u d"
proof -
  have s: "fst (succeeded r) \<longleftrightarrow> (\<exists>y. fst r = Inr y)" "snd (succeeded r) = snd r"
    for r :: "(err + 'b) \<times> db"
    by (auto simp: succeeded_def split: sum.splits)
  show "fst (task_step x d) \<longleftrightarrow> fst (spec_op x (task_phase (op_task x) d))"
    "task_phase (op_task x) (snd (task_step x d)) = snd (spec_op x (task_phase (op_task x) d))"
    "u \<noteq> op_task x \<Longrightarrow> task_phase u (snd (task_step x d)) = task_phase u d"
    using tasks_create_refines [OF assms] tasks_claim_refines [OF assms]
      tasks_done_refines [OF assms] tasks_release_refines [OF assms]
    by (cases x; simp add: refines_def s del: append.simps)+
qed

lemma task_step_wf: "tasks_wf d \<Longrightarrow> tasks_wf (snd (task_step x d))"
  using keeps_tasks_create keeps_tasks_claim keeps_tasks_done keeps_tasks_release
  by (cases x) (auto simp: succeeded_def keeps_def)

interpretation lease: lease_protocol tasks_wf task_phase task_step
  by unfold_locales (auto simp: task_step_refines task_step_wf)

end
