(* ===== verification/Auth.thy ===== *)
theory Auth
  imports Store
begin

section \<open>Authentication (src/src/auth.rs)\<close>

text \<open>
  \<open>AuthStore\<close>: a token of the new format is looked up by its public id and its secret is
  verified against the stored hash; anything not accepted there is tried as a legacy
  plaintext token. The counter \<open>legacy_hits\<close> is an \<open>AtomicU64\<close>, a \<open>64 word\<close>; it is
  the only state an authentication changes.
\<close>

record principal =
  pr_id :: string
  pr_nick :: string
  pr_team :: "string option"

type_synonym u64 = "64 word"

text \<open>The row of the new path's query: token row joined with its principal.\<close>

definition token_join :: "string \<Rightarrow> db \<Rightarrow> (principal_row \<times> token_row) list" where
  "token_join token_id d =
     concat (map (\<lambda>t. map (\<lambda>p. (p, t)) (filter (\<lambda>p. p_id p = k_principal_id t) (principals d)))
       (filter (\<lambda>t. k_token_id t = token_id \<and> k_revoked_at t = None) (principal_tokens d)))"

definition principal_of_row :: "principal_row \<Rightarrow> principal" where
  "principal_of_row p = \<lparr>pr_id = p_id p, pr_nick = p_nick p, pr_team = p_team p\<rparr>"

definition authenticate_new :: "crypto \<Rightarrow> string \<Rightarrow> string \<Rightarrow> db \<Rightarrow> err + principal option" where
  "authenticate_new cr token_id secret d =
     (case query_row (token_join token_id d) of
        None \<Rightarrow> Inr None
      | Some (p, t) \<Rightarrow>
          (case token_verify cr secret (k_token_hash t) of
             Inl e \<Rightarrow> Inl e
           | Inr True \<Rightarrow> Inr (Some (principal_of_row p))
           | Inr False \<Rightarrow> Inr None))"

definition authenticate_legacy :: "string \<Rightarrow> db \<Rightarrow> err + principal" where
  "authenticate_legacy token d =
     (case row_of p_token (principals d) token of
        None \<Rightarrow> Inl (Anyhow ''invalid token'')
      | Some p \<Rightarrow> Inr (principal_of_row p))"

text \<open>
  \<open>fetch_add(1)\<close> wraps around; the total for the log line is computed with \<open>+ 1\<close>, which
  panics in the development profile when the old count was the largest \<open>u64\<close>.
\<close>

definition legacy_hit :: "principal \<Rightarrow> u64 \<Rightarrow> (err + principal) \<times> u64" where
  "legacy_hit p hits =
     ((if hits = - 1 then Inl (Panic ''attempt to add with overflow'') else Inr p), hits + 1)"

definition authenticate :: "crypto \<Rightarrow> string \<Rightarrow> db \<Rightarrow> u64 \<Rightarrow> (err + principal) \<times> u64" where
  "authenticate cr token d hits =
     (let legacy = (case authenticate_legacy token d of
                      Inl e \<Rightarrow> (Inl e, hits)
                    | Inr p \<Rightarrow> legacy_hit p hits) in
      case token_parse token of
        None \<Rightarrow> legacy
      | Some (token_id, secret) \<Rightarrow>
          (case authenticate_new cr token_id secret d of
             Inl e \<Rightarrow> (Inl e, hits)
           | Inr (Some p) \<Rightarrow> (Inr p, hits)
           | Inr None \<Rightarrow> legacy))"

definition legacy_hit_count :: "u64 \<Rightarrow> u64" where
  "legacy_hit_count hits = hits"

subsection \<open>Who is accepted\<close>

interpretation princ_tok: keyed_table p_token principals "\<lambda>rs d. d\<lparr>principals := rs\<rparr>"
  by unfold_locales simp_all

text \<open>The two grounds on which a token stands for a principal.\<close>

definition new_ground :: "crypto \<Rightarrow> string \<Rightarrow> db \<Rightarrow> principal_row \<Rightarrow> bool" where
  "new_ground cr token d p \<longleftrightarrow>
     (\<exists>token_id secret. \<exists>t \<in> set (principal_tokens d).
        token = TOKEN_PREFIX @ token_id @ ''_'' @ secret \<and> k_token_id t = token_id
        \<and> k_revoked_at t = None \<and> k_principal_id t = p_id p
        \<and> token_verify cr secret (k_token_hash t) = Inr True)"

lemma token_join_in:
  "(p, t) \<in> set (token_join i d) \<longleftrightarrow> p \<in> set (principals d) \<and> t \<in> set (principal_tokens d)
     \<and> p_id p = k_principal_id t \<and> k_token_id t = i \<and> k_revoked_at t = None"
  by (auto simp: token_join_def)

lemma query_row_in: "query_row xs = Some x \<Longrightarrow> x \<in> set xs"
  by (auto simp: query_row_def split: list.splits)

lemma authenticate_new_Some:
  assumes "authenticate_new cr i s d = Inr (Some pr)"
  obtains p t where "p \<in> set (principals d)" "t \<in> set (principal_tokens d)" "pr = principal_of_row p"
    "p_id p = k_principal_id t" "k_token_id t = i" "k_revoked_at t = None"
    "token_verify cr s (k_token_hash t) = Inr True"
proof -
  from assms obtain p t where q: "query_row (token_join i d) = Some (p, t)"
      and "pr = principal_of_row p" "token_verify cr s (k_token_hash t) = Inr True"
    by (auto simp: authenticate_new_def split: option.splits sum.splits bool.splits)
  with query_row_in [OF q] show ?thesis by (intro that [of p t]) (auto simp: token_join_in)
qed

lemma authenticate_legacy_Inr:
  "authenticate_legacy token d = Inr pr \<Longrightarrow>
   \<exists>p \<in> set (principals d). pr = principal_of_row p \<and> p_token p = token"
  by (auto simp: authenticate_legacy_def dest: princ_tok.row_of_Some split: option.splits)

lemma authenticate_sound:
  assumes "authenticate cr token d hits = (Inr pr, hits')"
  shows "\<exists>p \<in> set (principals d). pr = principal_of_row p
           \<and> (new_ground cr token d p \<and> hits' = hits \<or> p_token p = token \<and> hits' = hits + 1)"
proof (cases "\<exists>i s. token_parse token = Some (i, s) \<and> authenticate_new cr i s d = Inr (Some pr)
    \<and> hits' = hits")
  case True
  then obtain i s where tp: "token_parse token = Some (i, s)"
      and an: "authenticate_new cr i s d = Inr (Some pr)" and h: "hits' = hits" by blast
  from an show ?thesis
  proof (rule authenticate_new_Some)
    fix p t
    assume "p \<in> set (principals d)" "t \<in> set (principal_tokens d)" "pr = principal_of_row p"
      "p_id p = k_principal_id t" "k_token_id t = i" "k_revoked_at t = None"
      "token_verify cr s (k_token_hash t) = Inr True"
    moreover from this tp have "new_ground cr token d p"
      unfolding new_ground_def token_parse_Some by metis
    ultimately show ?thesis using h by blast
  qed
next
  case False
  with assms have "authenticate_legacy token d = Inr pr \<and> hits' = hits + 1"
    by (auto simp: authenticate_def legacy_hit_def Let_def
        split: option.splits sum.splits if_splits prod.splits)
  then show ?thesis using authenticate_legacy_Inr by blast
qed

text \<open>The counter moves by one exactly when the legacy lookup is what decides.\<close>

lemma authenticate_hits:
  assumes "authenticate cr token d hits = (r, hits')"
  shows "hits' = hits \<or> hits' = hits + 1 \<and> (\<exists>pr. authenticate_legacy token d = Inr pr)"
  using assms
  by (auto simp: authenticate_def legacy_hit_def Let_def
      split: option.splits sum.splits if_splits prod.splits)

lemma authenticate_unknown:
  assumes "token_parse token = None" "token \<notin> p_token ` set (principals d)"
  shows "authenticate cr token d hits = (Inl (Anyhow ''invalid token''), hits)"
proof -
  have "row_of p_token (principals d) token = None"
    unfolding princ_tok.row_of_None using assms(2) by blast
  with assms(1) show ?thesis by (simp add: authenticate_def authenticate_legacy_def)
qed

subsection \<open>The new path accepts what was issued and refuses what was revoked\<close>

lemma token_join_unique:
  assumes "principals_wf d" "t \<in> set (principal_tokens d)" "k_revoked_at t = None"
  shows "\<exists>p. token_join (k_token_id t) d = [(p, t)] \<and> p_id p = k_principal_id t"
proof -
  have kt: "keyed k_token_id (principal_tokens d)" and kp: "keyed p_id (principals d)"
    using assms(1) by (simp_all add: principals_wf_def)
  have "filter (\<lambda>x. k_token_id x = k_token_id t \<and> k_revoked_at x = None) (principal_tokens d)
      = filter (\<lambda>x. k_revoked_at x = None)
          (filter (\<lambda>x. k_token_id x = k_token_id t) (principal_tokens d))"
    by (simp add: conj_commute)
  also have "\<dots> = [t]" using toks.filter_key [OF kt assms(2)] assms(3) by simp
  finally have ft: "filter (\<lambda>x. k_token_id x = k_token_id t \<and> k_revoked_at x = None)
      (principal_tokens d) = [t]" .
  have "k_principal_id t \<in> p_id ` set (principals d)"
    using assms(1,2) by (auto simp: principals_wf_def)
  then obtain p where p: "p \<in> set (principals d)" "p_id p = k_principal_id t" by force
  have "filter (\<lambda>x. p_id x = k_principal_id t) (principals d) = [p]"
    using princ.filter_key [OF kp p(1)] p(2) by simp
  with ft p(2) show ?thesis by (simp add: token_join_def)
qed

lemma authenticate_issued:
  assumes wf: "principals_wf d" and ok: "crypto_ok cr"
    and len: "length ib = TOKEN_ID_BYTES" "length sb = SECRET_BYTES"
    and gen: "token_generate ib sb = (full, token_id, secret)"
    and hash: "token_hash cr salt secret = Inr h"
    and t: "t \<in> set (principal_tokens d)" "k_token_id t = token_id" "k_token_hash t = h"
      "k_revoked_at t = None"
  shows "\<exists>p \<in> set (principals d). p_id p = k_principal_id t
           \<and> authenticate cr full d hits = (Inr (principal_of_row p), hits)"
proof -
  obtain p where j: "token_join (k_token_id t) d = [(p, t)]" "p_id p = k_principal_id t"
    using token_join_unique [OF wf t(1,4)] by blast
  have "(p, t) \<in> set (token_join (k_token_id t) d)" using j(1) by simp
  then have p: "p \<in> set (principals d)" by (simp add: token_join_in)
  have "authenticate_new cr token_id secret d = Inr (Some (principal_of_row p))"
    using j(1) t(2,3) token_hash_verify [OF ok hash]
    by (simp add: authenticate_new_def query_row_def)
  with token_parse_generate [OF len gen] p j(2) show ?thesis
    by (auto simp: authenticate_def)
qed

text \<open>A revoked row never authenticates: only the legacy column can then accept the text.\<close>

lemma authenticate_revoked:
  assumes wf: "principals_wf d" and t: "t \<in> set (principal_tokens d)" "k_revoked_at t \<noteq> None"
    and parse: "token_parse token = Some (k_token_id t, secret)"
    and legacy: "token \<notin> p_token ` set (principals d)"
  shows "authenticate cr token d hits = (Inl (Anyhow ''invalid token''), hits)"
proof -
  have kt: "keyed k_token_id (principal_tokens d)" using wf by (simp add: principals_wf_def)
  have "token_join (k_token_id t) d = []"
  proof (rule ccontr)
    assume "token_join (k_token_id t) d \<noteq> []"
    then obtain p u where "(p, u) \<in> set (token_join (k_token_id t) d)"
      by (cases "token_join (k_token_id t) d") auto
    then have u: "u \<in> set (principal_tokens d)" "k_token_id u = k_token_id t" "k_revoked_at u = None"
      by (auto simp: token_join_in)
    with kt t(1) have "u = t" by (auto simp: keyed_def distinct_map dest: inj_onD)
    with u(3) t(2) show False by simp
  qed
  moreover have "row_of p_token (principals d) token = None"
    unfolding princ_tok.row_of_None using legacy by blast
  ultimately show ?thesis using parse
    by (simp add: authenticate_def authenticate_new_def query_row_def authenticate_legacy_def)
qed

subsection \<open>Plaintext tokens, and wrong secrets\<close>

lemma authenticate_plain:
  assumes "principals_wf d" "(pid, nick, token, team) \<in> static ` set (principals d)"
    and "token_parse token = None" "hits \<noteq> - 1"
  shows "authenticate cr token d hits = (Inr \<lparr>pr_id = pid, pr_nick = nick, pr_team = team\<rparr>, hits + 1)"
proof -
  from assms(2) obtain p where p: "p \<in> set (principals d)" "static p = (pid, nick, token, team)" by force
  then have "row_of p_token (principals d) token = Some p"
    using assms(1) princ_tok.row_of_eq [where d = d and k = token and r = p] by (auto simp: static_def principals_wf_def)
  with p assms(3,4) show ?thesis
    by (simp add: authenticate_def authenticate_legacy_def legacy_hit_def principal_of_row_def static_def)
qed

lemma authenticate_wrong_secret:
  assumes wf: "principals_wf d" and t: "t \<in> set (principal_tokens d)" "k_revoked_at t = None"
    and parse: "token_parse token = Some (k_token_id t, s')" and no: "token_verify cr s' (k_token_hash t) = Inr False"
    and legacy: "token \<notin> p_token ` set (principals d)"
  shows "authenticate cr token d hits = (Inl (Anyhow ''invalid token''), hits)"
proof -
  obtain p where "token_join (k_token_id t) d = [(p, t)]" using token_join_unique [OF wf t] by blast
  moreover have "row_of p_token (principals d) token = None"
    unfolding princ_tok.row_of_None using legacy by blast
  ultimately show ?thesis
    using parse no by (simp add: authenticate_def authenticate_new_def query_row_def authenticate_legacy_def)
qed

end
