(* ===== verification/Server.thy ===== *)
theory Server
  imports Wire Protocol Membership Tasks Auth
begin

section \<open>The server (src/src/server.rs)\<close>

text \<open>
  \<open>Server\<close> with its in-memory tables, the sessions, and every command handler. The state
  of a handler is a \<open>server\<close>; a session is passed in and, where the code mutates it,
  returned. An mpsc channel is its list of sent lines, the number the receiver took, and
  whether the receiver is alive; connection \<open>n\<close> owns the channels \<open>outs n\<close>
  (\<open>tx\<close>) and \<open>shuts n\<close> (\<open>shutdown_tx\<close>). The clock and the UUIDs are
  \<open>inputs\<close>. A \<open>HashSet\<close> of members is a list without repetition; that the
  order in which Rust iterates over it does not matter is a theorem of theory Delivery.
\<close>

subsection \<open>State\<close>

record mpsc =
  q_sent :: "string list"
  q_taken :: nat
  q_open :: bool

definition new_mpsc :: mpsc where
  "new_mpsc = \<lparr>q_sent = [], q_taken = 0, q_open = True\<rparr>"

record client_handle =
  h_session_id :: string
  h_tx :: nat
  h_shutdown_tx :: nat

record server_inner =
  clients :: "string \<rightharpoonup> client_handle"
  channels :: "string \<rightharpoonup> string list"

record session =
  s_session_id :: string
  s_principal :: "principal option"
  s_nick :: "string option"
  s_pass_token :: "string option"
  s_registered :: bool
  s_tx :: nat
  s_shutdown_tx :: nat

record server =
  sv_db :: db
  sv_legacy_hits :: u64
  sv_lease_seconds :: int
  sv_inner :: server_inner
  outs :: "nat \<Rightarrow> mpsc"
  shuts :: "nat \<Rightarrow> mpsc"

text \<open>
  What a handler draws: the clock and UUID of its own store operation, and those of the
  message it appends to the history.
\<close>

record inputs =
  i_now :: int
  i_uuid :: string
  i_log_now :: int
  i_log_uuid :: string

definition METADATA_CAPABILITIES :: "string list" where
  "METADATA_CAPABILITIES = [''message-tags'']"

text \<open>\<open>AIRCD_TASK_LEASE_SECONDS\<close>: a positive \<open>i64\<close>, else 300.\<close>

definition lease_from_env :: "string option \<Rightarrow> int" where
  "lease_from_env env =
     (case Option.bind env parse_i64 of
        Some v \<Rightarrow> if 0 < v then v else 300
      | None \<Rightarrow> 300)"

definition server_new :: "string option \<Rightarrow> db \<Rightarrow> server" where
  "server_new lease_env d =
     \<lparr>sv_db = d, sv_legacy_hits = 0, sv_lease_seconds = lease_from_env lease_env,
      sv_inner = \<lparr>clients = Map.empty, channels = Map.empty\<rparr>,
      outs = (\<lambda>_. new_mpsc), shuts = (\<lambda>_. new_mpsc)\<rparr>"

subsection \<open>Queues and locks\<close>

text \<open>\<open>UnboundedSender::send\<close>: fails when the receiver is gone.\<close>

definition mpsc_send :: "string \<Rightarrow> mpsc \<Rightarrow> mpsc" where
  "mpsc_send line q = (if q_open q then q\<lparr>q_sent := q_sent q @ [line]\<rparr> else q)"

definition send_out :: "nat \<Rightarrow> string \<Rightarrow> (server, bool) act" where
  "send_out n line =
     and_then (reads (\<lambda>sv. q_open (outs sv n))) (\<lambda>ok.
     and_then (modify (\<lambda>sv. sv\<lparr>outs := (outs sv)(n := mpsc_send line (outs sv n))\<rparr>)) (\<lambda>_. ret ok))"

definition send_shutdown :: "nat \<Rightarrow> string \<Rightarrow> (server, bool) act" where
  "send_shutdown n reason =
     and_then (reads (\<lambda>sv. q_open (shuts sv n))) (\<lambda>ok.
     and_then (modify (\<lambda>sv. sv\<lparr>shuts := (shuts sv)(n := mpsc_send reason (shuts sv n))\<rparr>)) (\<lambda>_. ret ok))"

definition session_send :: "session \<Rightarrow> string \<Rightarrow> (server, unit) act" where
  "session_send se line = and_then (send_out (s_tx se) line) (\<lambda>_. ret ())"

definition session_principal :: "session \<Rightarrow> err + principal" where
  "session_principal se =
     (case s_principal se of
        Some p \<Rightarrow> Inr p
      | None \<Rightarrow> Inl (Anyhow ''session has no principal''))"

text \<open>A region under the database mutex.\<close>

definition on_db :: "(db, 'a) act \<Rightarrow> (server, 'a) act" where
  "on_db m sv = (case m (sv_db sv) of (r, d) \<Rightarrow> (r, sv\<lparr>sv_db := d\<rparr>))"

definition on_inner :: "(server_inner \<Rightarrow> server_inner) \<Rightarrow> (server, unit) act" where
  "on_inner f = modify (\<lambda>sv. sv\<lparr>sv_inner := f (sv_inner sv)\<rparr>)"

text \<open>\<open>channels.entry(c).or_default().insert(id)\<close> and \<open>get_mut(c)\<close> with \<open>remove(id)\<close>.\<close>

definition channel_insert :: "string \<Rightarrow> string \<Rightarrow> server_inner \<Rightarrow> server_inner" where
  "channel_insert c pid i =
     (let members = (case channels i c of None \<Rightarrow> [] | Some ms \<Rightarrow> ms) in
      i\<lparr>channels := (channels i)(c \<mapsto> (if pid \<in> set members then members else members @ [pid]))\<rparr>)"

definition channel_remove :: "string \<Rightarrow> string \<Rightarrow> server_inner \<Rightarrow> server_inner" where
  "channel_remove c pid i =
     (case channels i c of
        None \<Rightarrow> i
      | Some ms \<Rightarrow> i\<lparr>channels := (channels i)(c \<mapsto> filter (\<lambda>m. m \<noteq> pid) ms)\<rparr>)"

subsection \<open>Recipients and broadcast\<close>

definition recipients_with_ids :: "string \<Rightarrow> server_inner \<Rightarrow> (string \<times> client_handle) list" where
  "recipients_with_ids channel i =
     (case channels i channel of
        None \<Rightarrow> []
      | Some ms \<Rightarrow> List.map_filter (\<lambda>pid. map_option (Pair pid) (clients i pid)) ms)"

definition recipients :: "string \<Rightarrow> server_inner \<Rightarrow> client_handle list" where
  "recipients channel i = map snd (recipients_with_ids channel i)"

definition broadcast_raw :: "string \<Rightarrow> string \<Rightarrow> (server, unit) act" where
  "broadcast_raw channel line =
     and_then (reads (\<lambda>sv. recipients channel (sv_inner sv))) (\<lambda>rs.
       for_each rs (\<lambda>h. and_then (send_out (h_tx h) line) (\<lambda>_. ret ())))"

text \<open>The body of the loop of \<open>broadcast_message\<close>: only a queued line counts as seen.\<close>

definition deliver :: "string \<Rightarrow> string \<Rightarrow> int \<Rightarrow> string \<times> client_handle \<Rightarrow> (server, unit) act" where
  "deliver channel line seq r =
     and_then (send_out (h_tx (snd r)) line) (\<lambda>ok.
       if ok then on_db (modify (mark_seen (fst r) channel seq)) else ret ())"

definition broadcast_message :: "string \<Rightarrow> string \<Rightarrow> int \<Rightarrow> (server, unit) act" where
  "broadcast_message channel line seq =
     and_then (reads (\<lambda>sv. recipients_with_ids channel (sv_inner sv))) (\<lambda>rs.
       for_each rs (deliver channel line seq))"

definition task_event_tags ::
    "stored_message \<Rightarrow> task \<Rightarrow> string \<Rightarrow> string \<Rightarrow> string \<Rightarrow> (string \<times> string) list" where
  "task_event_tags m t action status actor =
     [(''seq'', show_int (sm_seq m)), (''msg-id'', sm_msg_id m),
      (''time'', show_int (sm_created_at m)), (''task-id'', t_id t), (''task-action'', action),
      (''task-status'', status), (''task-actor'', actor)]
     @ (if t_title t \<noteq> [] then [(''task-title'', t_title t)] else [])"

definition broadcast_task_event ::
    "inputs \<Rightarrow> task \<Rightarrow> string \<Rightarrow> string \<Rightarrow> string \<Rightarrow> string \<Rightarrow> (server, unit) act" where
  "broadcast_task_event inp t action status actor body =
     and_then (on_db (history_append (i_log_uuid inp) (i_log_now inp) (t_channel t) SERVER_NAME body))
       (\<lambda>m. broadcast_message (t_channel t)
          (format_message_tags (task_event_tags m t action status actor)
             @ '' :'' @ SERVER_NAME @ '' NOTICE '' @ t_channel t @ '' :'' @ body)
          (sm_seq m))"

subsection \<open>Registration, capabilities, replay\<close>

definition cap :: "session \<Rightarrow> string \<Rightarrow> string list \<Rightarrow> (server, unit) act" where
  "cap se subcommand requested =
     (let nick = (case s_nick se of Some n \<Rightarrow> n | None \<Rightarrow> ''*'');
          advertised = join '' '' METADATA_CAPABILITIES;
          reply = (\<lambda>s. session_send se ('':'' @ SERVER_NAME @ s))
      in
      if subcommand = ''LS'' then reply ('' CAP '' @ nick @ '' LS :'' @ advertised)
      else if subcommand = ''LIST'' then reply ('' CAP '' @ nick @ '' LIST :'' @ advertised)
      else if subcommand = ''REQ'' then
        reply ('' CAP '' @ nick
          @ (if \<forall>c \<in> set requested. c \<in> set METADATA_CAPABILITIES then '' ACK '' else '' NAK '')
          @ '':'' @ join '' '' requested)
      else if subcommand = ''END'' then ret ()
      else reply ('' 410 '' @ nick @ '' '' @ subcommand @ '' :Invalid CAP command''))"

definition privmsg_line :: "string \<Rightarrow> string \<Rightarrow> string \<Rightarrow> string \<Rightarrow> string" where
  "privmsg_line tags sender channel body =
     tags @ '' :'' @ sender @ '' PRIVMSG '' @ channel @ '' :'' @ body"

text \<open>
  The inner loop of \<open>replay_history\<close> only sends, the running maximum is a fold over the
  messages read.
\<close>

definition replay_message :: "session \<Rightarrow> stored_message \<Rightarrow> (server, unit) act" where
  "replay_message se m =
     and_then (reads (\<lambda>sv. display_name SERVER_NAME (sm_sender_id m) (sv_db sv))) (\<lambda>sender.
       session_send se
         (privmsg_line (metadata_tags (sm_seq m) (sm_msg_id m) (sm_created_at m) True)
            sender (sm_channel m) (sm_body m)))"

definition replay_channel :: "session \<Rightarrow> string \<Rightarrow> int \<Rightarrow> int \<Rightarrow> string \<Rightarrow> (server, unit) act" where
  "replay_channel se pid after_seq limit channel =
     and_then (reads (\<lambda>sv. history_after channel after_seq limit (sv_db sv))) (\<lambda>ms.
     and_then (for_each ms (replay_message se)) (\<lambda>_.
       let channel_max_seq = fold (\<lambda>m x. max x (sm_seq m)) ms after_seq in
       if channel_max_seq > after_seq then on_db (modify (mark_seen pid channel channel_max_seq))
       else ret ()))"

definition replay_history :: "session \<Rightarrow> string list \<Rightarrow> int \<Rightarrow> int \<Rightarrow> (server, unit) act" where
  "replay_history se cs after_seq limit =
     and_then (lift_res (session_principal se)) (\<lambda>p.
       for_each cs (replay_channel se (pr_id p) after_seq limit))"

definition welcome_line :: "principal \<Rightarrow> string" where
  "welcome_line p =
     '':'' @ SERVER_NAME @ '' 001 '' @ pr_nick p @ '' :Welcome to aircd, '' @ pr_nick p
     @ (case pr_team p of Some team \<Rightarrow> '' ('' @ team @ '')'' | None \<Rightarrow> [])"

definition replaced_reason :: "string \<Rightarrow> string" where
  "replaced_reason pid = ''Replaced by a newer session for '' @ pid"

definition replay_notice :: "principal \<Rightarrow> nat \<Rightarrow> string" where
  "replay_notice p n =
     '':'' @ SERVER_NAME @ '' NOTICE '' @ pr_nick p @ '' :Replaying missed messages for ''
     @ show_int (int n) @ '' channel(s)''"

definition handle_of :: "session \<Rightarrow> client_handle" where
  "handle_of se = \<lparr>h_session_id = s_session_id se, h_tx = s_tx se, h_shutdown_tx = s_shutdown_tx se\<rparr>"

text \<open>The block of \<open>try_register\<close> that holds the lock of \<open>inner\<close>.\<close>

definition take_over :: "principal \<Rightarrow> session \<Rightarrow> string list \<Rightarrow> (server, unit) act" where
  "take_over p se cs =
     and_then (reads (\<lambda>sv. clients (sv_inner sv) (pr_id p))) (\<lambda>old.
     and_then (on_inner (\<lambda>i. i\<lparr>clients := (clients i)(pr_id p \<mapsto> handle_of se)\<rparr>)) (\<lambda>_.
     and_then (case old of
                 Some h \<Rightarrow> and_then (send_shutdown (h_shutdown_tx h) (replaced_reason (pr_id p))) (\<lambda>_. ret ())
               | None \<Rightarrow> ret ()) (\<lambda>_.
       for_each cs (\<lambda>c. on_inner (channel_insert c (pr_id p))))))"

definition replay_missed :: "session \<Rightarrow> membership \<Rightarrow> (server, unit) act" where
  "replay_missed se mb = replay_history se [mb_channel mb] (mb_last_seen_seq mb) 200"

text \<open>\<open>try_register\<close> after the token was accepted.\<close>

definition register :: "inputs \<Rightarrow> principal \<Rightarrow> session \<Rightarrow> (server, session) act" where
  "register inp p se0 =
     (let se = se0\<lparr>s_nick := Some (pr_nick p), s_principal := Some p, s_registered := True\<rparr> in
      and_then (on_db (mark_connected_and_memberships (i_now inp) (pr_id p))) (\<lambda>ms.
        let cs = map mb_channel ms in
        and_then (take_over p se cs) (\<lambda>_.
        and_then (session_send se (welcome_line p)) (\<lambda>_.
        and_then (for_each cs (\<lambda>c. session_send se ('':'' @ pr_nick p @ '' JOIN '' @ c))) (\<lambda>_.
        and_then (if ms \<noteq> [] then
                    and_then (session_send se (replay_notice p (length ms)))
                      (\<lambda>_. for_each ms (replay_missed se))
                  else ret ())
          (\<lambda>_. ret se))))))"

text \<open>
  \<open>try_register\<close>: an \<open>Err\<close> of \<open>authenticate\<close> is answered, a panic is not caught.
\<close>

definition run_authenticate :: "crypto \<Rightarrow> string \<Rightarrow> (server, err + principal) act" where
  "run_authenticate cr token sv =
     (case authenticate cr token (sv_db sv) (sv_legacy_hits sv) of
        (Inl (Panic m), hits) \<Rightarrow> (Inl (Panic m), sv\<lparr>sv_legacy_hits := hits\<rparr>)
      | (r, hits) \<Rightarrow> (Inr r, sv\<lparr>sv_legacy_hits := hits\<rparr>))"

definition try_register :: "crypto \<Rightarrow> inputs \<Rightarrow> session \<Rightarrow> (server, session) act" where
  "try_register cr inp se =
     (if s_registered se then ret se
      else
        (case s_pass_token se of
           None \<Rightarrow> ret se
         | Some token \<Rightarrow>
             if s_nick se = None then ret se
             else
               and_then (run_authenticate cr token) (\<lambda>r.
                 case r of
                   Inl e \<Rightarrow>
                     and_then (session_send se ('':'' @ SERVER_NAME @ '' 464 * :Password incorrect''))
                       (\<lambda>_. ret se)
                 | Inr p \<Rightarrow> register inp p se)))"

subsection \<open>Channels and messages\<close>

definition join_channel :: "inputs \<Rightarrow> session \<Rightarrow> string \<Rightarrow> (server, unit) act" where
  "join_channel inp se channel =
     and_then (lift_res (session_principal se)) (\<lambda>p.
     and_then (on_db (modify (add_membership (i_now inp) (pr_id p) channel))) (\<lambda>_.
     and_then (on_inner (channel_insert channel (pr_id p))) (\<lambda>_.
       broadcast_raw channel ('':'' @ pr_nick p @ '' JOIN '' @ channel))))"

definition part_channel :: "session \<Rightarrow> string \<Rightarrow> (server, unit) act" where
  "part_channel se channel =
     and_then (lift_res (session_principal se)) (\<lambda>p.
     and_then (on_db (modify (remove_membership (pr_id p) channel))) (\<lambda>_.
     and_then (on_inner (channel_remove channel (pr_id p))) (\<lambda>_.
       broadcast_raw channel ('':'' @ pr_nick p @ '' PART '' @ channel))))"

definition privmsg :: "inputs \<Rightarrow> session \<Rightarrow> string \<Rightarrow> string \<Rightarrow> (server, unit) act" where
  "privmsg inp se channel body =
     and_then (lift_res (session_principal se)) (\<lambda>p.
     and_then (reads (\<lambda>sv. is_member (pr_id p) channel (sv_db sv))) (\<lambda>member.
       if \<not> member then
         session_send se ('':'' @ SERVER_NAME @ '' 442 '' @ pr_nick p @ '' '' @ channel
           @ '' :You'' @ [CHR 0x27] @ ''re not on that channel'')
       else
         and_then (on_db (history_append (i_log_uuid inp) (i_log_now inp) channel (pr_id p) body))
           (\<lambda>m. broadcast_message channel
              (privmsg_line (metadata_tags (sm_seq m) (sm_msg_id m) (sm_created_at m) False)
                 (pr_nick p) channel body)
              (sm_seq m))))"

subsection \<open>Tasks\<close>

definition task_create :: "inputs \<Rightarrow> session \<Rightarrow> string \<Rightarrow> string \<Rightarrow> (server, unit) act" where
  "task_create inp se channel title =
     and_then (lift_res (session_principal se)) (\<lambda>p.
       if trim title = [] then
         session_send se ('':'' @ SERVER_NAME @ '' NOTICE '' @ pr_nick p
           @ '' :TASK CREATE failed: title is required'')
       else
         and_then (on_db (tasks_create (i_uuid inp) (i_now inp) channel (trim title))) (\<lambda>t.
           broadcast_task_event inp t ''create'' ''success'' (pr_nick p)
             (''TASK '' @ t_id t @ '' created by '' @ pr_nick p @ '': '' @ t_title t)))"

text \<open>\<open>match\<close> on a \<open>Result\<close>: an error value is handled, a panic goes on.\<close>

definition or_else :: "('s, 'a) act \<Rightarrow> (string \<Rightarrow> ('s, 'b) act) \<Rightarrow> ('a \<Rightarrow> ('s, 'b) act) \<Rightarrow> ('s, 'b) act" where
  "or_else m err k s =
     (case m s of
        (Inl (Anyhow e), t) \<Rightarrow> err e t
      | (Inl (Panic e), t) \<Rightarrow> (Inl (Panic e), t)
      | (Inr x, t) \<Rightarrow> k x t)"

definition task_failed :: "session \<Rightarrow> principal \<Rightarrow> string \<Rightarrow> string \<Rightarrow> string \<Rightarrow> string \<Rightarrow> (server, unit) act" where
  "task_failed se p verb action task_id error =
     session_send se (task_failure_tags action task_id (pr_nick p)
       @ '' :'' @ SERVER_NAME @ '' NOTICE '' @ pr_nick p
       @ '' :TASK '' @ verb @ '' '' @ task_id @ '' failed: '' @ error)"

definition task_claim :: "inputs \<Rightarrow> session \<Rightarrow> string \<Rightarrow> (server, unit) act" where
  "task_claim inp se task_id =
     and_then (lift_res (session_principal se)) (\<lambda>p.
     and_then (reads sv_lease_seconds) (\<lambda>lease_seconds.
       or_else (on_db (tasks_claim lease_seconds (i_now inp) task_id (pr_id p)))
         (task_failed se p ''CLAIM'' ''claim'' task_id)
         (\<lambda>t. broadcast_task_event inp t ''claim'' ''success'' (pr_nick p)
            (''TASK '' @ t_id t @ '' claimed by '' @ pr_nick p @ '': '' @ t_title t))))"

definition task_done :: "inputs \<Rightarrow> session \<Rightarrow> string \<Rightarrow> (server, unit) act" where
  "task_done inp se task_id =
     and_then (lift_res (session_principal se)) (\<lambda>p.
       or_else (on_db (tasks_done (i_now inp) task_id (pr_id p)))
         (task_failed se p ''DONE'' ''done'' task_id)
         (\<lambda>t. broadcast_task_event inp t ''done'' ''success'' (pr_nick p)
            (''TASK '' @ t_id t @ '' completed by '' @ pr_nick p @ '': '' @ t_title t)))"

definition task_release :: "inputs \<Rightarrow> session \<Rightarrow> string \<Rightarrow> (server, unit) act" where
  "task_release inp se task_id =
     and_then (lift_res (session_principal se)) (\<lambda>p.
       or_else (on_db (tasks_release (i_now inp) task_id (pr_id p)))
         (task_failed se p ''RELEASE'' ''release'' task_id)
         (\<lambda>t. broadcast_task_event inp t ''release'' ''success'' (pr_nick p)
            (''TASK '' @ t_id t @ '' released by '' @ pr_nick p @ '': '' @ t_title t)))"

definition task_line :: "principal \<Rightarrow> task \<Rightarrow> string" where
  "task_line p t =
     '':'' @ SERVER_NAME @ '' NOTICE '' @ pr_nick p @ '' :TASK '' @ t_id t
     @ '' channel='' @ t_channel t @ '' status='' @ t_status t
     @ '' claimed_by='' @ (case t_claimed_by t of Some q \<Rightarrow> q | None \<Rightarrow> ''-'')
     @ '' lease_expires_at='' @ (case t_lease_expires_at t of Some l \<Rightarrow> show_int l | None \<Rightarrow> ''-'')
     @ '' title=:'' @ t_title t"

definition task_list :: "session \<Rightarrow> string \<Rightarrow> (server, unit) act" where
  "task_list se channel =
     and_then (lift_res (session_principal se)) (\<lambda>p.
     and_then (reads (\<lambda>sv. tasks_list channel (sv_db sv))) (\<lambda>ts.
       if ts = [] then
         session_send se ('':'' @ SERVER_NAME @ '' NOTICE '' @ pr_nick p
           @ '' :No open tasks in '' @ channel)
       else for_each ts (\<lambda>t. session_send se (task_line p t))))"

subsection \<open>Leaving, and who may act\<close>

definition disconnect :: "inputs \<Rightarrow> session \<Rightarrow> (server, unit) act" where
  "disconnect inp se =
     (case s_principal se of
        None \<Rightarrow> ret ()
      | Some p \<Rightarrow>
          and_then (reads (\<lambda>sv. case clients (sv_inner sv) (pr_id p) of
                                   Some h \<Rightarrow> h_tx h = s_tx se | None \<Rightarrow> False)) (\<lambda>should_remove.
            if should_remove then
              and_then (on_inner (\<lambda>i. i\<lparr>clients := (clients i)(pr_id p := None)\<rparr>)) (\<lambda>_.
                on_db (modify (mark_disconnected (i_now inp) (pr_id p))))
            else ret ()))"

definition ensure_registered :: "session \<Rightarrow> (server, bool) act" where
  "ensure_registered se =
     (if \<not> s_registered se then
        and_then (session_send se ('':'' @ SERVER_NAME @ '' 451 * :You have not registered'')) (\<lambda>_.
          ret False)
      else
        and_then (lift_res (session_principal se)) (\<lambda>p.
        and_then (reads (\<lambda>sv. case clients (sv_inner sv) (pr_id p) of
                                 Some h \<Rightarrow> h_session_id h = s_session_id se | None \<Rightarrow> False)) (\<lambda>is_active.
          if \<not> is_active then
            and_then (session_send se ('':'' @ SERVER_NAME
                        @ '' ERROR :Session replaced by a newer connection'')) (\<lambda>_.
              raise (Anyhow ''session replaced''))
          else ret True)))"

subsection \<open>Dispatch\<close>

text \<open>The guard every command of a registered session starts with.\<close>

definition if_registered :: "session \<Rightarrow> (server, unit) act \<Rightarrow> (server, session \<times> bool) act" where
  "if_registered se m =
     and_then (ensure_registered se) (\<lambda>ok.
       if ok then and_then m (\<lambda>_. ret (se, False)) else ret (se, False))"

definition chathistory :: "session \<Rightarrow> string option \<Rightarrow> int \<Rightarrow> int \<Rightarrow> (server, unit) act" where
  "chathistory se channel after_seq limit =
     and_then
       (case channel of
          Some c \<Rightarrow> ret [normalize_channel c]
        | None \<Rightarrow>
            and_then (lift_res (session_principal se)) (\<lambda>p.
              reads (\<lambda>sv. map mb_channel (memberships (pr_id p) (sv_db sv)))))
       (\<lambda>cs. replay_history se cs after_seq limit)"

text \<open>The result is the session after the command and whether to quit.\<close>

fun handle_command ::
    "crypto \<Rightarrow> inputs \<Rightarrow> session \<Rightarrow> command \<Rightarrow> (server, session \<times> bool) act" where
  "handle_command cr inp se (Pass token) =
     and_then (try_register cr inp (se\<lparr>s_pass_token := Some token\<rparr>)) (\<lambda>s. ret (s, False))"
| "handle_command cr inp se (Nick nick) =
     and_then (try_register cr inp (se\<lparr>s_nick := Some nick\<rparr>)) (\<lambda>s. ret (s, False))"
| "handle_command cr inp se (User _) =
     and_then (try_register cr inp se) (\<lambda>s. ret (s, False))"
| "handle_command cr inp se (Ping token) =
     and_then (session_send se ('':'' @ SERVER_NAME @ '' PONG '' @ SERVER_NAME @ '' :'' @ token))
       (\<lambda>_. ret (se, False))"
| "handle_command cr inp se Pong = ret (se, False)"
| "handle_command cr inp se (Cap subcommand capabilities) =
     and_then (cap se subcommand capabilities) (\<lambda>_. ret (se, False))"
| "handle_command cr inp se (Join channel) =
     if_registered se (join_channel inp se (normalize_channel channel))"
| "handle_command cr inp se (Part channel) =
     if_registered se (part_channel se (normalize_channel channel))"
| "handle_command cr inp se (Privmsg target body) =
     if_registered se (privmsg inp se (normalize_channel target) body)"
| "handle_command cr inp se (History channel after_seq limit) =
     if_registered se (chathistory se channel after_seq limit)"
| "handle_command cr inp se (TaskCreate channel title) =
     if_registered se (task_create inp se (normalize_channel channel) title)"
| "handle_command cr inp se (TaskClaim task_id) = if_registered se (task_claim inp se task_id)"
| "handle_command cr inp se (TaskDone task_id) = if_registered se (task_done inp se task_id)"
| "handle_command cr inp se (TaskRelease task_id) = if_registered se (task_release inp se task_id)"
| "handle_command cr inp se (TaskList channel) =
     if_registered se (task_list se (normalize_channel channel))"
| "handle_command cr inp se Quit = ret (se, True)"
| "handle_command cr inp se (Unknown name) =
     and_then (session_send se ('':'' @ SERVER_NAME @ '' 421 * '' @ name @ '' :Unknown command''))
       (\<lambda>_. ret (se, False))"

text \<open>One line received from a client.\<close>

definition handle_line ::
    "crypto \<Rightarrow> inputs \<Rightarrow> session \<Rightarrow> string \<Rightarrow> (server, session \<times> bool) act" where
  "handle_line cr inp se line = handle_command cr inp se (parse_command line)"

end
