(* ===== verification/Delivery.thy ===== *)
theory Delivery
  imports Server "HOL-Library.Multiset"
begin

section \<open>What the handlers send and record\<close>

text \<open>
  Closed forms of the loops of theory Server: sending to one connection, broadcasting,
  replaying history and registering. They show that the order in which a broadcast visits
  its recipients does not matter, which lines each connection gets, and where the cursors
  stand afterwards.
\<close>

named_theorems send_simps \<open>equations that run the sending parts of a handler\<close>

subsection \<open>Sending to one connection\<close>

definition send_all :: "string list \<Rightarrow> mpsc \<Rightarrow> mpsc" where
  "send_all ls q = (if q_open q then q\<lparr>q_sent := q_sent q @ ls\<rparr> else q)"

definition push :: "nat \<Rightarrow> string list \<Rightarrow> server \<Rightarrow> server" where
  "push n ls sv = sv\<lparr>outs := (outs sv)(n := send_all ls (outs sv n))\<rparr>"

lemma send_all_simps [simp]:
  "send_all [] q = q"
  "send_all b (send_all a q) = send_all (a @ b) q"
  "q_open (send_all a q) = q_open q"
  "q_taken (send_all a q) = q_taken q"
  "mpsc_send l q = send_all [l] q"
  by (simp_all add: send_all_def mpsc_send_def)

lemma push_simps [simp]:
  "sv_db (push n ls sv) = sv_db sv"
  "sv_inner (push n ls sv) = sv_inner sv"
  "sv_legacy_hits (push n ls sv) = sv_legacy_hits sv"
  "sv_lease_seconds (push n ls sv) = sv_lease_seconds sv"
  "shuts (push n ls sv) = shuts sv"
  "outs (push n ls sv) m = (if m = n then send_all ls (outs sv n) else outs sv m)"
  "push n [] sv = sv"
  "push n b (push n a sv) = push n (a @ b) sv"
  by (simp_all add: push_def)

lemma push_other: "m \<noteq> n \<Longrightarrow> outs (push n ls sv) m = outs sv m"
  by simp

lemma push_comm: "m \<noteq> n \<Longrightarrow> push m a (push n b sv) = push n b (push m a sv)"
  by (simp add: push_def fun_upd_twist)

lemma push_same_comm: "push m [l] (push n [l] sv) = push n [l] (push m [l] sv)"
  by (cases "m = n") (simp_all add: push_comm)

lemma push_db [simp]:
  "push n ls (sv\<lparr>sv_db := d\<rparr>) = (push n ls sv)\<lparr>sv_db := d\<rparr>"
  "push n ls (sv\<lparr>sv_inner := i\<rparr>) = (push n ls sv)\<lparr>sv_inner := i\<rparr>"
  by (simp_all add: push_def)

lemma send_out_run [send_simps]:
  "send_out n line sv = (Inr (q_open (outs sv n)), push n [line] sv)"
  by (simp add: send_out_def act_simps push_def)

lemma session_send_run [send_simps]:
  "session_send se line sv = (Inr (), push (s_tx se) [line] sv)"
  by (simp add: session_send_def send_out_run act_simps and_then_Inr [OF send_out_run])

lemma and_then_send [send_simps]:
  "and_then (session_send se line) k sv = k () (push (s_tx se) [line] sv)"
  "and_then (send_out n line) kb sv = kb (q_open (outs sv n)) (push n [line] sv)"
  by (simp_all add: and_then_Inr [OF session_send_run] and_then_Inr [OF send_out_run])

lemma on_db_modify [send_simps]:
  "on_db (modify f) sv = (Inr (), sv\<lparr>sv_db := f (sv_db sv)\<rparr>)"
  "and_then (on_db (modify f)) k sv = k () (sv\<lparr>sv_db := f (sv_db sv)\<rparr>)"
  by (simp_all add: on_db_def run_modify and_then_def)

lemma on_inner_run [send_simps]:
  "on_inner f sv = (Inr (), sv\<lparr>sv_inner := f (sv_inner sv)\<rparr>)"
  "and_then (on_inner f) k sv = k () (sv\<lparr>sv_inner := f (sv_inner sv)\<rparr>)"
  by (simp_all add: on_inner_def run_modify and_then_modify)

lemma sends_run [send_simps]:
  "for_each xs (\<lambda>x. session_send se (f x)) sv = (Inr (), push (s_tx se) (map f xs) sv)"
  by (induction xs arbitrary: sv) (simp_all add: run_act and_then_send)

lemma and_then_sends [send_simps]:
  "and_then (for_each xs (\<lambda>x. session_send se (f x))) k sv = k () (push (s_tx se) (map f xs) sv)"
  by (rule and_then_Inr [OF sends_run])

subsection \<open>Broadcasts\<close>

definition deliver_to :: "string \<Rightarrow> string \<Rightarrow> int \<Rightarrow> string \<times> client_handle \<Rightarrow> server \<Rightarrow> server" where
  "deliver_to c line seq r sv =
     (if q_open (outs sv (h_tx (snd r)))
      then push (h_tx (snd r)) [line] (sv\<lparr>sv_db := mark_seen (fst r) c seq (sv_db sv)\<rparr>)
      else sv)"

lemma push_closed: "\<not> q_open (outs sv n) \<Longrightarrow> push n ls sv = sv"
  by (simp add: push_def send_all_def)

lemma deliver_run: "deliver c line seq r sv = (Inr (), deliver_to c line seq r sv)"
  by (simp add: deliver_def deliver_to_def send_simps run_act push_closed)

lemma broadcast_message_run:
  "broadcast_message c line seq sv
   = (Inr (), fold (deliver_to c line seq) (recipients_with_ids c (sv_inner sv)) sv)"
  by (simp add: broadcast_message_def and_then_simple for_each_fold [OF deliver_run])

lemma broadcast_raw_run:
  "broadcast_raw c line sv
   = (Inr (), fold (\<lambda>h. push (h_tx h) [line]) (recipients c (sv_inner sv)) sv)"
proof -
  have body: "and_then (send_out (h_tx h) line) (\<lambda>_. ret ()) s = (Inr (), push (h_tx h) [line] s)"
    for h s
    by (simp add: and_then_send run_act)
  show ?thesis
    by (simp add: broadcast_raw_def and_then_simple for_each_fold [OF body])
qed

text \<open>The order of the recipients does not matter.\<close>

lemma deliver_to_open:
  "q_open (outs (deliver_to c line seq r sv) n) = q_open (outs sv n)"
  by (simp add: deliver_to_def)

lemma deliver_to_comm:
  "deliver_to c line seq r (deliver_to c line seq s sv)
   = deliver_to c line seq s (deliver_to c line seq r sv)"
  by (simp add: deliver_to_def push_same_comm mark_seen_comm [of "fst r"])

lemma deliver_order:
  assumes "mset rs = mset rs'"
  shows "fold (deliver_to c line seq) rs sv = fold (deliver_to c line seq) rs' sv"
proof -
  have "fold (deliver_to c line seq) rs = fold (deliver_to c line seq) rs'"
    by (rule fold_multiset_equiv [OF _ assms]) (auto simp: deliver_to_comm)
  then show ?thesis by simp
qed

text \<open>The closed form: what each queue holds and what the database is after a broadcast.\<close>

definition times_sent :: "nat \<Rightarrow> ('a \<times> client_handle) list \<Rightarrow> nat" where
  "times_sent n rs = length (filter (\<lambda>r. h_tx (snd r) = n) rs)"

definition reached :: "('a \<times> client_handle) list \<Rightarrow> server \<Rightarrow> 'a list" where
  "reached rs sv = map fst (filter (\<lambda>r. q_open (outs sv (h_tx (snd r)))) rs)"

lemma deliver_fold:
  defines "after \<equiv> \<lambda>rs c line seq sv. fold (deliver_to c line seq) rs sv"
  shows "outs (after rs c line seq sv) n = send_all (replicate (times_sent n rs) line) (outs sv n)"
    and "sv_db (after rs c line seq sv) = fold (\<lambda>p. mark_seen p c seq) (reached rs sv) (sv_db sv)"
    and "sv_inner (after rs c line seq sv) = sv_inner sv"
    and "shuts (after rs c line seq sv) = shuts sv"
    and "sv_legacy_hits (after rs c line seq sv) = sv_legacy_hits sv"
    and "sv_lease_seconds (after rs c line seq sv) = sv_lease_seconds sv"
proof -
  show "outs (after rs c line seq sv) n = send_all (replicate (times_sent n rs) line) (outs sv n)"
    unfolding after_def
    by (induction rs arbitrary: sv)
       (auto simp: times_sent_def deliver_to_def send_all_def replicate_append_same)
  show "sv_db (after rs c line seq sv) = fold (\<lambda>p. mark_seen p c seq) (reached rs sv) (sv_db sv)"
    unfolding after_def
    by (induction rs arbitrary: sv)
       (simp_all add: reached_def deliver_to_open, simp_all add: deliver_to_def)
  show "sv_inner (after rs c line seq sv) = sv_inner sv"
    "shuts (after rs c line seq sv) = shuts sv"
    "sv_legacy_hits (after rs c line seq sv) = sv_legacy_hits sv"
    "sv_lease_seconds (after rs c line seq sv) = sv_lease_seconds sv"
    unfolding after_def by (induction rs arbitrary: sv) (simp_all add: deliver_to_def)
qed

lemma push_fold:
  "outs (fold (\<lambda>h. push (h_tx h) [line]) hs sv) n
   = send_all (replicate (length (filter (\<lambda>h. h_tx h = n) hs)) line) (outs sv n)"
  "sv_db (fold (\<lambda>h. push (h_tx h) [line]) hs sv) = sv_db sv"
  "sv_inner (fold (\<lambda>h. push (h_tx h) [line]) hs sv) = sv_inner sv"
  "shuts (fold (\<lambda>h. push (h_tx h) [line]) hs sv) = shuts sv"
  "sv_legacy_hits (fold (\<lambda>h. push (h_tx h) [line]) hs sv) = sv_legacy_hits sv"
  "sv_lease_seconds (fold (\<lambda>h. push (h_tx h) [line]) hs sv) = sv_lease_seconds sv"
  by (induction hs arbitrary: sv) (auto simp: replicate_append_same)

lemma recipients_in:
  "(p, h) \<in> set (recipients_with_ids c i) \<longleftrightarrow>
   (\<exists>ms. channels i c = Some ms \<and> p \<in> set ms) \<and> clients i p = Some h"
  by (cases "channels i c") (force simp: recipients_with_ids_def map_filter_def)+

lemma cursor_fold_seen:
  "cursor p c (fold (\<lambda>q. mark_seen q e s) qs d)
   = (if p \<in> set qs \<and> c = e then map_option (\<lambda>x. max x s) (cursor p c d) else cursor p c d)"
proof (induction qs arbitrary: d)
  case Nil
  show ?case by simp
next
  case (Cons q qs)
  show ?case
    by (cases "cursor p c d") (auto simp: Cons cursor_mark_seen)
qed

lemma mark_seen_frame [simp]:
  "messages (mark_seen p c s d) = messages d"
  "messages_seq (mark_seen p c s d) = messages_seq d"
  "tasks (mark_seen p c s d) = tasks d"
  "principal_tokens (mark_seen p c s d) = principal_tokens d"
  "tokens_seq (mark_seen p c s d) = tokens_seq d"
  "schema (mark_seen p c s d) = schema d"
  "label_index (mark_seen p c s d) = label_index d"
  by (simp_all add: mark_seen_def)

lemma fold_seen_frame [simp]:
  "messages (fold (\<lambda>q. mark_seen q c s) qs d) = messages d"
  "messages_seq (fold (\<lambda>q. mark_seen q c s) qs d) = messages_seq d"
  "tasks (fold (\<lambda>q. mark_seen q c s) qs d) = tasks d"
  "principal_tokens (fold (\<lambda>q. mark_seen q c s) qs d) = principal_tokens d"
  by (induction qs arbitrary: d) simp_all

subsection \<open>Replaying history\<close>

text \<open>The lines that a replay sends, and the database after it.\<close>

definition replay_line :: "db \<Rightarrow> stored_message \<Rightarrow> string" where
  "replay_line d m =
     privmsg_line (metadata_tags (sm_seq m) (sm_msg_id m) (sm_created_at m) True)
       (display_name SERVER_NAME (sm_sender_id m) d) (sm_channel m) (sm_body m)"

definition replay_lines :: "string \<Rightarrow> int \<Rightarrow> int \<Rightarrow> db \<Rightarrow> string list" where
  "replay_lines c a l d = map (replay_line d) (history_after c a l d)"

definition replay_seen :: "string \<Rightarrow> string \<Rightarrow> int \<Rightarrow> int \<Rightarrow> db \<Rightarrow> db" where
  "replay_seen p c a l d =
     (let top = fold (\<lambda>m x. max x (sm_seq m)) (history_after c a l d) a in
      if a < top then mark_seen p c top d else d)"

lemma replay_message_run [send_simps]:
  "replay_message se m sv = (Inr (), push (s_tx se) [replay_line (sv_db sv) m] sv)"
  by (simp add: replay_message_def and_then_simple session_send_run replay_line_def)

lemma replay_messages_run:
  "for_each ms (replay_message se) sv = (Inr (), push (s_tx se) (map (replay_line (sv_db sv)) ms) sv)"
  by (induction ms arbitrary: sv) (simp_all add: run_act and_then_Inr [OF replay_message_run])

lemma replay_channel_run [send_simps]:
  "replay_channel se p a l c sv
   = (Inr (), push (s_tx se) (replay_lines c a l (sv_db sv)) (sv\<lparr>sv_db := replay_seen p c a l (sv_db sv)\<rparr>))"
  by (simp add: replay_channel_def and_then_simple and_then_Inr [OF replay_messages_run]
      send_simps run_act replay_lines_def replay_seen_def Let_def)

text \<open>Marking messages as seen changes nothing a replay reads.\<close>

lemma row_of_map:
  "(\<And>r. key (f r) = key r) \<Longrightarrow> row_of key (map f rows) k = map_option f (row_of key rows k)"
  by (induction rows) (simp_all add: row_of_def query_row_def)

lemma display_name_mark_seen [simp]: "display_name s q (mark_seen p c x d) = display_name s q d"
proof -
  have "row_of p_id (map (seen_principal p x) (principals d)) q
      = map_option (seen_principal p x) (row_of p_id (principals d) q)"
    by (rule row_of_map) (simp add: seen_principal_def)
  then show ?thesis
    by (simp add: display_name_def mark_seen_rows seen_principal_def split: option.split)
qed

lemma history_after_mark_seen [simp]:
  "history_after c a l (mark_seen p e x d) = history_after c a l d"
  by (simp add: history_after_def)

lemma replay_seen_frame [simp]:
  "display_name s q (replay_seen p c a l d) = display_name s q d"
  "history_after e b k (replay_seen p c a l d) = history_after e b k d"
  "messages (replay_seen p c a l d) = messages d"
  "replay_lines e b k (replay_seen p c a l d) = replay_lines e b k d"
  by (simp_all add: replay_seen_def Let_def replay_lines_def replay_line_def [abs_def])

lemma replay_channels_run:
  "for_each cs (replay_channel se p a l) sv
   = (Inr (), push (s_tx se) (concat (map (\<lambda>c. replay_lines c a l (sv_db sv)) cs))
        (sv\<lparr>sv_db := fold (\<lambda>c. replay_seen p c a l) cs (sv_db sv)\<rparr>))"
  by (induction cs arbitrary: sv) (simp_all add: run_act and_then_Inr [OF replay_channel_run])

lemma replay_history_run:
  "s_principal se = Some p \<Longrightarrow> replay_history se cs a l sv
   = (Inr (), push (s_tx se) (concat (map (\<lambda>c. replay_lines c a l (sv_db sv)) cs))
        (sv\<lparr>sv_db := fold (\<lambda>c. replay_seen (pr_id p) c a l) cs (sv_db sv)\<rparr>))"
  by (simp add: replay_history_def session_principal_def and_then_simple replay_channels_run)

text \<open>In a well-formed log the cursor moves to the last message of the replay.\<close>

lemma fold_max_sorted:
  assumes "sorted_wrt (<) (map sm_seq ms)" "\<forall>m \<in> set ms. a < sm_seq m"
  shows "fold (\<lambda>m x. max x (sm_seq m)) ms a = (if ms = [] then a else sm_seq (last ms))"
  using assms
proof (induction ms arbitrary: a)
  case Nil
  show ?case by simp
next
  case (Cons m ms)
  have "max a (sm_seq m) = sm_seq m" using Cons.prems by simp
  with Cons.IH [of "sm_seq m"] Cons.prems show ?case by simp
qed

lemma history_after_facts:
  assumes "log_wf d"
  shows "sorted_wrt (<) (map sm_seq (history_after c a l d))"
    and "m \<in> set (history_after c a l d) \<Longrightarrow> a < sm_seq m \<and> m \<in> set (channel_messages c d)"
  using hlog.page_sorted [OF assms] hlog.page_after [OF assms]
  by (simp_all add: history_after_page)

lemma replay_seen_last:
  assumes "log_wf d"
  shows "replay_seen p c a l d
    = (if history_after c a l d = [] then d else mark_seen p c (sm_seq (last (history_after c a l d))) d)"
proof (cases "history_after c a l d = []")
  case True
  then show ?thesis by (simp add: replay_seen_def)
next
  case False
  then have "last (history_after c a l d) \<in> set (history_after c a l d)" by simp
  then have "a < sm_seq (last (history_after c a l d))"
    using history_after_facts(2) [OF assms] by blast
  moreover have "fold (\<lambda>m x. max x (sm_seq m)) (history_after c a l d) a
      = sm_seq (last (history_after c a l d))"
    using fold_max_sorted [of "history_after c a l d" a] history_after_facts [OF assms] False
    by simp
  ultimately show ?thesis using False by (simp add: replay_seen_def)
qed

subsection \<open>Registration\<close>

text \<open>The lines a new session gets, computed from the database as it finds it.\<close>

definition register_lines :: "principal \<Rightarrow> membership list \<Rightarrow> db \<Rightarrow> string list" where
  "register_lines p ms d =
     welcome_line p # map (\<lambda>m. '':'' @ pr_nick p @ '' JOIN '' @ mb_channel m) ms
     @ (if ms = [] then []
        else replay_notice p (length ms)
             # concat (map (\<lambda>m. replay_lines (mb_channel m) (mb_last_seen_seq m) 200 d) ms))"

definition register_seen :: "string \<Rightarrow> membership list \<Rightarrow> db \<Rightarrow> db" where
  "register_seen pid ms = fold (\<lambda>m. replay_seen pid (mb_channel m) (mb_last_seen_seq m) 200) ms"

definition take_over_inner :: "principal \<Rightarrow> session \<Rightarrow> string list \<Rightarrow> server_inner \<Rightarrow> server_inner" where
  "take_over_inner p se cs i =
     fold (\<lambda>c. channel_insert c (pr_id p)) cs (i\<lparr>clients := (clients i)(pr_id p \<mapsto> handle_of se)\<rparr>)"

definition shut_old :: "principal \<Rightarrow> server \<Rightarrow> server" where
  "shut_old p sv =
     (case clients (sv_inner sv) (pr_id p) of
        None \<Rightarrow> sv
      | Some h \<Rightarrow> sv\<lparr>shuts := (shuts sv)(h_shutdown_tx h :=
                    send_all [replaced_reason (pr_id p)] (shuts sv (h_shutdown_tx h)))\<rparr>)"

lemma shut_old_simps [simp]:
  "sv_db (shut_old p sv) = sv_db sv"
  "sv_inner (shut_old p sv) = sv_inner sv"
  "outs (shut_old p sv) = outs sv"
  "sv_legacy_hits (shut_old p sv) = sv_legacy_hits sv"
  "sv_lease_seconds (shut_old p sv) = sv_lease_seconds sv"
  by (simp_all add: shut_old_def split: option.split)

lemma send_shutdown_run:
  "send_shutdown n r sv
   = (Inr (q_open (shuts sv n)), sv\<lparr>shuts := (shuts sv)(n := send_all [r] (shuts sv n))\<rparr>)"
  by (simp add: send_shutdown_def act_simps)

lemma channel_inserts_run:
  "for_each cs (\<lambda>c. on_inner (channel_insert c pid)) sv
   = (Inr (), sv\<lparr>sv_inner := fold (\<lambda>c. channel_insert c pid) cs (sv_inner sv)\<rparr>)"
  by (induction cs arbitrary: sv) (simp_all add: run_act send_simps)

lemma take_over_run:
  "take_over p se cs sv
   = (Inr (), (shut_old p sv)\<lparr>sv_inner := take_over_inner p se cs (sv_inner sv)\<rparr>)"
  by (cases "clients (sv_inner sv) (pr_id p)")
     (simp_all add: take_over_def take_over_inner_def act_simps send_simps channel_inserts_run
       shut_old_def and_then_Inr [OF send_shutdown_run] and_then_Inr [OF act_simps(1)] and_then_assoc)

lemma replay_missed_run:
  "s_principal se = Some p \<Longrightarrow> for_each ms (replay_missed se) sv
   = (Inr (), push (s_tx se) (concat (map (\<lambda>m. replay_lines (mb_channel m) (mb_last_seen_seq m) 200 (sv_db sv)) ms))
        (sv\<lparr>sv_db := register_seen (pr_id p) ms (sv_db sv)\<rparr>))"
proof (induction ms arbitrary: sv)
  case Nil
  show ?case by (simp add: run_act register_seen_def)
next
  case (Cons m ms)
  note run = replay_history_run [OF Cons.prems, of "[mb_channel m]" "mb_last_seen_seq m" 200 sv]
  have "replay_missed se m sv = (Inr (), push (s_tx se)
      (replay_lines (mb_channel m) (mb_last_seen_seq m) 200 (sv_db sv))
      (sv\<lparr>sv_db := replay_seen (pr_id p) (mb_channel m) (mb_last_seen_seq m) 200 (sv_db sv)\<rparr>))"
    using run by (simp add: replay_missed_def)
  with Cons show ?case by (simp add: and_then_Inr register_seen_def)
qed

definition registered_session :: "principal \<Rightarrow> session \<Rightarrow> session" where
  "registered_session p se = se\<lparr>s_nick := Some (pr_nick p), s_principal := Some p, s_registered := True\<rparr>"

lemma registered_session_simps [simp]:
  "s_tx (registered_session p se) = s_tx se"
  "s_shutdown_tx (registered_session p se) = s_shutdown_tx se"
  "s_session_id (registered_session p se) = s_session_id se"
  "s_principal (registered_session p se) = Some p"
  "s_registered (registered_session p se)"
  "handle_of (registered_session p se) = handle_of se"
  by (simp_all add: registered_session_def handle_of_def)

lemma mark_connected_run:
  "on_db (mark_connected_and_memberships now pid) sv
   = (Inr (memberships pid (sv_db sv)), sv\<lparr>sv_db := mark_connected now pid (sv_db sv)\<rparr>)"
  by (simp add: on_db_def mark_connected_and_memberships_def act_simps memberships_def
      mark_connected_def)

lemma display_name_connected [simp]: "display_name s q (mark_connected now p d) = display_name s q d"
proof -
  let ?f = "\<lambda>r. if p_id r = p then r\<lparr>p_connected_at := Some now, p_disconnected_at := None\<rparr> else r"
  have "row_of p_id (map ?f (principals d)) q = map_option ?f (row_of p_id (principals d) q)"
    by (rule row_of_map) simp
  then show ?thesis
    by (simp add: display_name_def mark_connected_def update_principals_def update_where_def
        split: option.split)
qed

lemma replay_lines_connected [simp]:
  "replay_lines c a l (mark_connected now p d) = replay_lines c a l d"
  by (simp add: replay_lines_def replay_line_def [abs_def] history_after_def)
     (simp add: mark_connected_def)

lemma register_lines_connected [simp]:
  "register_lines p ms (mark_connected now q d) = register_lines p ms d"
  by (simp add: register_lines_def)

text \<open>\<open>register\<close> in closed form.\<close>

lemma register_run:
  fixes sv p se inp
  defines "ms \<equiv> memberships (pr_id p) (sv_db sv)"
  shows "register inp p se sv = (Inr (registered_session p se),
    push (s_tx se) (register_lines p ms (sv_db sv))
      ((shut_old p sv)\<lparr>
         sv_db := register_seen (pr_id p) ms (mark_connected (i_now inp) (pr_id p) (sv_db sv)),
         sv_inner := take_over_inner p se (map mb_channel ms) (sv_inner sv)\<rparr>))"
proof -
  let ?se = "registered_session p se"
  have take: "take_over p ?se cs v = (Inr (), (shut_old p v)\<lparr>sv_inner := take_over_inner p se cs (sv_inner v)\<rparr>)"
    for cs v
    using take_over_run [of p ?se cs v] by (simp add: take_over_inner_def)
  have old: "shut_old p (sv\<lparr>sv_db := d\<rparr>) = (shut_old p sv)\<lparr>sv_db := d\<rparr>" for d
    by (simp add: shut_old_def split: option.split)
  have none: "register_seen (pr_id p) [] d = d" for d by (simp add: register_seen_def)
  have join_lines: "map ((\<lambda>c. f c) \<circ> mb_channel) ms = map (\<lambda>m. f (mb_channel m)) ms" for f :: "string \<Rightarrow> string"
    by simp
  show ?thesis
    unfolding register_def registered_session_def [symmetric] Let_def
    by (simp add: and_then_Inr [OF mark_connected_run] and_then_Inr [OF take] old
        send_simps run_act and_then_Inr [OF replay_missed_run [where p = p]] none
        ms_def [symmetric] register_lines_def o_def and_then_simple and_then_assoc)
qed

end
