(* ===== verification/ServerInv.thy ===== *)
theory ServerInv
  imports Delivery
begin

section \<open>What every handler preserves\<close>

text \<open>
  \<open>db_wf\<close> joins the invariants of the database; every handler keeps it. \<open>quiet\<close>
  relates a state to a later one between which nobody connected, left, joined or parted and
  queues only grew; every handler but registration, JOIN, PART and disconnect stays in
  it. \<open>rooms_ok\<close> ties the in-memory channel table to the durable memberships.
\<close>

subsection \<open>The invariant of the database\<close>

definition db_wf :: "db \<Rightarrow> bool" where
  "db_wf d \<longleftrightarrow> log_wf d \<and> members_wf d \<and> tasks_wf d \<and> cursors_wf d \<and> principals_wf d"

definition sv_wf :: "server \<Rightarrow> bool" where
  "sv_wf sv \<longleftrightarrow> db_wf (sv_db sv)"

lemma sv_wf_simps [simp]:
  "sv_wf (push n ls sv) = sv_wf sv"
  "sv_wf (sv\<lparr>sv_db := d\<rparr>) = db_wf d"
  "sv_wf (sv\<lparr>sv_inner := i\<rparr>) = sv_wf sv"
  "sv_wf (sv\<lparr>sv_legacy_hits := h\<rparr>) = sv_wf sv"
  "sv_wf (shut_old p sv) = sv_wf sv"
  by (simp_all add: sv_wf_def)

lemma principals_wf_update:
  assumes "\<And>r. static (f r) = static r"
  shows "principals_wf (update_principals P f d) = principals_wf d"
proof -
  have "p_id (f r) = p_id r" "p_token (f r) = p_token r" for r
    using assms [of r] by (simp_all add: static_def)
  then show ?thesis
    by (intro principals_wf_cong)
       (simp_all add: update_principals_def update_where_def o_def if_distrib cong: if_cong)
qed

lemma principals_wf_members [simp]:
  "principals_wf (d\<lparr>channel_memberships := ms\<rparr>) = principals_wf d"
  "principals_wf (d\<lparr>messages := xs, messages_seq := i\<rparr>) = principals_wf d"
  "principals_wf (d\<lparr>tasks := ts\<rparr>) = principals_wf d"
  by (simp_all add: principals_wf_def)

lemma db_wf_mark_seen:
  assumes "db_wf d" "s \<in> sm_seq ` set (channel_messages c d)"
  shows "db_wf (mark_seen p c s d)"
proof -
  have "principals_wf (mark_seen p c s d) = principals_wf d"
    by (simp add: mark_seen_def update_members_def principals_wf_update static_def)
  with assms show ?thesis
    by (simp add: db_wf_def members_wf_ops cursors_wf_mark_seen log_wf_cong [of "mark_seen p c s d" d]
        tasks_wf_cong [of "mark_seen p c s d" d])
qed

lemma db_wf_fold_seen:
  "db_wf d \<Longrightarrow> s \<in> sm_seq ` set (channel_messages c d) \<Longrightarrow> db_wf (fold (\<lambda>p. mark_seen p c s) ps d)"
proof (induction ps arbitrary: d)
  case Nil
  then show ?case by simp
next
  case (Cons p ps)
  then have "s \<in> sm_seq ` set (channel_messages c (mark_seen p c s d))"
    by (simp add: channel_messages_def)
  with Cons db_wf_mark_seen [OF Cons.prems] show ?case by simp
qed

lemma db_wf_add_membership: "db_wf d \<Longrightarrow> db_wf (add_membership now p c d)"
  by (simp add: db_wf_def members_wf_ops cursors_wf_add)
     (simp add: add_membership_def log_wf_def tasks_wf_def)

lemma db_wf_remove_membership: "db_wf d \<Longrightarrow> db_wf (remove_membership p c d)"
  by (simp add: db_wf_def members_wf_ops cursors_wf_remove)
     (simp add: remove_membership_def log_wf_def tasks_wf_def)

lemma db_wf_connect:
  "db_wf d \<Longrightarrow> db_wf (mark_connected now p d)"
  "db_wf d \<Longrightarrow> db_wf (mark_disconnected now p d)"
proof -
  assume "db_wf d"
  then show "db_wf (mark_connected now p d)" "db_wf (mark_disconnected now p d)"
    using cursors_wf_connect
    by (simp_all add: db_wf_def)
       (simp_all add: mark_connected_def mark_disconnected_def members_wf_ops principals_wf_update
         static_def log_wf_def tasks_wf_def)
qed

lemma db_wf_append:
  assumes wf: "db_wf d" and run: "history_append u now ch s b d = (r, d')"
  shows "db_wf d'"
proof -
  have fr: "d' = d\<lparr>messages := messages d', messages_seq := messages_seq d'\<rparr>"
    by (rule history_append_frame [OF run])
  have log: "log_wf d'"
    using wf by (intro keepsD_eq [OF keeps_history_append _ run]) (simp add: db_wf_def)
  have "set (messages d) \<subseteq> set (messages d')"
    using run by (auto simp: history_append_def act_simps Let_def split: option.splits if_splits)
  then have cur: "cursors_wf (d\<lparr>messages := messages d', messages_seq := messages_seq d'\<rparr>)"
    using wf by (fastforce simp: db_wf_def cursors_wf_def channel_messages_def)
  have "members_wf (d\<lparr>messages := messages d', messages_seq := messages_seq d'\<rparr>)"
    "tasks_wf (d\<lparr>messages := messages d', messages_seq := messages_seq d'\<rparr>)"
    "principals_wf (d\<lparr>messages := messages d', messages_seq := messages_seq d'\<rparr>)"
    using wf by (simp_all add: db_wf_def members_wf_def tasks_wf_def)
  with log cur fr show ?thesis unfolding db_wf_def by metis
qed

lemma tasks_frame:
  "tasks_create u now ch t d = (r, d') \<Longrightarrow> d' = d\<lparr>tasks := tasks d'\<rparr>"
  "tasks_claim l now tid p d = (r, d') \<Longrightarrow> d' = d\<lparr>tasks := tasks d'\<rparr>"
  "tasks_done now tid p d = (r, d') \<Longrightarrow> d' = d\<lparr>tasks := tasks d'\<rparr>"
  "tasks_release now tid p d = (r, d') \<Longrightarrow> d' = d\<lparr>tasks := tasks d'\<rparr>"
proof -
  show "tasks_create u now ch t d = (r, d') \<Longrightarrow> d' = d\<lparr>tasks := tasks d'\<rparr>"
    by (auto simp: tasks_create_def act_simps Let_def split: if_splits)
  have g: "guarded_write tid P f m d = (r, d') \<Longrightarrow> d' = d\<lparr>tasks := tasks d'\<rparr>" for P f m
    by (auto simp: guarded_write_def and_then_Inr [OF update_tasks_run] get_locked_def act_simps
        split: if_splits option.splits)
  then show "tasks_done now tid p d = (r, d') \<Longrightarrow> d' = d\<lparr>tasks := tasks d'\<rparr>"
    "tasks_release now tid p d = (r, d') \<Longrightarrow> d' = d\<lparr>tasks := tasks d'\<rparr>"
    by (simp_all add: writers_guarded)
  show "tasks_claim l now tid p d = (r, d') \<Longrightarrow> d' = d\<lparr>tasks := tasks d'\<rparr>"
    using g by (auto simp: writers_guarded add_i64_def act_simps split: if_splits)
qed

lemma db_wf_tasks:
  assumes "db_wf d" "tasks_wf d'" "d' = d\<lparr>tasks := tasks d'\<rparr>"
  shows "db_wf d'"
proof -
  have "db_wf (d\<lparr>tasks := tasks d'\<rparr>)"
    using assms(1,2)
    by (simp add: db_wf_def log_wf_def members_wf_def cursors_wf_def tasks_wf_def channel_messages_def)
  then show ?thesis using assms(3) by simp
qed

lemma keeps_db_wf_tasks:
  "keeps db_wf (tasks_create u now ch t)"
  "keeps db_wf (tasks_claim l now tid p)"
  "keeps db_wf (tasks_done now tid p)"
  "keeps db_wf (tasks_release now tid p)"
proof -
  have k: "keeps db_wf m" if "keeps tasks_wf m"
      "\<And>d r d'. m d = (r, d') \<Longrightarrow> d' = d\<lparr>tasks := tasks d'\<rparr>" for m :: "(db, task) act"
  proof (rule keepsI)
    fix d assume wf: "db_wf d"
    obtain r d' where run: "m d = (r, d')" by (cases "m d")
    have "tasks_wf d'" using keepsD_eq [OF that(1) _ run] wf by (simp add: db_wf_def)
    with db_wf_tasks [OF wf _ that(2) [OF run]] run show "db_wf (snd (m d))" by simp
  qed
  show "keeps db_wf (tasks_create u now ch t)"
    "keeps db_wf (tasks_claim l now tid p)"
    "keeps db_wf (tasks_done now tid p)"
    "keeps db_wf (tasks_release now tid p)"
    by (rule k, rule keeps_tasks_create keeps_tasks_claim keeps_tasks_done keeps_tasks_release,
        erule tasks_frame)+
qed

lemma db_wf_replay_seen:
  assumes "db_wf d"
  shows "db_wf (replay_seen p c a l d)"
proof (cases "history_after c a l d = []")
  case True
  then show ?thesis using assms by (simp add: replay_seen_def)
next
  case False
  have log: "log_wf d" using assms by (simp add: db_wf_def)
  have "last (history_after c a l d) \<in> set (history_after c a l d)" using False by simp
  then have "sm_seq (last (history_after c a l d)) \<in> sm_seq ` set (channel_messages c d)"
    using history_after_facts(2) [OF log] by blast
  with db_wf_mark_seen [OF assms] False show ?thesis by (simp add: replay_seen_last [OF log])
qed

lemma db_wf_replays: "db_wf d \<Longrightarrow> db_wf (fold (\<lambda>c. replay_seen p c a l) cs d)"
  by (induction cs arbitrary: d) (simp_all add: db_wf_replay_seen)

lemma db_wf_register_seen: "db_wf d \<Longrightarrow> db_wf (register_seen p ms d)"
  unfolding register_seen_def by (induction ms arbitrary: d) (simp_all add: db_wf_replay_seen)

subsection \<open>Posting a message\<close>

text \<open>PRIVMSG and the task events append a message and broadcast a line about it.\<close>

definition post ::
    "string \<Rightarrow> int \<Rightarrow> string \<Rightarrow> string \<Rightarrow> string \<Rightarrow> (stored_message \<Rightarrow> string) \<Rightarrow> (server, unit) act" where
  "post u now ch sender body line =
     and_then (on_db (history_append u now ch sender body))
       (\<lambda>m. broadcast_message ch (line m) (sm_seq m))"

definition task_event_line ::
    "task \<Rightarrow> string \<Rightarrow> string \<Rightarrow> string \<Rightarrow> string \<Rightarrow> stored_message \<Rightarrow> string" where
  "task_event_line t action status actor body m =
     format_message_tags (task_event_tags m t action status actor)
       @ '' :'' @ SERVER_NAME @ '' NOTICE '' @ t_channel t @ '' :'' @ body"

definition message_line :: "principal \<Rightarrow> string \<Rightarrow> string \<Rightarrow> stored_message \<Rightarrow> string" where
  "message_line p ch body m =
     privmsg_line (metadata_tags (sm_seq m) (sm_msg_id m) (sm_created_at m) False) (pr_nick p) ch body"

lemma posts:
  "broadcast_task_event inp t action status actor body
   = post (i_log_uuid inp) (i_log_now inp) (t_channel t) SERVER_NAME body
       (task_event_line t action status actor body)"
  "privmsg inp se ch body = and_then (lift_res (session_principal se)) (\<lambda>p.
     and_then (reads (\<lambda>sv. is_member (pr_id p) ch (sv_db sv))) (\<lambda>member.
       if \<not> member then
         session_send se ('':'' @ SERVER_NAME @ '' 442 '' @ pr_nick p @ '' '' @ ch
           @ '' :You'' @ [CHR 0x27] @ ''re not on that channel'')
       else post (i_log_uuid inp) (i_log_now inp) ch (pr_id p) body (message_line p ch body)))"
  unfolding broadcast_task_event_def privmsg_def post_def task_event_line_def [abs_def]
    message_line_def [abs_def]
  by (rule refl)+

lemma post_run:
  "post u now ch s b f sv = (case history_append u now ch s b (sv_db sv) of
     (Inl e, d) \<Rightarrow> (Inl e, sv\<lparr>sv_db := d\<rparr>)
   | (Inr m, d) \<Rightarrow> (Inr (), fold (deliver_to ch (f m) (sm_seq m))
       (recipients_with_ids ch (sv_inner sv)) (sv\<lparr>sv_db := d\<rparr>)))"
  by (auto simp: post_def on_db_def and_then_def broadcast_message_run split: prod.split sum.split)

lemma keeps_post: "keeps sv_wf (post u now ch s b f)"
proof (rule keepsI)
  fix sv assume wf: "sv_wf sv"
  obtain r d where run: "history_append u now ch s b (sv_db sv) = (r, d)"
    by (cases "history_append u now ch s b (sv_db sv)")
  have wfd: "db_wf d" using db_wf_append [OF _ run] wf by (simp add: sv_wf_def)
  show "sv_wf (snd (post u now ch s b f sv))"
  proof (cases r)
    case (Inl e)
    with run wfd show ?thesis by (simp add: post_run)
  next
    case (Inr m)
    have log: "log_wf (sv_db sv)" using wf by (simp add: sv_wf_def db_wf_def)
    have "m \<in> set (channel_messages ch d)"
      using channel_messages_append [OF log, of u now ch s b m d ch] run Inr by simp
    then have "sm_seq m \<in> sm_seq ` set (channel_messages ch d)" by simp
    from db_wf_fold_seen [OF wfd this] run Inr show ?thesis
      by (simp add: post_run sv_wf_def deliver_fold)
  qed
qed

subsection \<open>Every handler keeps the database invariant\<close>

lemma keeps_send:
  "(\<And>sv n l. I sv \<Longrightarrow> I (push n [l] sv)) \<Longrightarrow> keeps I (session_send se line)"
  by (simp add: keeps_def session_send_run)

lemma keeps_on_db: "keeps db_wf m \<Longrightarrow> keeps sv_wf (on_db m)"
proof (rule keepsI)
  fix sv assume "keeps db_wf m" "sv_wf sv"
  then have "db_wf (snd (m (sv_db sv)))" by (simp add: sv_wf_def keepsD)
  then show "sv_wf (snd (on_db m sv))" by (simp add: on_db_def split_def)
qed

lemma keeps_or_else [keeps_rules]:
  "keeps I m \<Longrightarrow> (\<And>e. keeps I (h e)) \<Longrightarrow> (\<And>x. keeps I (k x)) \<Longrightarrow> keeps I (or_else m h k)"
  by (fastforce simp: keeps_def or_else_def split: prod.split sum.split err.split)

lemma keeps_sv_wf_send [keeps_rules]: "keeps sv_wf (session_send se line)"
  by (rule keeps_send) simp

lemma keeps_sv_wf_db [keeps_rules]:
  "(\<And>d. db_wf d \<Longrightarrow> db_wf (f d)) \<Longrightarrow> keeps sv_wf (on_db (modify f))"
  by (rule keeps_on_db) (rule keeps_modify)

lemma keeps_sv_wf_inner [keeps_rules]: "keeps sv_wf (on_inner f)"
  by (simp add: keeps_def on_inner_run)

lemma keeps_sv_wf_broadcast_raw [keeps_rules]: "keeps sv_wf (broadcast_raw c line)"
  by (simp add: keeps_def broadcast_raw_run sv_wf_def push_fold)

lemma keeps_sv_wf_replay [keeps_rules]: "keeps sv_wf (replay_history se cs a l)"
proof (rule keepsI)
  fix sv assume "sv_wf sv"
  then show "sv_wf (snd (replay_history se cs a l sv))"
    by (cases "s_principal se")
       (simp_all add: replay_history_run db_wf_replays sv_wf_def,
        simp add: replay_history_def session_principal_def act_simps sv_wf_def)
qed

lemma keeps_sv_wf_posts [keeps_rules]:
  "keeps sv_wf (privmsg inp se ch body)"
  "keeps sv_wf (broadcast_task_event inp t action status actor b)"
  unfolding posts by (intro keeps_rules keeps_post)+

lemma keeps_sv_wf_tasks [keeps_rules]:
  "keeps sv_wf (task_create inp se ch title)"
  "keeps sv_wf (task_claim inp se tid)"
  "keeps sv_wf (task_done inp se tid)"
  "keeps sv_wf (task_release inp se tid)"
  "keeps sv_wf (task_list se ch)"
  unfolding task_create_def task_claim_def task_done_def task_release_def task_list_def task_failed_def
  by (intro keeps_rules keeps_on_db keeps_db_wf_tasks)+

lemma keeps_sv_wf_rooms [keeps_rules]:
  "keeps sv_wf (join_channel inp se c)"
  "keeps sv_wf (part_channel se c)"
  "keeps sv_wf (disconnect inp se)"
  unfolding join_channel_def part_channel_def disconnect_def
  by (intro keeps_rules db_wf_add_membership db_wf_remove_membership db_wf_connect | assumption)+

lemma keeps_sv_wf_register: "keeps sv_wf (register inp p se)"
  by (simp add: keeps_def register_run db_wf_register_seen db_wf_connect sv_wf_def)

lemma run_authenticate_snd:
  "snd (run_authenticate cr t sv) = sv\<lparr>sv_legacy_hits := snd (authenticate cr t (sv_db sv) (sv_legacy_hits sv))\<rparr>"
  by (simp add: run_authenticate_def split: prod.split sum.split err.split)

lemma keeps_sv_wf_try_register [keeps_rules]: "keeps sv_wf (try_register cr inp se)"
proof -
  have "keeps sv_wf (run_authenticate cr t)" for t
    by (simp add: keeps_def run_authenticate_snd)
  moreover have "keeps sv_wf (case r of
      Inl e \<Rightarrow> and_then (session_send se l) (\<lambda>_. ret se) | Inr p \<Rightarrow> register inp p se)" for r l
    by (cases r) (auto intro!: keeps_rules keeps_sv_wf_register)
  ultimately show ?thesis
    unfolding try_register_def by (intro keeps_rules)
qed

lemma keeps_sv_wf_if_registered [keeps_rules]:
  "keeps sv_wf m \<Longrightarrow> keeps sv_wf (if_registered se m)"
  unfolding if_registered_def ensure_registered_def
  by (intro keeps_rules | assumption)+

lemma keeps_sv_wf_cap [keeps_rules]: "keeps sv_wf (cap se sub caps)"
  unfolding cap_def Let_def by (intro keeps_rules)

lemma keeps_sv_wf_chathistory [keeps_rules]: "keeps sv_wf (chathistory se c a l)"
  unfolding chathistory_def by (intro keeps_rules)

lemma keeps_handle_command: "keeps sv_wf (handle_command cr inp se cmd)"
  by (cases cmd) (auto intro!: keeps_rules)

subsection \<open>Quiet handlers\<close>

definition presence :: "principal_row \<Rightarrow> (string \<times> string \<times> string \<times> string option) \<times> int option \<times> int option" where
  "presence p = (static p, p_connected_at p, p_disconnected_at p)"

definition grows :: "mpsc \<Rightarrow> mpsc \<Rightarrow> bool" where
  "grows q q' \<longleftrightarrow> q_open q' = q_open q \<and> q_taken q' = q_taken q \<and> prefix (q_sent q) (q_sent q')"

definition same_roster :: "db \<Rightarrow> db \<Rightarrow> bool" where
  "same_roster d e \<longleftrightarrow> map presence (principals e) = map presence (principals d)
     \<and> map member_key (channel_memberships e) = map member_key (channel_memberships d)
     \<and> principal_tokens e = principal_tokens d"

definition quiet :: "server \<Rightarrow> server \<Rightarrow> bool" where
  "quiet sv0 sv \<longleftrightarrow> sv_inner sv = sv_inner sv0 \<and> shuts sv = shuts sv0
     \<and> same_roster (sv_db sv0) (sv_db sv) \<and> (\<forall>n. grows (outs sv0 n) (outs sv n))"

lemma grows_refl [simp]: "grows q q"
  by (simp add: grows_def)

lemma grows_trans: "grows a b \<Longrightarrow> grows b c \<Longrightarrow> grows a c"
  by (auto simp: grows_def intro: prefix_order.trans)

lemma grows_send [simp]: "grows q (send_all ls q)"
  by (simp add: grows_def send_all_def)

lemma quiet_refl: "quiet sv sv"
  by (simp add: quiet_def same_roster_def)

lemma same_roster_trans: "same_roster a b \<Longrightarrow> same_roster b c \<Longrightarrow> same_roster a c"
  by (simp add: same_roster_def)

lemma quiet_push [intro]: "quiet sv0 sv \<Longrightarrow> quiet sv0 (push n ls sv)"
  by (auto simp: quiet_def intro: grows_trans [OF _ grows_send])

lemma quiet_db: "quiet sv0 sv \<Longrightarrow> same_roster (sv_db sv) d \<Longrightarrow> quiet sv0 (sv\<lparr>sv_db := d\<rparr>)"
  by (auto simp: quiet_def intro: same_roster_trans)

lemma same_roster_mark_seen: "same_roster d (mark_seen p c s d)"
  by (simp add: same_roster_def mark_seen_rows presence_def static_def seen_principal_def
      seen_member_def member_key_def)

lemma same_roster_replay_seen: "same_roster d (replay_seen p c a l d)"
  using same_roster_mark_seen by (simp add: replay_seen_def Let_def) (simp add: same_roster_def)

lemma same_roster_folds:
  "same_roster d (fold (\<lambda>p. mark_seen p c s) ps d)"
  "same_roster d (fold (\<lambda>c. replay_seen p c a l) cs d)"
  "same_roster d (register_seen p ms d)"
proof -
  have f: "same_roster d (fold f xs d)" if "\<And>x d. same_roster d (f x d)"
    for f :: "'x \<Rightarrow> db \<Rightarrow> db" and xs d
  proof (induction xs arbitrary: d)
    case Nil
    show ?case by (simp add: same_roster_def)
  next
    case (Cons x xs)
    then show ?case using that same_roster_trans by simp blast
  qed
  show "same_roster d (fold (\<lambda>p. mark_seen p c s) ps d)"
    "same_roster d (fold (\<lambda>c. replay_seen p c a l) cs d)"
    "same_roster d (register_seen p ms d)"
    unfolding register_seen_def by (intro f same_roster_mark_seen same_roster_replay_seen)+
qed

lemma same_roster_store:
  "history_append u now ch s b d = (r, d') \<Longrightarrow> same_roster d d'"
  "d' = d\<lparr>tasks := tasks d'\<rparr> \<Longrightarrow> same_roster d d'"
proof -
  have sr: "same_roster d (d\<lparr>messages := ms, messages_seq := i\<rparr>)" "same_roster d (d\<lparr>tasks := ts\<rparr>)"
    for ms i ts by (simp_all add: same_roster_def)
  show "history_append u now ch s b d = (r, d') \<Longrightarrow> same_roster d d'"
    using sr(1) [where ms = "messages d'" and i = "messages_seq d'"] by (metis history_append_frame)
  show "d' = d\<lparr>tasks := tasks d'\<rparr> \<Longrightarrow> same_roster d d'"
    using sr(2) [where ts = "tasks d'"] by metis
qed

named_theorems quiet_rules \<open>rules that show a handler is quiet\<close>

lemma keeps_quiet_send [quiet_rules]: "keeps (quiet sv0) (session_send se line)"
  by (rule keeps_send) auto

lemma quiet_deliver_fold: "quiet sv0 sv \<Longrightarrow> quiet sv0 (fold (deliver_to c line seq) rs sv)"
proof -
  assume q: "quiet sv0 sv"
  have "same_roster (sv_db sv) (sv_db (fold (deliver_to c line seq) rs sv))"
    by (simp add: deliver_fold same_roster_folds)
  with q show ?thesis
    by (auto simp: quiet_def deliver_fold intro: same_roster_trans grows_trans [OF _ grows_send])
qed

lemma quiet_push_fold: "quiet sv0 sv \<Longrightarrow> quiet sv0 (fold (\<lambda>h. push (h_tx h) [line]) hs sv)"
  by (induction hs arbitrary: sv) auto

lemma keeps_quiet_post [quiet_rules]: "keeps (quiet sv0) (post u now ch s b f)"
  by (rule keepsI)
     (auto simp: post_run split: prod.split sum.split
       intro!: quiet_deliver_fold quiet_db dest: same_roster_store(1))

lemma keeps_quiet_tasks_db [quiet_rules]:
  "keeps (quiet sv0) (on_db (tasks_create u now ch t))"
  "keeps (quiet sv0) (on_db (tasks_claim l now tid p))"
  "keeps (quiet sv0) (on_db (tasks_done now tid p))"
  "keeps (quiet sv0) (on_db (tasks_release now tid p))"
  by (rule keepsI; simp add: on_db_def split: prod.split;
      blast intro: quiet_db same_roster_store(2) tasks_frame)+

lemma keeps_quiet_replay [quiet_rules]: "keeps (quiet sv0) (replay_history se cs a l)"
proof (rule keepsI)
  fix sv assume "quiet sv0 sv"
  then show "quiet sv0 (snd (replay_history se cs a l sv))"
    by (cases "s_principal se")
       (auto simp: replay_history_run intro!: quiet_db same_roster_folds simp del: push_db,
        simp add: replay_history_def session_principal_def act_simps)
qed

text \<open>The commands that a session runs without changing who is where.\<close>

fun quiet_command :: "command \<Rightarrow> bool" where
  "quiet_command (Pass _) = False"
| "quiet_command (Nick _) = False"
| "quiet_command (User _) = False"
| "quiet_command (Join _) = False"
| "quiet_command (Part _) = False"
| "quiet_command _ = True"

lemma keeps_quiet_handlers [quiet_rules]:
  "keeps (quiet sv0) (cap se sub caps)"
  "keeps (quiet sv0) (chathistory se c a l)"
  "keeps (quiet sv0) (privmsg inp se ch body)"
  "keeps (quiet sv0) (task_create inp se ch title)"
  "keeps (quiet sv0) (task_claim inp se tid)"
  "keeps (quiet sv0) (task_done inp se tid)"
  "keeps (quiet sv0) (task_release inp se tid)"
  "keeps (quiet sv0) (task_list se ch)"
  unfolding cap_def Let_def chathistory_def posts task_create_def task_claim_def task_done_def
    task_release_def task_list_def task_failed_def
  by (intro keeps_rules quiet_rules)+

lemma keeps_quiet_guard:
  "keeps (quiet sv0) m \<Longrightarrow> keeps (quiet sv0) (if_registered se m)"
  unfolding if_registered_def ensure_registered_def
  by (intro keeps_rules quiet_rules | assumption)+

lemma keeps_quiet_command:
  "quiet_command cmd \<Longrightarrow> keeps (quiet sv0) (handle_command cr inp se cmd)"
  by (cases cmd)
     (simp_all, (intro keeps_quiet_guard keeps_rules quiet_rules)+)

end
