(* ===== verification/Rooms.thy ===== *)
theory Rooms
  imports ServerInv
begin

section \<open>Who is where: the in-memory tables and the durable memberships\<close>

text \<open>
  The effect of JOIN, PART, registration and disconnect on the two in-memory tables, and the
  invariant \<open>rooms_ok\<close>: a channel's member set holds only durable members, and all of
  those that are connected; a connected principal is marked so in the database.
\<close>

definition room :: "string \<Rightarrow> server_inner \<Rightarrow> string list" where
  "room c i = (case channels i c of None \<Rightarrow> [] | Some ms \<Rightarrow> ms)"

lemma room_insert:
  "room c (channel_insert e pid i)
   = (if c = e \<and> pid \<notin> set (room e i) then room c i @ [pid] else room c i)"
  by (auto simp: room_def channel_insert_def Let_def split: option.split)

lemma room_remove:
  "room c (channel_remove e pid i) = (if c = e then filter (\<lambda>m. m \<noteq> pid) (room c i) else room c i)"
  by (auto simp: room_def channel_remove_def split: option.split)

lemma clients_channel [simp]:
  "clients (channel_insert e pid i) = clients i"
  "clients (channel_remove e pid i) = clients i"
  by (simp_all add: channel_insert_def channel_remove_def Let_def split: option.split)

lemma distinct_room_remove: "distinct (room c i) \<Longrightarrow> distinct (room c (channel_remove e pid i))"
  by (auto simp: room_remove)

lemma room_clients [simp]: "room c (i\<lparr>clients := f\<rparr>) = room c i"
  by (simp add: room_def)

lemma recipients_room: "(p, h) \<in> set (recipients_with_ids c i) \<longleftrightarrow> p \<in> set (room c i) \<and> clients i p = Some h"
  by (cases "channels i c") (auto simp: recipients_in room_def)

lemma recipients_rooms:
  "recipients_with_ids c i = List.map_filter (\<lambda>pid. map_option (Pair pid) (clients i pid)) (room c i)"
  by (simp add: recipients_with_ids_def room_def split: option.split)

lemma distinct_recipients:
  "distinct (room c i) \<Longrightarrow> distinct (map fst (recipients_with_ids c i))"
proof -
  have "map fst (List.map_filter (\<lambda>pid. map_option (Pair pid) (f pid)) ms)
      = filter (\<lambda>pid. f pid \<noteq> None) ms" for f :: "string \<rightharpoonup> client_handle" and ms
    by (induction ms) (auto simp: map_filter_simps)
  then show "distinct (room c i) \<Longrightarrow> distinct (map fst (recipients_with_ids c i))"
    by (simp add: recipients_rooms)
qed

lemma take_over_clients:
  "clients (take_over_inner p se cs i) = (clients i)(pr_id p \<mapsto> handle_of se)"
proof -
  have "clients (fold (\<lambda>c. channel_insert c pid) cs j) = clients j" for pid j
    by (induction cs arbitrary: j) simp_all
  then show ?thesis by (simp add: take_over_inner_def)
qed

lemma take_over_room:
  "set (room c (take_over_inner p se cs i))
   = set (room c i) \<union> (if c \<in> set cs then {pr_id p} else {})"
  "distinct (room c i) \<Longrightarrow> distinct (room c (take_over_inner p se cs i))"
proof -
  let ?f = "\<lambda>cs j. fold (\<lambda>c. channel_insert c (pr_id p)) cs j"
  have "set (room c (?f cs j)) = set (room c j) \<union> (if c \<in> set cs then {pr_id p} else {})
      \<and> (distinct (room c j) \<longrightarrow> distinct (room c (?f cs j)))" for j
    by (induction cs arbitrary: j) (auto simp: room_insert)
  then show "set (room c (take_over_inner p se cs i))
      = set (room c i) \<union> (if c \<in> set cs then {pr_id p} else {})"
    "distinct (room c i) \<Longrightarrow> distinct (room c (take_over_inner p se cs i))"
    by (simp_all add: take_over_inner_def)
qed

subsection \<open>The invariant\<close>

definition online :: "db \<Rightarrow> string \<Rightarrow> bool" where
  "online d pid \<longleftrightarrow> (\<exists>p \<in> set (principals d).
     p_id p = pid \<and> p_connected_at p \<noteq> None \<and> p_disconnected_at p = None)"

definition rooms_ok :: "server_inner \<Rightarrow> db \<Rightarrow> bool" where
  "rooms_ok i d \<longleftrightarrow>
     (\<forall>c. distinct (room c i) \<and> (\<forall>pid \<in> set (room c i). is_member pid c d))
     \<and> (\<forall>pid c. clients i pid \<noteq> None \<and> is_member pid c d \<longrightarrow> pid \<in> set (room c i))
     \<and> (\<forall>pid. clients i pid \<noteq> None \<longrightarrow> online d pid)"

lemma is_member_keys: "is_member pid c d \<longleftrightarrow> (pid, c) \<in> set (map member_key (channel_memberships d))"
  unfolding is_member_in set_map image_iff by metis

lemma online_presence:
  "online d pid \<longleftrightarrow> (\<exists>x \<in> set (map presence (principals d)).
     fst (fst x) = pid \<and> fst (snd x) \<noteq> None \<and> snd (snd x) = None)"
  by (auto simp: online_def presence_def static_def)

lemma same_roster_stable:
  assumes "same_roster d e"
  shows "is_member pid c e = is_member pid c d" "online e pid = online d pid"
proof -
  have "map member_key (channel_memberships e) = map member_key (channel_memberships d)"
    "map presence (principals e) = map presence (principals d)"
    using assms by (simp_all add: same_roster_def)
  then show "is_member pid c e = is_member pid c d" "online e pid = online d pid"
    unfolding is_member_keys online_presence by metis+
qed

lemma rooms_ok_roster: "same_roster d e \<Longrightarrow> rooms_ok i e = rooms_ok i d"
  by (simp only: rooms_ok_def same_roster_stable [of d e])

lemma rooms_ok_quiet: "quiet sv0 sv \<Longrightarrow> rooms_ok (sv_inner sv) (sv_db sv) = rooms_ok (sv_inner sv0) (sv_db sv0)"
  by (simp add: quiet_def rooms_ok_roster [of "sv_db sv0" "sv_db sv"])

lemma rooms_okI:
  assumes "\<And>c. distinct (room c i)" "\<And>c pid. pid \<in> set (room c i) \<Longrightarrow> is_member pid c d"
    and "\<And>pid c h. clients i pid = Some h \<Longrightarrow> is_member pid c d \<Longrightarrow> pid \<in> set (room c i)"
    and "\<And>pid h. clients i pid = Some h \<Longrightarrow> online d pid"
  shows "rooms_ok i d"
  using assms unfolding rooms_ok_def by blast

lemma rooms_okD:
  assumes "rooms_ok i d"
  shows "distinct (room c i)" "pid \<in> set (room c i) \<Longrightarrow> is_member pid c d"
    "clients i pid = Some h \<Longrightarrow> is_member pid c d \<Longrightarrow> pid \<in> set (room c i)"
    "clients i pid = Some h \<Longrightarrow> online d pid"
  using assms unfolding rooms_ok_def by blast+

lemma rooms_ok_new: "rooms_ok \<lparr>clients = Map.empty, channels = Map.empty\<rparr> d"
  by (simp add: rooms_ok_def room_def)

lemma is_member_add: "is_member p c (add_membership now q e d) \<longleftrightarrow> is_member p c d \<or> p = q \<and> c = e"
  by (auto simp: is_member_cursor cursor_add_membership)

lemma is_member_remove:
  "members_wf d \<Longrightarrow> is_member p c (remove_membership q e d) \<longleftrightarrow> is_member p c d \<and> \<not> (p = q \<and> c = e)"
  by (auto simp: is_member_cursor cursor_remove_membership)

lemma memberships_channels: "set (map mb_channel (memberships pid d)) = {c. is_member pid c d}"
  by (auto simp: memberships_def is_member_in member_key_def image_iff)

lemma online_frame [simp]:
  "online (add_membership now p c d) q = online d q"
  "online (remove_membership p c d) q = online d q"
  by (simp_all add: online_def add_membership_def remove_membership_def)

lemma rooms_ok_join:
  "rooms_ok i d \<Longrightarrow> rooms_ok (channel_insert c pid i) (add_membership now pid c d)"
  by (rule rooms_okI) (auto simp: room_insert is_member_add dest: rooms_okD split: if_splits)

lemma rooms_ok_part:
  "rooms_ok i d \<Longrightarrow> members_wf d \<Longrightarrow> rooms_ok (channel_remove c pid i) (remove_membership pid c d)"
  by (rule rooms_okI)
     (auto simp: room_remove is_member_remove dest: rooms_okD(2-4) intro: rooms_okD(1) distinct_filter split: if_splits)

lemma online_update:
  assumes "\<And>r. p_id (f r) = p_id r"
  shows "online (update_principals P f d) q \<longleftrightarrow> (\<exists>r \<in> set (principals d). p_id r = q
    \<and> (if P r then p_connected_at (f r) \<noteq> None \<and> p_disconnected_at (f r) = None
       else p_connected_at r \<noteq> None \<and> p_disconnected_at r = None))"
proof -
  have "set (principals (update_principals P f d)) = (\<lambda>r. if P r then f r else r) ` set (principals d)"
    by (simp add: update_principals_def update_where_def)
  then show ?thesis
    unfolding online_def by (simp only: bex_simps) (intro bex_cong refl, simp add: assms)
qed

lemma online_connected:
  "online (mark_connected now p d) q \<longleftrightarrow> (if p = q then p \<in> p_id ` set (principals d) else online d q)"
proof (cases "p = q")
  case True
  then show ?thesis by (force simp: mark_connected_def online_update)
next
  case False
  then show ?thesis
    unfolding mark_connected_def online_def [of d] by (simp add: online_update) metis
qed

lemma online_disconnected:
  "q \<noteq> p \<Longrightarrow> online (mark_disconnected now p d) q = online d q"
  "\<not> online (mark_disconnected now p d) p"
proof -
  show "q \<noteq> p \<Longrightarrow> online (mark_disconnected now p d) q = online d q"
    unfolding mark_disconnected_def online_def [of d] by (simp add: online_update) metis
  show "\<not> online (mark_disconnected now p d) p"
    unfolding mark_disconnected_def by (auto simp: online_update)
qed

lemma is_member_connect [simp]:
  "is_member p c (mark_connected now q d) = is_member p c d"
  "is_member p c (mark_disconnected now q d) = is_member p c d"
  by (simp_all add: is_member_def mark_connected_def mark_disconnected_def)

lemma rooms_ok_leave:
  "rooms_ok i d \<Longrightarrow> rooms_ok (i\<lparr>clients := (clients i)(pid := None)\<rparr>) (mark_disconnected now pid d)"
  by (rule rooms_okI) (auto simp: online_disconnected dest: rooms_okD split: if_splits)

lemma rooms_ok_register:
  assumes "rooms_ok i d" "pr_id p \<in> p_id ` set (principals d)"
  shows "rooms_ok (take_over_inner p se (map mb_channel (memberships (pr_id p) d)) i)
           (register_seen (pr_id p) ms (mark_connected now (pr_id p) d))"
proof -
  let ?cs = "map mb_channel (memberships (pr_id p) d)"
  have cs: "set ?cs = {c. is_member (pr_id p) c d}" by (rule memberships_channels)
  have "pr_id p \<in> set (room c i) \<Longrightarrow> is_member (pr_id p) c d" for c
    using assms(1) by (rule rooms_okD)
  have "rooms_ok (take_over_inner p se ?cs i) (mark_connected now (pr_id p) d)"
    using assms
    by (intro rooms_okI)
       (auto simp: take_over_room(1) take_over_clients cs online_connected simp del: set_map
         dest: rooms_okD(2-4) intro: take_over_room(2) rooms_okD(1) split: if_splits)
  then show ?thesis using rooms_ok_roster [OF same_roster_folds(3)] by blast
qed

subsection \<open>The four handlers that change the tables\<close>

lemma join_channel_run:
  assumes "s_principal se = Some p"
  shows "join_channel inp se c sv = (Inr (),
    fold (\<lambda>h. push (h_tx h) ['':'' @ pr_nick p @ '' JOIN '' @ c])
      (recipients c (channel_insert c (pr_id p) (sv_inner sv)))
      (sv\<lparr>sv_db := add_membership (i_now inp) (pr_id p) c (sv_db sv),
          sv_inner := channel_insert c (pr_id p) (sv_inner sv)\<rparr>))"
  using assms
  by (simp add: join_channel_def session_principal_def and_then_simple send_simps broadcast_raw_run)

lemma part_channel_run:
  assumes "s_principal se = Some p"
  shows "part_channel se c sv = (Inr (),
    fold (\<lambda>h. push (h_tx h) ['':'' @ pr_nick p @ '' PART '' @ c])
      (recipients c (channel_remove c (pr_id p) (sv_inner sv)))
      (sv\<lparr>sv_db := remove_membership (pr_id p) c (sv_db sv),
          sv_inner := channel_remove c (pr_id p) (sv_inner sv)\<rparr>))"
  using assms
  by (simp add: part_channel_def session_principal_def and_then_simple send_simps broadcast_raw_run)

definition owns :: "session \<Rightarrow> server_inner \<Rightarrow> string \<Rightarrow> bool" where
  "owns se i pid \<longleftrightarrow> (case clients i pid of Some h \<Rightarrow> h_tx h = s_tx se | None \<Rightarrow> False)"

lemma disconnect_run:
  "disconnect inp se sv = (Inr (), (case s_principal se of
     None \<Rightarrow> sv
   | Some p \<Rightarrow> if owns se (sv_inner sv) (pr_id p)
       then sv\<lparr>sv_inner := (sv_inner sv)\<lparr>clients := (clients (sv_inner sv))(pr_id p := None)\<rparr>,
               sv_db := mark_disconnected (i_now inp) (pr_id p) (sv_db sv)\<rparr>
       else sv))"
  by (auto simp: disconnect_def owns_def act_simps send_simps split: option.split)

definition guard_ok :: "session \<Rightarrow> server \<Rightarrow> bool" where
  "guard_ok se sv \<longleftrightarrow> s_registered se
     \<and> (\<exists>p h. s_principal se = Some p \<and> clients (sv_inner sv) (pr_id p) = Some h
          \<and> h_session_id h = s_session_id se)"

lemma if_registered_cases:
  obtains (unregistered) "\<not> s_registered se"
      "if_registered se m sv = (Inr (se, False),
         push (s_tx se) ['':'' @ SERVER_NAME @ '' 451 * :You have not registered''] sv)"
  | (odd) "s_registered se" "s_principal se = None"
      "if_registered se m sv = (Inl (Anyhow ''session has no principal''), sv)"
  | (replaced) p where "s_registered se" "s_principal se = Some p" "\<not> guard_ok se sv"
      "if_registered se m sv = (Inl (Anyhow ''session replaced''),
         push (s_tx se) ['':'' @ SERVER_NAME @ '' ERROR :Session replaced by a newer connection''] sv)"
  | (active) p where "s_registered se" "s_principal se = Some p" "guard_ok se sv"
      "if_registered se m sv = and_then m (\<lambda>_. ret (se, False)) sv"
proof (cases "s_registered se")
  case False
  then show ?thesis
    by (intro unregistered) (simp_all add: if_registered_def ensure_registered_def and_then_assoc
        act_simps and_then_send)
next
  case True
  show ?thesis
  proof (cases "s_principal se")
    case None
    with True show ?thesis
      by (intro odd) (simp_all add: if_registered_def ensure_registered_def session_principal_def
          and_then_assoc act_simps)
  next
    case (Some p)
    let ?a = "case clients (sv_inner sv) (pr_id p) of
        Some h \<Rightarrow> h_session_id h = s_session_id se | None \<Rightarrow> False"
    have g: "guard_ok se sv \<longleftrightarrow> ?a"
      using True Some by (auto simp: guard_ok_def split: option.splits)
    show ?thesis
    proof (cases ?a)
      case a: True
      then show ?thesis
        using True Some g by (intro active)
          (simp_all add: if_registered_def ensure_registered_def session_principal_def
            and_then_assoc act_simps)
    next
      case a: False
      then show ?thesis
        using True Some g by (intro replaced)
          (simp_all add: if_registered_def ensure_registered_def session_principal_def
            and_then_assoc act_simps and_then_send)
    qed
  qed
qed

end
