(* ===== verification/Outcome.thy ===== *)
theory Outcome
  imports Rooms
begin

section \<open>The outcomes of a command\<close>

text \<open>
  A command either leaves the table of clients, the shutdown queues and the identity of its
  session alone (\<open>stays\<close>, \<open>same_link\<close>), or it is the registration of the session.
  \<open>command_cases\<close> is the case rule of that; the connection loop of theory System rests
  on it.
\<close>

definition stays :: "server \<Rightarrow> server \<Rightarrow> bool" where
  "stays sv sv' \<longleftrightarrow> clients (sv_inner sv') = clients (sv_inner sv) \<and> shuts sv' = shuts sv
     \<and> map p_id (principals (sv_db sv')) = map p_id (principals (sv_db sv))
     \<and> (\<forall>n. grows (outs sv n) (outs sv' n))"

definition same_link :: "session \<Rightarrow> session \<Rightarrow> bool" where
  "same_link se se' \<longleftrightarrow> s_session_id se' = s_session_id se \<and> s_tx se' = s_tx se
     \<and> s_shutdown_tx se' = s_shutdown_tx se \<and> s_principal se' = s_principal se
     \<and> s_registered se' = s_registered se"

lemma same_link_refl [simp]: "same_link se se"
  by (simp add: same_link_def)

lemma same_link_handle: "same_link se se' \<Longrightarrow> handle_of se' = handle_of se"
  by (simp add: same_link_def handle_of_def)

lemma stays_refl: "stays sv sv"
  by (simp add: stays_def)

lemma presence_ids: "map p_id xs = map (\<lambda>x. fst (fst x)) (map presence xs)"
  by (simp add: presence_def static_def)

lemma quiet_stays: "quiet sv sv' \<Longrightarrow> stays sv sv'"
  by (simp only: quiet_def stays_def same_roster_def presence_ids simp_thms)

text \<open>A registration, as a relation between server states.\<close>

definition registers :: "inputs \<Rightarrow> principal \<Rightarrow> session \<Rightarrow> server \<Rightarrow> server \<Rightarrow> bool" where
  "registers inp p se sv sv' \<longleftrightarrow>
     (\<exists>hits. register inp p se (sv\<lparr>sv_legacy_hits := hits\<rparr>) = (Inr (registered_session p se), sv'))
     \<and> pr_id p \<in> p_id ` set (principals (sv_db sv))"

lemma if_registered_quits: "fst (if_registered se m sv) = Inr (se', b) \<Longrightarrow> se' = se \<and> \<not> b"
  by (rule if_registered_cases [of se m sv])
     (auto simp: and_then_def run_act split: prod.splits sum.splits)

lemma quiet_command_session:
  assumes "quiet_command cmd" "fst (handle_command cr inp se cmd sv) = Inr (se', b)"
  shows "se' = se"
proof -
  have "fst (and_then m (\<lambda>_. ret (se, b')) sv) = Inr (se', b) \<Longrightarrow> se' = se"
    for m :: "(server, unit) act" and b'
    by (auto simp: and_then_def run_act split: prod.splits sum.splits)
  with assms show ?thesis
    by (cases cmd) (auto dest: if_registered_quits simp: run_act)
qed

lemma push_fold_stays: "stays sv (fold (\<lambda>h. push (h_tx h) [line]) hs sv)"
  by (simp add: stays_def push_fold)

lemma stays_trans: "stays a b \<Longrightarrow> stays b c \<Longrightarrow> stays a c"
  by (auto simp: stays_def intro: grows_trans)

lemma stays_push: "stays sv (push n ls sv)"
  by (simp add: stays_def)

lemma guarded_stays:
  assumes "s_registered se \<Longrightarrow> s_principal se \<noteq> None \<Longrightarrow> stays sv (snd (m sv))"
  shows "stays sv (snd (if_registered se m sv))"
proof (rule if_registered_cases [of se m sv])
  fix p
  assume a: "s_registered se" "s_principal se = Some p"
    "if_registered se m sv = and_then m (\<lambda>_. ret (se, False)) sv"
  then have "stays sv (snd (m sv))" using assms by simp
  with a(3) show ?thesis by (simp add: snd_and_then_ret)
qed (simp_all add: stays_push stays_refl)

lemma guarded_rooms_ok:
  assumes "\<And>p. s_registered se \<Longrightarrow> s_principal se = Some p \<Longrightarrow>
      rooms_ok (sv_inner (snd (m sv))) (sv_db (snd (m sv)))"
    and "rooms_ok (sv_inner sv) (sv_db sv)"
  shows "rooms_ok (sv_inner (snd (if_registered se m sv))) (sv_db (snd (if_registered se m sv)))"
proof (rule if_registered_cases [of se m sv])
  fix p
  assume a: "s_registered se" "s_principal se = Some p"
    "if_registered se m sv = and_then m (\<lambda>_. ret (se, False)) sv"
  then have "rooms_ok (sv_inner (snd (m sv))) (sv_db (snd (m sv)))" using assms(1) by simp
  with a(3) show ?thesis by (simp add: snd_and_then_ret)
qed (simp_all add: assms(2))

lemma map_p_id_member_ops [simp]:
  "principals (add_membership now p c d) = principals d"
  "principals (remove_membership p c d) = principals d"
  by (simp_all add: add_membership_def remove_membership_def)

lemma join_stays: "s_principal se \<noteq> None \<Longrightarrow> stays sv (snd (join_channel inp se c sv))"
  by (auto simp: join_channel_run intro!: stays_trans [OF _ push_fold_stays]) (simp add: stays_def)

lemma part_stays: "s_principal se \<noteq> None \<Longrightarrow> stays sv (snd (part_channel se c sv))"
  by (auto simp: part_channel_run intro!: stays_trans [OF _ push_fold_stays]) (simp add: stays_def)

text \<open>What \<open>try_register\<close> can do.\<close>

lemma try_register_cases:
  assumes "try_register cr inp se sv = (r, sv')"
  obtains (same) "stays sv sv'" "quiet sv sv'" "r = Inr se \<or> (\<exists>m. r = Inl (Panic m))"
  | (new) p token where "\<not> s_registered se" "s_pass_token se = Some token"
      "fst (authenticate cr token (sv_db sv) (sv_legacy_hits sv)) = Inr p"
      "registers inp p se sv sv'" "r = Inr (registered_session p se)"
proof -
  have hits: "quiet sv (sv\<lparr>sv_legacy_hits := h\<rparr>)" for h
    by (simp add: quiet_def same_roster_def)
  consider (idle) "s_registered se \<or> s_pass_token se = None \<or> s_nick se = None"
    | (try_it) token where "\<not> s_registered se" "s_pass_token se = Some token" "s_nick se \<noteq> None"
    by (metis option.exhaust)
  then show ?thesis
  proof cases
    case idle
    then have "r = Inr se \<and> sv' = sv"
      using assms by (auto simp: try_register_def run_act split: option.splits if_splits)
    then show ?thesis by (intro same) (simp_all add: stays_refl quiet_refl)
  next
    case try_it
    obtain a h where auth: "authenticate cr token (sv_db sv) (sv_legacy_hits sv) = (a, h)"
      by (cases "authenticate cr token (sv_db sv) (sv_legacy_hits sv)")
    show ?thesis
    proof (cases a)
      case (Inl e)
      with assms try_it auth have "quiet sv sv' \<and> (r = Inr se \<or> (\<exists>m. r = Inl (Panic m)))"
        by (cases e) (auto simp: try_register_def run_authenticate_def and_then_def session_send_run
            run_act hits intro!: quiet_push)
      then show ?thesis using quiet_stays same by blast
    next
      case (Inr p)
      then obtain row where "row \<in> set (principals (sv_db sv))" "p = principal_of_row row"
        using authenticate_sound [of cr token "sv_db sv" "sv_legacy_hits sv" p h] auth by auto
      then have "pr_id p \<in> p_id ` set (principals (sv_db sv))" by (simp add: principal_of_row_def)
      moreover have "register inp p se (sv\<lparr>sv_legacy_hits := h\<rparr>) = (r, sv')"
        using assms try_it auth Inr by (simp add: try_register_def run_authenticate_def and_then_def)
      moreover from this have "r = Inr (registered_session p se)"
        by (simp add: register_run)
      ultimately show ?thesis
        using try_it auth Inr by (intro new [of token p]) (auto simp: registers_def)
    qed
  qed
qed

lemma registers_rooms_ok:
  assumes "registers inp p se sv sv'" "rooms_ok (sv_inner sv) (sv_db sv)"
  shows "rooms_ok (sv_inner sv') (sv_db sv')"
proof -
  obtain hits where run: "register inp p se (sv\<lparr>sv_legacy_hits := hits\<rparr>)
      = (Inr (registered_session p se), sv')"
    using assms(1) by (auto simp: registers_def)
  have "pr_id p \<in> p_id ` set (principals (sv_db sv))" using assms(1) by (simp add: registers_def)
  from rooms_ok_register [OF assms(2) this] run show ?thesis by (auto simp: register_run)
qed

lemma try_register_rooms_ok:
  assumes "rooms_ok (sv_inner sv) (sv_db sv)"
  shows "rooms_ok (sv_inner (snd (try_register cr inp se sv))) (sv_db (snd (try_register cr inp se sv)))"
proof (cases "try_register cr inp se sv")
  case (Pair r sv')
  then show ?thesis
    by (rule try_register_cases)
       (use assms Pair registers_rooms_ok rooms_ok_quiet in auto)
qed

lemma handle_command_rooms_ok:
  assumes ok: "rooms_ok (sv_inner sv) (sv_db sv)" and wf: "members_wf (sv_db sv)"
  shows "rooms_ok (sv_inner (snd (handle_command cr inp se cmd sv)))
           (sv_db (snd (handle_command cr inp se cmd sv)))"
proof (cases "quiet_command cmd")
  case True
  then have "quiet sv (snd (handle_command cr inp se cmd sv))"
    by (rule keepsD [OF keeps_quiet_command quiet_refl])
  with ok show ?thesis by (simp add: rooms_ok_quiet)
next
  case False
  have reg: "rooms_ok (sv_inner (snd (and_then (try_register cr inp s) k sv)))
      (sv_db (snd (and_then (try_register cr inp s) k sv)))"
    if "\<And>x t. snd (k x t) = t" for s and k :: "session \<Rightarrow> (server, session \<times> bool) act"
    using try_register_rooms_ok [OF ok, of cr inp s] snd_and_then [of k, OF that]
    by simp
  show ?thesis
  proof (cases cmd)
    case (Join c)
    then show ?thesis
      by (simp del: not_None_eq, intro guarded_rooms_ok ok)
         (simp add: join_channel_run push_fold rooms_ok_join [OF ok])
  next
    case (Part c)
    then show ?thesis
      by (simp del: not_None_eq, intro guarded_rooms_ok ok)
         (simp add: part_channel_run push_fold rooms_ok_part [OF ok wf])
  qed (use False in \<open>auto intro!: reg simp: run_act\<close>)
qed

text \<open>The case rule for a command.\<close>

lemma command_cases:
  assumes run: "handle_command cr inp se cmd sv = (r, sv')"
    and link: "s_registered se \<longleftrightarrow> s_principal se \<noteq> None"
  obtains (stay) "stays sv sv'" "\<And>se' b. r = Inr (se', b) \<Longrightarrow> same_link se se'"
  | (new) p se0 where "\<not> s_registered se" "same_link se se0" "registers inp p se0 sv sv'"
      "r = Inr (registered_session p se0, False)"
proof -
  note new_case = new
  have reg: ?thesis
    if "and_then (try_register cr inp se0) (\<lambda>s. ret (s, False)) sv = (r, sv')" "same_link se se0" for se0
  proof -
    obtain a t where t: "try_register cr inp se0 sv = (a, t)" by (cases "try_register cr inp se0 sv")
    then show ?thesis
    proof (cases rule: try_register_cases)
      case same
      with that t show ?thesis
        by (intro stay) (auto simp: and_then_def run_act split: sum.splits)
    next
      case (new p token)
      with that t show ?thesis
        by (intro new_case [of se0 p]) (auto simp: and_then_def run_act same_link_def)
    qed
  qed
  show ?thesis
  proof (cases "quiet_command cmd")
    case True
    have "quiet sv sv'"
      using keepsD_eq [OF keeps_quiet_command [OF True] quiet_refl run] .
    moreover have "se' = se" if "r = Inr (se', b)" for se' b
      using quiet_command_session [OF True, of cr inp se sv se' b] run that by simp
    ultimately show ?thesis using stay quiet_stays by (metis same_link_refl)
  next
    case False
    have guard: ?thesis if "if_registered se m sv = (r, sv')"
        "s_registered se \<Longrightarrow> s_principal se \<noteq> None \<Longrightarrow> stays sv (snd (m sv))" for m
    proof (rule stay)
      show "stays sv sv'" using guarded_stays [of se sv m] that by simp
      show "same_link se se'" if "r = Inr (se', b)" for se' b
        using if_registered_quits [of se m sv se' b] \<open>if_registered se m sv = (r, sv')\<close> that by simp
    qed
    show ?thesis
    proof (cases cmd)
      case (Pass t)
      with run show ?thesis by (intro reg [of "se\<lparr>s_pass_token := Some t\<rparr>"]) (simp_all add: same_link_def)
    next
      case (Nick n)
      with run show ?thesis by (intro reg [of "se\<lparr>s_nick := Some n\<rparr>"]) (simp_all add: same_link_def)
    next
      case (User u)
      with run show ?thesis by (intro reg [of se]) simp_all
    next
      case (Join c)
      with run show ?thesis by (intro guard [of "join_channel inp se (normalize_channel c)"] join_stays) simp_all
    next
      case (Part c)
      with run show ?thesis by (intro guard [of "part_channel se (normalize_channel c)"] part_stays) simp_all
    qed (use False in simp_all)
  qed
qed

lemma try_register_new:
  assumes "try_register cr inp se sv = (Inr se', sv')" "\<not> s_registered se" "s_registered se'"
  shows "\<exists>p. s_principal se' = Some p \<and> registers inp p se sv sv'"
  using assms(1)
  by (cases rule: try_register_cases) (use assms(2,3) in auto)

end
