(* ===== verification/System.thy ===== *)
theory System
  imports Outcome
begin

section \<open>Connections: the loop of \<open>handle_stream\<close>\<close>

text \<open>
  The running server: the shared \<open>server\<close> and one \<open>conn\<close> per accepted stream. A step
  is one arm of the \<open>select!\<close> of one connection (a line, end of input, a read error, a
  shutdown reason), the acceptance of a stream, or a move of a writer task. Where
  \<open>handle_stream\<close> leaves with \<open>?\<close>, the connection is gone without \<open>disconnect\<close>
  and its writer task lives on. The invariant \<open>sys_ok\<close> and what it gives about the
  states of a run follow from the interface \<open>transition_system\<close>.
\<close>

subsection \<open>States and events\<close>

datatype conn = Idle | Live session | Gone session

record system =
  sy_server :: server
  sy_conns :: "nat \<Rightarrow> conn"

datatype event =
    Accept nat string
  | Line nat inputs string
  | Eof nat inputs
  | ReadError nat
  | Shut nat inputs
  | Written nat
  | WriteError nat

fun conn_session :: "conn \<Rightarrow> session option" where
  "conn_session Idle = None"
| "conn_session (Live se) = Some se"
| "conn_session (Gone se) = Some se"

definition sess :: "system \<Rightarrow> nat \<Rightarrow> session option" where
  "sess sy n = conn_session (sy_conns sy n)"

definition new_session :: "nat \<Rightarrow> string \<Rightarrow> session" where
  "new_session n uuid =
     \<lparr>s_session_id = ''sess_'' @ uuid, s_principal = None, s_nick = None, s_pass_token = None,
      s_registered = False, s_tx = n, s_shutdown_tx = n\<rparr>"

text \<open>The receivers end: \<open>writer_task.abort()\<close>, and \<open>shutdown_rx\<close> out of scope.\<close>

definition close_out :: "nat \<Rightarrow> server \<Rightarrow> server" where
  "close_out n sv = sv\<lparr>outs := (outs sv)(n := (outs sv n)\<lparr>q_open := False\<rparr>)\<rparr>"

definition close_shut :: "nat \<Rightarrow> server \<Rightarrow> server" where
  "close_shut n sv = sv\<lparr>shuts := (shuts sv)(n := (shuts sv n)\<lparr>q_open := False\<rparr>)\<rparr>"

definition take_out :: "nat \<Rightarrow> server \<Rightarrow> server" where
  "take_out n sv = sv\<lparr>outs := (outs sv)(n := (outs sv n)\<lparr>q_taken := Suc (q_taken (outs sv n))\<rparr>)\<rparr>"

definition accept_conn :: "nat \<Rightarrow> string \<Rightarrow> system \<Rightarrow> system" where
  "accept_conn n uuid sy =
     (let se = new_session n uuid;
          sv = (sy_server sy)\<lparr>outs := (outs (sy_server sy))(n := new_mpsc),
                              shuts := (shuts (sy_server sy))(n := new_mpsc)\<rparr>
      in \<lparr>sy_server = snd (session_send se ('':'' @ SERVER_NAME @ '' NOTICE * :Welcome to aircd prototype'') sv),
          sy_conns = (sy_conns sy)(n := Live se)\<rparr>)"

text \<open>After the loop: \<open>disconnect\<close>, whose error would skip the abort, then the abort.\<close>

definition leave_loop :: "inputs \<Rightarrow> nat \<Rightarrow> session \<Rightarrow> server \<Rightarrow> system \<Rightarrow> system" where
  "leave_loop inp n se sv sy =
     (case disconnect inp se sv of
        (Inr _, sv') \<Rightarrow> \<lparr>sy_server = close_out n (close_shut n sv'), sy_conns = (sy_conns sy)(n := Gone se)\<rparr>
      | (Inl _, sv') \<Rightarrow> \<lparr>sy_server = close_shut n sv', sy_conns = (sy_conns sy)(n := Gone se)\<rparr>)"

text \<open>Leaving with \<open>?\<close> or by a panic.\<close>

definition drop_conn :: "nat \<Rightarrow> session \<Rightarrow> server \<Rightarrow> system \<Rightarrow> system" where
  "drop_conn n se sv sy =
     \<lparr>sy_server = close_shut n sv, sy_conns = (sy_conns sy)(n := Gone se)\<rparr>"

definition on_line :: "crypto \<Rightarrow> inputs \<Rightarrow> nat \<Rightarrow> session \<Rightarrow> string \<Rightarrow> system \<Rightarrow> system" where
  "on_line cr inp n se line sy =
     (case handle_line cr inp se line (sy_server sy) of
        (Inl _, sv) \<Rightarrow> drop_conn n se sv sy
      | (Inr (se', should_quit), sv) \<Rightarrow>
          if should_quit then leave_loop inp n se' sv sy
          else \<lparr>sy_server = sv, sy_conns = (sy_conns sy)(n := Live se')\<rparr>)"

definition on_shutdown :: "inputs \<Rightarrow> nat \<Rightarrow> session \<Rightarrow> system \<Rightarrow> system" where
  "on_shutdown inp n se sy =
     (let reason = q_sent (shuts (sy_server sy) n) ! q_taken (shuts (sy_server sy) n) in
      leave_loop inp n se
        (snd (session_send se ('':'' @ SERVER_NAME @ '' ERROR :'' @ reason) (sy_server sy))) sy)"

subsection \<open>Steps\<close>

inductive sys_step :: "crypto \<Rightarrow> system \<Rightarrow> event \<Rightarrow> system \<Rightarrow> bool" for cr where
  accept: "sy_conns sy n = Idle \<Longrightarrow>
     (\<And>m se. sess sy m = Some se \<Longrightarrow> s_session_id se \<noteq> ''sess_'' @ uuid) \<Longrightarrow>
     sys_step cr sy (Accept n uuid) (accept_conn n uuid sy)"
| line: "sy_conns sy n = Live se \<Longrightarrow> sys_step cr sy (Line n inp l) (on_line cr inp n se l sy)"
| eof: "sy_conns sy n = Live se \<Longrightarrow>
     sys_step cr sy (Eof n inp) (leave_loop inp n se (sy_server sy) sy)"
| read_error: "sy_conns sy n = Live se \<Longrightarrow>
     sys_step cr sy (ReadError n) (drop_conn n se (sy_server sy) sy)"
| shut: "sy_conns sy n = Live se \<Longrightarrow>
     q_taken (shuts (sy_server sy) n) < length (q_sent (shuts (sy_server sy) n)) \<Longrightarrow>
     sys_step cr sy (Shut n inp) (on_shutdown inp n se sy)"
| written: "sy_conns sy n \<noteq> Idle \<Longrightarrow> q_open (outs (sy_server sy) n) \<Longrightarrow>
     q_taken (outs (sy_server sy) n) < length (q_sent (outs (sy_server sy) n)) \<Longrightarrow>
     sys_step cr sy (Written n) (sy\<lparr>sy_server := take_out n (sy_server sy)\<rparr>)"
| write_error: "sy_conns sy n \<noteq> Idle \<Longrightarrow>
     sys_step cr sy (WriteError n) (sy\<lparr>sy_server := close_out n (sy_server sy)\<rparr>)"

inductive_cases sys_stepE: "sys_step cr sy ev sy'"
inductive_cases sys_step_acceptE: "sys_step cr sy (Accept n uuid) sy'"
inductive_cases sys_step_lineE: "sys_step cr sy (Line n inp l) sy'"
inductive_simps sys_step_line_iff: "sys_step cr sy (Line n inp l) sy'"

definition sys_start :: "string option \<Rightarrow> db \<Rightarrow> system" where
  "sys_start lease_env d = \<lparr>sy_server = server_new lease_env d, sy_conns = (\<lambda>_. Idle)\<rparr>"

subsection \<open>The invariant\<close>

definition session_ok :: "server \<Rightarrow> nat \<Rightarrow> session \<Rightarrow> bool" where
  "session_ok sv n se \<longleftrightarrow> s_tx se = n \<and> s_shutdown_tx se = n
     \<and> (s_registered se \<longleftrightarrow> s_principal se \<noteq> None)"

definition handle_ok :: "(nat \<Rightarrow> conn) \<Rightarrow> string \<Rightarrow> client_handle \<Rightarrow> bool" where
  "handle_ok cs pid h \<longleftrightarrow> (\<exists>n se p. conn_session (cs n) = Some se \<and> h = handle_of se
     \<and> s_principal se = Some p \<and> pr_id p = pid)"

definition live_ok :: "server \<Rightarrow> nat \<Rightarrow> session \<Rightarrow> bool" where
  "live_ok sv n se \<longleftrightarrow> q_open (shuts sv n) \<and> q_taken (shuts sv n) = 0
     \<and> (\<forall>p. s_principal se = Some p \<longrightarrow> clients (sv_inner sv) (pr_id p) = Some (handle_of se)
          \<or> q_sent (shuts sv n) \<noteq> [])"

definition sid :: "(nat \<Rightarrow> conn) \<Rightarrow> nat \<Rightarrow> string option" where
  "sid cs n = map_option s_session_id (conn_session (cs n))"

definition linked :: "server \<Rightarrow> (nat \<Rightarrow> conn) \<Rightarrow> bool" where
  "linked sv cs \<longleftrightarrow>
     (\<forall>n se. conn_session (cs n) = Some se \<longrightarrow> session_ok sv n se)
     \<and> (\<forall>n m x. sid cs n = Some x \<longrightarrow> sid cs m = Some x \<longrightarrow> n = m)
     \<and> (\<forall>pid h. clients (sv_inner sv) pid = Some h \<longrightarrow> handle_ok cs pid h)
     \<and> (\<forall>n se. cs n = Live se \<longrightarrow> live_ok sv n se)"

definition sys_ok :: "system \<Rightarrow> bool" where
  "sys_ok sy \<longleftrightarrow> sv_wf (sy_server sy)
     \<and> rooms_ok (sv_inner (sy_server sy)) (sv_db (sy_server sy))
     \<and> linked (sy_server sy) (sy_conns sy)"

lemma linkedI:
  assumes "\<And>n se. conn_session (cs n) = Some se \<Longrightarrow> session_ok sv n se"
    and "\<And>n m x. sid cs n = Some x \<Longrightarrow> sid cs m = Some x \<Longrightarrow> n = m"
    and "\<And>pid h. clients (sv_inner sv) pid = Some h \<Longrightarrow> handle_ok cs pid h"
    and "\<And>n se. cs n = Live se \<Longrightarrow> live_ok sv n se"
  shows "linked sv cs"
  using assms unfolding linked_def by blast

lemma linkedD:
  assumes "linked sv cs"
  shows "conn_session (cs n) = Some se \<Longrightarrow> session_ok sv n se"
    and "sid cs n = Some x \<Longrightarrow> sid cs m = Some x \<Longrightarrow> n = m"
    and "clients (sv_inner sv) pid = Some h \<Longrightarrow> handle_ok cs pid h"
    and "cs n = Live se \<Longrightarrow> live_ok sv n se"
  using assms unfolding linked_def by blast+

subsection \<open>Moves that keep the links\<close>

text \<open>The connection's session changes without changing its identity.\<close>

lemma linked_update:
  assumes L: "linked sv cs" and n: "conn_session (cs n) = Some se" and c: "conn_session c = Some se'"
    and link: "same_link se se'" and live: "\<And>s. c = Live s \<Longrightarrow> cs n = Live se"
    and cl: "clients (sv_inner sv') = clients (sv_inner sv)"
    and sh: "\<And>m. m \<noteq> n \<or> (\<exists>s. c = Live s) \<Longrightarrow> shuts sv' m = shuts sv m"
  shows "linked sv' (cs(n := c))"
proof (rule linkedI)
  fix m s assume s: "conn_session ((cs(n := c)) m) = Some s"
  show "session_ok sv' m s"
  proof (cases "m = n")
    case True
    with s c have "s = se'" by simp
    with linkedD(1) [OF L n] link True show ?thesis by (simp add: session_ok_def same_link_def)
  next
    case False
    with s linkedD(1) [OF L, of m s] show ?thesis by (simp add: session_ok_def)
  qed
next
  have "sid (cs(n := c)) k = sid cs k" for k
    using n c link by (simp add: sid_def same_link_def)
  then show "i = j" if "sid (cs(n := c)) i = Some x" "sid (cs(n := c)) j = Some x" for i j x
    using linkedD(2) [OF L, of i x j] that by simp
next
  fix pid h assume "clients (sv_inner sv') pid = Some h"
  then have "handle_ok cs pid h" using linkedD(3) [OF L] cl by simp
  then obtain m s p where m: "conn_session (cs m) = Some s" "h = handle_of s" "s_principal s = Some p"
      "pr_id p = pid" by (auto simp: handle_ok_def)
  show "handle_ok (cs(n := c)) pid h"
  proof (cases "m = n")
    case True
    then have "s = se" using m n by simp
    with m c link same_link_handle [OF link] show ?thesis
      unfolding handle_ok_def by (intro exI [of _ n] exI [of _ se'] exI [of _ p]) (simp add: same_link_def)
  next
    case False
    with m show ?thesis
      unfolding handle_ok_def by (intro exI [of _ m] exI [of _ s] exI [of _ p]) simp
  qed
next
  fix m s assume s: "(cs(n := c)) m = Live s"
  show "live_ok sv' m s"
  proof (cases "m = n")
    case True
    with s c have "c = Live s" "s = se'" by simp_all
    then have "live_ok sv n se" "shuts sv' n = shuts sv n" using linkedD(4) [OF L live] sh by simp_all
    with True \<open>s = se'\<close> link cl same_link_handle [OF link] show ?thesis
      by (simp add: live_ok_def same_link_def)
  next
    case False
    with s linkedD(4) [OF L, of m s] sh [of m] cl show ?thesis by (simp add: live_ok_def)
  qed
qed

text \<open>A handle goes away; the connection that owned it is no longer live.\<close>

lemma linked_remove_client:
  assumes L: "linked sv cs"
    and gone: "\<And>h n se. clients (sv_inner sv) pid = Some h \<Longrightarrow> h_tx h = n \<Longrightarrow> cs n \<noteq> Live se"
    and cl: "clients (sv_inner sv') = (clients (sv_inner sv))(pid := None)" and sh: "shuts sv' = shuts sv"
  shows "linked sv' cs"
proof (rule linkedI)
  fix n se assume n: "cs n = Live se"
  note ok = linkedD(1) [OF L, of n se] linkedD(4) [OF L n]
  have "clients (sv_inner sv) (pr_id p) = Some (handle_of se) \<Longrightarrow> pr_id p \<noteq> pid" for p
    using gone [of "handle_of se" n se] ok n by (auto simp: handle_of_def session_ok_def)
  with ok cl sh show "live_ok sv' n se" by (auto simp: live_ok_def)
next
  fix q h assume "clients (sv_inner sv') q = Some h"
  then show "handle_ok cs q h" using linkedD(3) [OF L, of q h] cl by (simp split: if_splits)
qed (use L cl in \<open>auto simp: session_ok_def dest: linkedD\<close>)

text \<open>A registration: the new handle is the session's, the old one's connection is told.\<close>

lemma linked_register:
  assumes L: "linked sv cs" and n: "cs n = Live se" and new: "\<not> s_registered se"
    and link: "same_link se se0"
    and cl: "clients (sv_inner sv') = (clients (sv_inner sv))(pr_id p \<mapsto> handle_of se)"
    and sh: "shuts sv' = (case clients (sv_inner sv) (pr_id p) of None \<Rightarrow> shuts sv
       | Some h \<Rightarrow> (shuts sv)(h_shutdown_tx h := send_all [replaced_reason (pr_id p)] (shuts sv (h_shutdown_tx h))))"
  shows "linked sv' (cs(n := Live (registered_session p se0)))"
proof -
  let ?se = "registered_session p se0"
  let ?cs = "cs(n := Live ?se)"
  have n': "conn_session (cs n) = Some se" using n by simp
  note ok = linkedD(1) [OF L n']
  have se: "s_session_id ?se = s_session_id se" "handle_of ?se = handle_of se" "s_tx ?se = n"
      "s_shutdown_tx ?se = n" "s_principal se = None"
    using link ok new by (auto simp: same_link_def session_ok_def handle_of_def)
  have open_pending: "q_open (shuts sv' m) = q_open (shuts sv m)" "q_taken (shuts sv' m) = q_taken (shuts sv m)"
      "q_sent (shuts sv m) \<noteq> [] \<Longrightarrow> q_sent (shuts sv' m) \<noteq> []" for m
    using sh by (auto simp: send_all_def split: option.splits)
  have old: "h_shutdown_tx h = m \<and> m \<noteq> n"
    if h: "clients (sv_inner sv) (pr_id p) = Some h" and s: "cs m = Live s" "handle_of s = h" for h m s
  proof -
    obtain k t q where k: "conn_session (cs k) = Some t" "h = handle_of t" "s_principal t = Some q"
      using linkedD(3) [OF L h] by (auto simp: handle_ok_def)
    have m: "conn_session (cs m) = Some s" using s by simp
    have "s_session_id s = s_session_id t" using k s(2) by (auto simp: handle_of_def)
    with m k(1) have "m = k"
      using linkedD(2) [OF L, of m "s_session_id s" k] by (simp add: sid_def)
    with k m se(5) n' linkedD(1) [OF L m] show ?thesis by (auto simp: handle_of_def session_ok_def)
  qed
  show ?thesis
  proof (rule linkedI)
    fix m s assume "conn_session (?cs m) = Some s"
    then show "session_ok sv' m s"
      using linkedD(1) [OF L, of m s] se by (cases "m = n") (auto simp: session_ok_def)
  next
    have "sid ?cs k = sid cs k" for k using n' se(1) by (simp add: sid_def)
    then show "i = j" if "sid ?cs i = Some x" "sid ?cs j = Some x" for i j x
      using linkedD(2) [OF L, of i x j] that by simp
  next
    fix pid h assume h: "clients (sv_inner sv') pid = Some h"
    show "handle_ok ?cs pid h"
    proof (cases "pid = pr_id p")
      case True
      with h cl se(2) show ?thesis
        unfolding handle_ok_def by (intro exI [of _ n] exI [of _ ?se] exI [of _ p]) simp
    next
      case False
      then have "handle_ok cs pid h" using h cl linkedD(3) [OF L, of pid h] by simp
      then obtain m s q where m: "conn_session (cs m) = Some s" "h = handle_of s"
          "s_principal s = Some q" "pr_id q = pid" by (auto simp: handle_ok_def)
      then have "m \<noteq> n" using n' se(5) by auto
      with m show ?thesis
        unfolding handle_ok_def by (intro exI [of _ m] exI [of _ s] exI [of _ q]) simp
    qed
  next
    fix m s assume s: "?cs m = Live s"
    show "live_ok sv' m s"
    proof (cases "m = n")
      case True
      with s cl se(2) linkedD(4) [OF L n] show ?thesis
        by (auto simp: live_ok_def open_pending)
    next
      case False
      then have m: "cs m = Live s" using s by simp
      note lk = linkedD(4) [OF L m]
      show ?thesis
        unfolding live_ok_def
      proof (intro conjI allI impI)
        show "q_open (shuts sv' m)" "q_taken (shuts sv' m) = 0"
          using lk by (simp_all add: live_ok_def open_pending)
      next
        fix q assume q: "s_principal s = Some q"
        show "clients (sv_inner sv') (pr_id q) = Some (handle_of s) \<or> q_sent (shuts sv' m) \<noteq> []"
        proof (cases "clients (sv_inner sv) (pr_id q) = Some (handle_of s)")
          case own: True
          show ?thesis
          proof (cases "pr_id q = pr_id p")
            case True
            with own old [of "handle_of s" m s] m have "h_shutdown_tx (handle_of s) = m" by simp
            then have "shuts sv' m = send_all [replaced_reason (pr_id p)] (shuts sv m)"
              using sh own True by simp
            moreover have "q_open (shuts sv m)" using lk by (simp add: live_ok_def)
            ultimately show ?thesis by (simp add: send_all_def)
          next
            case False
            with own cl show ?thesis by simp
          qed
        next
          case False
          with lk q show ?thesis by (auto simp: live_ok_def open_pending(3))
        qed
      qed
    qed
  qed
qed

subsection \<open>Every step keeps the invariant\<close>

lemma close_simps [simp]:
  "sv_db (close_out n sv) = sv_db sv" "sv_db (close_shut n sv) = sv_db sv" "sv_db (take_out n sv) = sv_db sv"
  "sv_inner (close_out n sv) = sv_inner sv" "sv_inner (close_shut n sv) = sv_inner sv"
  "sv_inner (take_out n sv) = sv_inner sv"
  "shuts (close_out n sv) = shuts sv" "shuts (take_out n sv) = shuts sv"
  "m \<noteq> n \<Longrightarrow> shuts (close_shut n sv) m = shuts sv m"
  by (simp_all add: close_out_def close_shut_def take_out_def)

lemma sv_wf_cong: "sv_db sv' = sv_db sv \<Longrightarrow> sv_wf sv' = sv_wf sv"
  by (simp add: sv_wf_def)

lemma linked_same:
  assumes "linked sv cs" "clients (sv_inner sv') = clients (sv_inner sv)" "shuts sv' = shuts sv"
  shows "linked sv' cs"
  using assms by (simp add: linked_def session_ok_def live_ok_def)

lemma linked_gone:
  assumes "linked sv cs" "conn_session (cs n) = Some se0" "same_link se0 se"
    and "clients (sv_inner sv') = clients (sv_inner sv)" "\<And>m. m \<noteq> n \<Longrightarrow> shuts sv' m = shuts sv m"
  shows "linked sv' (cs(n := Gone se))"
  by (rule linked_update [OF assms(1,2) _ assms(3)]) (use assms(4,5) in auto)

lemma drop_conn_ok:
  assumes "sys_ok sy" "sy_conns sy n = Live se"
    and "sv_wf sv" "rooms_ok (sv_inner sv) (sv_db sv)" "stays (sy_server sy) sv"
  shows "sys_ok (drop_conn n se sv sy)"
proof -
  have "linked (sy_server sy) (sy_conns sy)" using assms(1) by (simp add: sys_ok_def)
  then have "linked (close_shut n sv) ((sy_conns sy)(n := Gone se))"
    by (rule linked_gone) (use assms(2,5) in \<open>auto simp: stays_def\<close>)
  with assms(3,4) show ?thesis
    by (simp add: sys_ok_def drop_conn_def sv_wf_cong [of "close_shut n sv" sv])
qed

lemma leave_loop_ok:
  assumes ok: "sys_ok sy" and n: "sy_conns sy n = Live se0" "same_link se0 se"
    and wf: "sv_wf sv" and rooms: "rooms_ok (sv_inner sv) (sv_db sv)"
    and st: "clients (sv_inner sv) = clients (sv_inner (sy_server sy))" "shuts sv = shuts (sy_server sy)"
  shows "sys_ok (leave_loop inp n se sv sy)"
proof -
  let ?cs = "(sy_conns sy)(n := Gone se)"
  let ?sv = "snd (disconnect inp se sv)"
  have L0: "linked (sy_server sy) (sy_conns sy)" using ok by (simp add: sys_ok_def)
  have L: "linked sv ?cs"
    by (rule linked_gone [OF L0 _ n(2)]) (simp_all add: n st)
  have tx: "s_tx se = n" using linkedD(1) [OF L, of n se] by (simp add: session_ok_def)
  have wf': "sv_wf ?sv" using keepsD [OF keeps_sv_wf_rooms(3) wf] .
  have both: "rooms_ok (sv_inner ?sv) (sv_db ?sv) \<and> linked ?sv ?cs"
  proof (cases "\<exists>p. s_principal se = Some p \<and> owns se (sv_inner sv) (pr_id p)")
    case True
    then obtain p where p: "s_principal se = Some p" "owns se (sv_inner sv) (pr_id p)" by blast
    have "linked ?sv ?cs"
    proof (rule linked_remove_client [OF L, of "pr_id p"])
      fix h m s assume "clients (sv_inner sv) (pr_id p) = Some h" "h_tx h = m"
      then have "m = n" using p(2) tx by (simp add: owns_def)
      then show "?cs m \<noteq> Live s" by simp
    qed (use p in \<open>simp_all add: disconnect_run\<close>)
    with p rooms show ?thesis by (simp add: disconnect_run rooms_ok_leave)
  next
    case False
    then have "?sv = sv" by (auto simp: disconnect_run split: option.split)
    with rooms L show ?thesis by simp
  qed
  have "linked (close_out n (close_shut n ?sv)) ?cs"
  proof -
    have "linked (close_out n (close_shut n ?sv)) (?cs(n := Gone se))"
      by (rule linked_gone [of ?sv ?cs n se]) (use both in simp_all)
    then show ?thesis by simp
  qed
  with both wf' show ?thesis
    by (simp add: leave_loop_def sys_ok_def disconnect_run
        sv_wf_cong [of "close_out n (close_shut n x)" x for x])
qed

lemma on_line_ok:
  assumes ok: "sys_ok sy" and n: "sy_conns sy n = Live se"
  shows "sys_ok (on_line cr inp n se l sy)"
proof -
  have L: "linked (sy_server sy) (sy_conns sy)" and wf: "sv_wf (sy_server sy)"
    and rooms: "rooms_ok (sv_inner (sy_server sy)) (sv_db (sy_server sy))"
    using ok by (simp_all add: sys_ok_def)
  have n': "conn_session (sy_conns sy n) = Some se" using n by simp
  obtain r sv where run: "handle_command cr inp se (parse_command l) (sy_server sy) = (r, sv)"
    by (cases "handle_command cr inp se (parse_command l) (sy_server sy)")
  have wf': "sv_wf sv" using keepsD_eq [OF keeps_handle_command wf run] .
  have rooms': "rooms_ok (sv_inner sv) (sv_db sv)"
    using handle_command_rooms_ok [OF rooms, of cr inp se "parse_command l"] run wf
    by (simp add: sv_wf_def db_wf_def)
  have reg: "s_registered se \<longleftrightarrow> s_principal se \<noteq> None"
    using linkedD(1) [OF L n'] by (simp add: session_ok_def)
  from run reg show ?thesis
  proof (cases rule: command_cases)
    case stay
    show ?thesis
    proof (cases r)
      case (Inl e)
      with run drop_conn_ok [OF ok n wf' rooms' stay(1)] show ?thesis
        by (simp add: on_line_def handle_line_def)
    next
      case (Inr x)
      then obtain se' b where r: "r = Inr (se', b)" by (cases x) simp
      note link = stay(2) [OF r]
      show ?thesis
      proof (cases b)
        case True
        with leave_loop_ok [OF ok n link wf' rooms'] stay(1) run r show ?thesis
          by (simp add: on_line_def handle_line_def stays_def)
      next
        case False
        have "linked sv ((sy_conns sy)(n := Live se'))"
          by (rule linked_update [OF L n' _ link]) (use stay(1) n in \<open>auto simp: stays_def\<close>)
        with False run r wf' rooms' show ?thesis
          by (simp add: on_line_def handle_line_def sys_ok_def)
      qed
    qed
  next
    case (new p se0)
    from new(3) obtain hits where
      reg_run: "register inp p se0 ((sy_server sy)\<lparr>sv_legacy_hits := hits\<rparr>) = (Inr (registered_session p se0), sv)"
      by (auto simp: registers_def)
    have "linked sv ((sy_conns sy)(n := Live (registered_session p se0)))"
      by (rule linked_register [OF L n new(1,2)])
         (use reg_run same_link_handle [OF new(2)] in
           \<open>auto simp: register_run take_over_clients shut_old_def split: option.splits\<close>)
    with new(4) run wf' rooms' show ?thesis
      by (simp add: on_line_def handle_line_def sys_ok_def)
  qed
qed

lemma accept_ok:
  assumes ok: "sys_ok sy" and n: "sy_conns sy n = Idle"
    and fresh: "\<And>m se. sess sy m = Some se \<Longrightarrow> s_session_id se \<noteq> ''sess_'' @ uuid"
  shows "sys_ok (accept_conn n uuid sy)"
proof -
  let ?sv = "sy_server (accept_conn n uuid sy)" and ?cs = "(sy_conns sy)(n := Live (new_session n uuid))"
  have L: "linked (sy_server sy) (sy_conns sy)" using ok by (simp add: sys_ok_def)
  have sv: "sv_db ?sv = sv_db (sy_server sy)" "sv_inner ?sv = sv_inner (sy_server sy)"
    "shuts ?sv = (shuts (sy_server sy))(n := new_mpsc)"
    by (simp_all add: accept_conn_def Let_def session_send_run)
  have "linked ?sv ?cs"
  proof (rule linkedI)
    fix m s assume "conn_session (?cs m) = Some s"
    then show "session_ok ?sv m s"
      using linkedD(1) [OF L, of m s] by (cases "m = n") (auto simp: session_ok_def new_session_def)
  next
    have other: "sid ?cs k = (if k = n then Some (''sess_'' @ uuid) else sid (sy_conns sy) k)" for k
      by (simp add: sid_def new_session_def)
    have "sid (sy_conns sy) k \<noteq> Some (''sess_'' @ uuid)" for k
      using fresh by (auto simp: sid_def sess_def)
    then show "i = j" if "sid ?cs i = Some x" "sid ?cs j = Some x" for i j x
      using linkedD(2) [OF L, of i x j] that unfolding other by (auto split: if_splits)
  next
    fix pid h assume "clients (sv_inner ?sv) pid = Some h"
    then have "handle_ok (sy_conns sy) pid h" using linkedD(3) [OF L] sv by simp
    then obtain m s q where m: "conn_session (sy_conns sy m) = Some s" "h = handle_of s"
        "s_principal s = Some q" "pr_id q = pid" by (auto simp: handle_ok_def)
    then have "m \<noteq> n" using n by auto
    with m show "handle_ok ?cs pid h"
      unfolding handle_ok_def by (intro exI [of _ m] exI [of _ s] exI [of _ q]) simp
  next
    fix m s assume "?cs m = Live s"
    then show "live_ok ?sv m s"
      using linkedD(4) [OF L, of m s] sv
      by (cases "m = n") (auto simp: live_ok_def new_session_def new_mpsc_def)
  qed
  with ok sv show ?thesis by (simp add: sys_ok_def sv_wf_def) (simp add: accept_conn_def Let_def)
qed

lemma sys_step_ok: "sys_step cr sy ev sy' \<Longrightarrow> sys_ok sy \<Longrightarrow> sys_ok sy'"
proof (induction rule: sys_step.induct)
  case (accept sy n uuid)
  then show ?case by (intro accept_ok)
next
  case (line sy n se inp l)
  then show ?case by (intro on_line_ok)
next
  case (eof sy n se inp)
  then show ?case by (intro leave_loop_ok) (auto simp: sys_ok_def)
next
  case (read_error sy n se)
  then show ?case by (intro drop_conn_ok) (auto simp: sys_ok_def stays_refl)
next
  case (shut sy n se inp)
  then show ?case
    unfolding on_shutdown_def Let_def by (intro leave_loop_ok) (auto simp: sys_ok_def session_send_run)
next
  case (written sy n)
  then show ?case by (auto simp: sys_ok_def sv_wf_def intro: linked_same)
next
  case (write_error sy n)
  then show ?case by (auto simp: sys_ok_def sv_wf_def intro: linked_same)
qed

subsection \<open>Runs\<close>

inductive run :: "('s \<Rightarrow> 'e \<Rightarrow> 's \<Rightarrow> bool) \<Rightarrow> 's \<Rightarrow> 'e list \<Rightarrow> 's \<Rightarrow> bool" for step where
  run_nil: "run step s [] s"
| run_cons: "step s e t \<Longrightarrow> run step t es u \<Longrightarrow> run step s (e # es) u"

inductive_simps run_simps [simp]:
  "run step s [] t"
  "run step s (e # es) t"

lemma run_append: "run step s (xs @ ys) u \<longleftrightarrow> (\<exists>t. run step s xs t \<and> run step t ys u)"
  by (induction xs arbitrary: s) auto

lemma run_with: "run step s es t \<Longrightarrow> \<forall>e \<in> set es. P e \<Longrightarrow> run (\<lambda>a e b. step a e b \<and> P e) s es t"
  by (induction rule: run.induct) (auto intro: exI)

text \<open>
  The interface of an invariant proof: what holds at the start and is kept by every step
  holds throughout, and a preorder that every step respects relates the ends of every run.
\<close>

locale transition_system =
  fixes start :: "'s \<Rightarrow> bool" and step :: "'s \<Rightarrow> 'e \<Rightarrow> 's \<Rightarrow> bool" and inv :: "'s \<Rightarrow> bool"
  assumes start_inv: "start s \<Longrightarrow> inv s"
    and step_inv: "step s e t \<Longrightarrow> inv s \<Longrightarrow> inv t"
begin

lemma run_inv: "run step s es t \<Longrightarrow> inv s \<Longrightarrow> inv t"
  by (induction rule: run.induct) (auto intro: step_inv)

lemma reach_inv: "start s \<Longrightarrow> run step s es t \<Longrightarrow> inv t"
  using run_inv start_inv by blast

lemma run_forward:
  assumes run: "run (\<lambda>s e t. step s e t \<and> P s e) s es t" and "inv s" "R s s"
    and keep: "\<And>a e b. step a e b \<Longrightarrow> P a e \<Longrightarrow> inv a \<Longrightarrow> R s a \<Longrightarrow> R s b"
  shows "R s t"
proof -
  have "R s t" if "R s a" "inv a" "run (\<lambda>s e t. step s e t \<and> P s e) a es t" for a
    using that(3,1,2)
  proof (induction rule: run.induct)
    case (run_nil u)
    then show ?case by simp
  next
    case (run_cons u e v es w)
    then show ?case using keep step_inv by blast
  qed
  then show ?thesis using assms by blast
qed

end

text \<open>A start: no connection yet, on a database that is in order.\<close>

definition starts :: "system \<Rightarrow> bool" where
  "starts sy \<longleftrightarrow> (\<exists>env d. db_wf d \<and> sy = sys_start env d)"

lemma starts_ok: "starts sy \<Longrightarrow> sys_ok sy"
  by (auto simp: starts_def sys_start_def server_new_def sys_ok_def sv_wf_def rooms_ok_new
      linked_def sid_def)

interpretation sys: transition_system starts "sys_step cr" sys_ok for cr
  by unfold_locales (auto intro: starts_ok sys_step_ok)

end
