(* ===== verification/Traces.thy ===== *)
theory Traces
  imports System
begin

section \<open>What a run can do to the database\<close>

text \<open>
  The interface \<open>db_monotone\<close>: a property of the database that each of its writers
  keeps (leaving a channel only where it is tolerated) is kept by every command and every
  step. Its interpretations are the growth of the history and the advance of a cursor. The
  tasks follow the lease protocol of theory Tasks: a command is at most one task operation,
  so the facts about runs of operations carry over to runs of the system.
\<close>

lemma leave_loop_db: "sv_db (sy_server (leave_loop inp n se sv sy)) = sv_db (snd (disconnect inp se sv))"
  by (simp add: leave_loop_def disconnect_run)

locale db_monotone =
  fixes J :: "db \<Rightarrow> bool" and leaves :: "string \<Rightarrow> string \<Rightarrow> bool"
  assumes seen: "J d \<Longrightarrow> J (mark_seen p c s d)"
    and append: "J d \<Longrightarrow> J (snd (history_append u now ch se b d))"
    and tasks: "J d \<Longrightarrow> J (d\<lparr>tasks := ts\<rparr>)"
    and marks: "J d \<Longrightarrow> J (update_principals P f d)"
    and enter: "J d \<Longrightarrow> J (add_membership now p c d)"
    and leave: "J d \<Longrightarrow> leaves p c \<Longrightarrow> J (remove_membership p c d)"
begin

definition holds :: "server \<Rightarrow> bool" where
  "holds sv \<longleftrightarrow> J (sv_db sv)"

lemma holds_simps [simp]:
  "holds (push n ls sv) = holds sv"
  "holds (sv\<lparr>sv_db := d\<rparr>) = J d"
  "holds (sv\<lparr>sv_inner := i\<rparr>) = holds sv"
  "holds (sv\<lparr>sv_legacy_hits := h\<rparr>) = holds sv"
  "holds (shut_old p sv) = holds sv"
  by (simp_all add: holds_def)

lemma fold_keeps: "(\<And>x d. J d \<Longrightarrow> J (f x d)) \<Longrightarrow> J d \<Longrightarrow> J (fold f xs d)"
  by (induction xs arbitrary: d) simp_all

lemma replay_keeps: "J d \<Longrightarrow> J (replay_seen p c a l d)"
  by (simp add: replay_seen_def Let_def seen)

lemma holds_send: "keeps holds (session_send se line)"
  by (simp add: keeps_def session_send_run)

lemma holds_post: "keeps holds (post u now ch s b f)"
proof (rule keepsI)
  fix sv assume "holds sv"
  then have "J (snd (history_append u now ch s b (sv_db sv)))" by (simp add: holds_def append)
  then show "holds (snd (post u now ch s b f sv))"
    by (auto simp: post_run holds_def deliver_fold intro: fold_keeps seen split: prod.split sum.split)
qed

lemma holds_tasks_db:
  "keeps holds (on_db (tasks_create u now ch t))"
  "keeps holds (on_db (tasks_claim l now tid p))"
  "keeps holds (on_db (tasks_done now tid p))"
  "keeps holds (on_db (tasks_release now tid p))"
proof -
  have k: "keeps holds (on_db m)" if "\<And>d r d'. m d = (r, d') \<Longrightarrow> d' = d\<lparr>tasks := tasks d'\<rparr>"
    for m :: "(db, task) act"
  proof (rule keepsI)
    fix sv assume "holds sv"
    moreover obtain r d' where run: "m (sv_db sv) = (r, d')" by (cases "m (sv_db sv)")
    ultimately have "J d'" using tasks [of "sv_db sv" "tasks d'"] that [OF run] by (simp add: holds_def)
    with run show "holds (snd (on_db m sv))" by (simp add: on_db_def)
  qed
  show "keeps holds (on_db (tasks_create u now ch t))"
    "keeps holds (on_db (tasks_claim l now tid p))"
    "keeps holds (on_db (tasks_done now tid p))"
    "keeps holds (on_db (tasks_release now tid p))"
    by (rule k, erule tasks_frame)+
qed

lemma holds_replay: "keeps holds (replay_history se cs a l)"
proof (rule keepsI)
  fix sv assume "holds sv"
  then show "holds (snd (replay_history se cs a l sv))"
    by (cases "s_principal se")
       (simp add: replay_history_def session_principal_def act_simps,
        simp add: replay_history_run holds_def fold_keeps replay_keeps)
qed

lemma holds_handlers:
  "keeps holds (cap se sub caps)"
  "keeps holds (chathistory se c a l)"
  "keeps holds (privmsg inp se ch body)"
  "keeps holds (task_create inp se ch title)"
  "keeps holds (task_claim inp se tid)"
  "keeps holds (task_done inp se tid)"
  "keeps holds (task_release inp se tid)"
  "keeps holds (task_list se ch)"
  unfolding cap_def Let_def chathistory_def posts task_create_def task_claim_def task_done_def
    task_release_def task_list_def task_failed_def
  by (intro keeps_rules holds_send holds_post holds_tasks_db holds_replay)+

lemma holds_disconnect: "keeps holds (disconnect inp se)"
  by (simp add: keeps_def disconnect_run holds_def mark_disconnected_def marks split: option.split)

lemma holds_try_register: "keeps holds (try_register cr inp se)"
proof (rule keepsI)
  fix sv assume h: "holds sv"
  obtain r sv' where run: "try_register cr inp se sv = (r, sv')" by (cases "try_register cr inp se sv")
  have reg: "holds (snd (register inp p se v))" if "holds v" for p v
  proof -
    have "J (mark_connected (i_now inp) (pr_id p) (sv_db v))"
      using that by (simp add: mark_connected_def marks holds_def)
    then have "J (register_seen (pr_id p) ms (mark_connected (i_now inp) (pr_id p) (sv_db v)))" for ms
      unfolding register_seen_def by (intro fold_keeps replay_keeps)
    then show ?thesis by (simp add: register_run)
  qed
  have "holds (snd (run_authenticate cr t sv))" for t using h by (simp add: run_authenticate_snd)
  then have "keeps holds (try_register cr inp se)"
    unfolding try_register_def using reg
    by (auto intro!: keepsI simp: act_simps and_then_def session_send_run run_authenticate_def
        split: option.split prod.split sum.split err.split)
  then show "holds (snd (try_register cr inp se sv))" using h by (rule keepsD)
qed

text \<open>The departures a command of a session stands for.\<close>

definition tolerated :: "session \<Rightarrow> command \<Rightarrow> bool" where
  "tolerated se cmd \<longleftrightarrow> (\<forall>c p. cmd = Part c \<longrightarrow> s_principal se = Some p \<longrightarrow> leaves (pr_id p) (normalize_channel c))"

lemma holds_guard:
  assumes "s_principal se \<noteq> None \<Longrightarrow> keeps holds m"
  shows "keeps holds (if_registered se m)"
proof (rule keepsI)
  fix sv assume h: "holds sv"
  show "holds (snd (if_registered se m sv))"
    by (rule if_registered_cases [of se m sv]) (use assms h keepsD in \<open>auto simp: snd_and_then_ret\<close>)
qed

lemma holds_command:
  assumes "tolerated se cmd"
  shows "keeps holds (handle_command cr inp se cmd)"
proof -
  have join: "keeps holds (join_channel inp se c)" if "s_principal se \<noteq> None" for c
    using that by (auto simp: keeps_def join_channel_run holds_def push_fold enter)
  have part: "keeps holds (part_channel se c)"
    if "s_principal se = Some p" "leaves (pr_id p) c" for c p
    using that by (auto simp: keeps_def part_channel_run holds_def push_fold leave)
  show ?thesis
  proof (cases cmd)
    case (Join c)
    then show ?thesis by (simp del: not_None_eq) (intro holds_guard join)
  next
    case (Part c)
    have "keeps holds (part_channel se (normalize_channel c))" if "s_principal se \<noteq> None"
      using that part assms Part by (auto simp: tolerated_def)
    with Part show ?thesis by (simp del: not_None_eq) (intro holds_guard)
  qed (simp_all, (intro holds_guard keeps_rules holds_send holds_handlers holds_try_register)+)
qed

text \<open>And every step of the system.\<close>

fun step_tolerated :: "system \<Rightarrow> event \<Rightarrow> bool" where
  "step_tolerated sy (Line n inp l) = (\<forall>se. sy_conns sy n = Live se \<longrightarrow> tolerated se (parse_command l))"
| "step_tolerated sy _ = True"

lemma step_keeps:
  "sys_step cr sy ev sy' \<Longrightarrow> step_tolerated sy ev \<Longrightarrow> holds (sy_server sy) \<Longrightarrow> holds (sy_server sy')"
proof (induction rule: sys_step.induct)
  case (line sy n se inp l)
  then have h: "holds (snd (handle_line cr inp se l (sy_server sy)))"
    by (simp add: handle_line_def keepsD [OF holds_command])
  have "holds (sy_server (leave_loop inp n se' sv sy))" if "holds sv" for se' sv
    using keepsD [OF holds_disconnect that, of inp se'] by (simp add: leave_loop_db holds_def)
  with h show ?case
    by (auto simp: on_line_def drop_conn_def holds_def split: prod.split sum.split)
next
  case (accept sy n uuid)
  then show ?case by (simp add: accept_conn_def Let_def session_send_run) (simp add: holds_def)
next
  case (eof sy n se inp)
  then show ?case using keepsD [OF holds_disconnect, of "sy_server sy" inp se]
    by (simp add: leave_loop_db holds_def)
next
  case (shut sy n se inp)
  then show ?case
    using keepsD [OF holds_disconnect, of "push (s_tx se) ls (sy_server sy)" inp se for ls]
    by (simp add: on_shutdown_def Let_def session_send_run leave_loop_db holds_def)
qed (simp_all add: drop_conn_def holds_def)

end

subsection \<open>The history only grows\<close>

lemma append_prefix: "prefix (messages d) (messages (snd (history_append u now ch s b d)))"
  by (simp add: history_append_def act_simps Let_def split: option.split)

interpretation hist: db_monotone "\<lambda>d. prefix M (messages d)" "\<lambda>_ _. True" for M
  by unfold_locales
     (auto simp: update_principals_def add_membership_def remove_membership_def
       intro: prefix_order.trans [OF _ append_prefix])

lemma run_history: "run (sys_step cr) sy es sy' \<Longrightarrow>
   prefix (messages (sv_db (sy_server sy))) (messages (sv_db (sy_server sy')))"
proof (induction rule: run.induct)
  case (run_nil s)
  show ?case by simp
next
  case (run_cons s e t es u)
  have "hist.step_tolerated s e" by (cases e) (simp_all add: hist.tolerated_def)
  then have "prefix (messages (sv_db (sy_server s))) (messages (sv_db (sy_server t)))"
    using hist.step_keeps [OF run_cons(1), of "messages (sv_db (sy_server s))"]
    by (simp add: hist.holds_def)
  with run_cons(3) show ?case by simp
qed

subsection \<open>Cursors only advance\<close>

definition at_least :: "string \<Rightarrow> string \<Rightarrow> int \<Rightarrow> db \<Rightarrow> bool" where
  "at_least p c x d \<longleftrightarrow> members_wf d \<and> (\<exists>y. cursor p c d = Some y \<and> x \<le> y)"

lemma cursor_cong: "channel_memberships e = channel_memberships d \<Longrightarrow> cursor p c e = cursor p c d"
  by (simp add: cursor_def)

lemma at_least_cong: "channel_memberships e = channel_memberships d \<Longrightarrow> at_least p c x e = at_least p c x d"
  by (simp add: at_least_def cursor_cong [of e d] members_wf_def)

lemma at_least_step:
  assumes "at_least p c x d" "op \<noteq> Leave p c"
  shows "at_least p c x (roster_step op d)"
proof -
  from assms(1) obtain y where y: "members_wf d" "cursor p c d = Some y" "x \<le> y"
    by (auto simp: at_least_def)
  from ros.step_forward [OF y(1,2) assms(2)] ros.step_inv [OF y(1)] y(3)
  show ?thesis by (auto simp: at_least_def)
qed

definition other_seat :: "string \<Rightarrow> string \<Rightarrow> string \<Rightarrow> string \<Rightarrow> bool" where
  "other_seat p c q e \<longleftrightarrow> (q, e) \<noteq> (p, c)"

interpretation cur: db_monotone "at_least p c x" "other_seat p c" for p c x
proof unfold_locales
  show "at_least p c x d \<Longrightarrow> at_least p c x (mark_seen q e s d)" for d q e s
    using at_least_step [of p c x d "Seen q e s"] by simp
  show "at_least p c x d \<Longrightarrow> at_least p c x (add_membership now q e d)" for d now q e
    using at_least_step [of p c x d "Enter now q e"] by simp
  show "at_least p c x d \<Longrightarrow> other_seat p c q e \<Longrightarrow> at_least p c x (remove_membership q e d)" for d q e
    using at_least_step [of p c x d "Leave q e"] by (simp add: other_seat_def)
  show "at_least p c x d \<Longrightarrow> at_least p c x (snd (history_append u now ch se b d))" for d u now ch se b
  proof -
    have "channel_memberships (snd (history_append u now ch se b d)) = channel_memberships d"
      by (simp add: history_append_def act_simps Let_def split: option.split)
    then show "at_least p c x d \<Longrightarrow> at_least p c x (snd (history_append u now ch se b d))"
      using at_least_cong by blast
  qed
  show "at_least p c x d \<Longrightarrow> at_least p c x (d\<lparr>tasks := ts\<rparr>)" for d ts
    by (simp add: at_least_cong [of "d\<lparr>tasks := ts\<rparr>" d])
  show "at_least p c x d \<Longrightarrow> at_least p c x (update_principals P f d)" for d P f
    by (simp add: at_least_cong [of "update_principals P f d" d])
qed

text \<open>The event is a PART of the channel by a session of the principal.\<close>

fun parts_from :: "string \<Rightarrow> string \<Rightarrow> system \<Rightarrow> event \<Rightarrow> bool" where
  "parts_from p c sy (Line n inp l) =
     (case sy_conns sy n of
        Live se \<Rightarrow> (case (s_principal se, parse_command l) of
            (Some q, Part ch) \<Rightarrow> pr_id q = p \<and> normalize_channel ch = c
          | _ \<Rightarrow> False)
      | _ \<Rightarrow> False)"
| "parts_from p c sy _ = False"

lemma not_parts_tolerated: "\<not> parts_from p c sy ev \<Longrightarrow> cur.step_tolerated p c sy ev"
  by (cases ev) (auto simp: cur.tolerated_def other_seat_def)

lemma run_cursor:
  assumes "run (\<lambda>s e t. sys_step cr s e t \<and> \<not> parts_from p c s e) sy es sy'"
    and "sys_ok sy" "cursor p c (sv_db (sy_server sy)) = Some x"
  shows "at_least p c x (sv_db (sy_server sy'))"
  using assms(1)
proof (rule sys.run_forward [where R = "\<lambda>s t. at_least p c x (sv_db (sy_server t))"])
  show "at_least p c x (sv_db (sy_server sy))"
    using assms(2,3) by (auto simp: at_least_def sys_ok_def sv_wf_def db_wf_def)
next
  fix a e b
  assume "sys_step cr a e b" "\<not> parts_from p c a e" "at_least p c x (sv_db (sy_server a))"
  then show "at_least p c x (sv_db (sy_server b))"
    using cur.step_keeps [of cr a e b p c x] not_parts_tolerated by (simp add: cur.holds_def)
qed (rule assms(2))

subsection \<open>A command is at most one task operation\<close>

fun task_op_of :: "int \<Rightarrow> inputs \<Rightarrow> string \<Rightarrow> command \<Rightarrow> task_op option" where
  "task_op_of lease inp pid (TaskCreate ch title) =
     (if trim title = [] then None
      else Some (OpCreate (i_uuid inp) (i_now inp) (normalize_channel ch) (trim title)))"
| "task_op_of lease inp pid (TaskClaim tid) = Some (OpClaim lease (i_now inp) tid pid)"
| "task_op_of lease inp pid (TaskDone tid) = Some (OpDone (i_now inp) tid pid)"
| "task_op_of lease inp pid (TaskRelease tid) = Some (OpRelease (i_now inp) tid pid)"
| "task_op_of lease inp pid _ = None"

definition session_op :: "server \<Rightarrow> inputs \<Rightarrow> session \<Rightarrow> command \<Rightarrow> task_op option" where
  "session_op sv inp se cmd =
     (case s_principal se of
        Some p \<Rightarrow> if guard_ok se sv then task_op_of (sv_lease_seconds sv) inp (pr_id p) cmd else None
      | None \<Rightarrow> None)"

definition tasks_after :: "task_op option \<Rightarrow> db \<Rightarrow> task_row list" where
  "tasks_after op d = (case op of None \<Rightarrow> tasks d | Some x \<Rightarrow> tasks (snd (task_step x d)))"

definition tasks_are :: "task_row list \<Rightarrow> server \<Rightarrow> bool" where
  "tasks_are ts sv \<longleftrightarrow> tasks (sv_db sv) = ts"

named_theorems task_rules \<open>rules that show a handler leaves the tasks alone\<close>

lemma tasks_are_push [simp]: "tasks_are ts (push n ls sv) = tasks_are ts sv"
  by (simp add: tasks_are_def)

lemma tasks_folds:
  "tasks (fold (\<lambda>c. replay_seen p c a l) cs d) = tasks d"
  "tasks (register_seen p ms d) = tasks d"
proof -
  have r: "tasks (replay_seen p c a l d) = tasks d" for p c a l d
    by (simp add: replay_seen_def Let_def)
  show "tasks (fold (\<lambda>c. replay_seen p c a l) cs d) = tasks d"
    by (induction cs arbitrary: d) (simp_all add: r)
  show "tasks (register_seen p ms d) = tasks d"
    unfolding register_seen_def by (induction ms arbitrary: d) (simp_all add: r)
qed

lemma append_tasks: "tasks (snd (history_append u now ch s b d)) = tasks d"
  by (simp add: history_append_def act_simps Let_def split: option.split)

lemma keeps_tasks_send [task_rules]: "keeps (tasks_are ts) (session_send se line)"
  by (simp add: keeps_def session_send_run)

lemma keeps_tasks_post [task_rules]: "keeps (tasks_are ts) (post u now ch s b f)"
proof (rule keepsI)
  fix sv assume "tasks_are ts sv"
  then show "tasks_are ts (snd (post u now ch s b f sv))"
    using append_tasks [of u now ch s b "sv_db sv"]
    by (auto simp: post_run tasks_are_def deliver_fold split: prod.split sum.split)
qed

lemma keeps_tasks_replay [task_rules]: "keeps (tasks_are ts) (replay_history se cs a l)"
proof (rule keepsI)
  fix sv assume "tasks_are ts sv"
  then show "tasks_are ts (snd (replay_history se cs a l sv))"
    by (cases "s_principal se")
       (simp add: replay_history_def session_principal_def act_simps,
        simp add: replay_history_run tasks_are_def tasks_folds)
qed

lemma keeps_tasks_other [task_rules]:
  "keeps (tasks_are ts) (cap se sub caps)"
  "keeps (tasks_are ts) (chathistory se c a l)"
  "keeps (tasks_are ts) (privmsg inp se ch body)"
  "keeps (tasks_are ts) (task_list se ch)"
  "keeps (tasks_are ts) (broadcast_task_event inp t ac st who b)"
  unfolding cap_def Let_def chathistory_def posts task_list_def
  by (intro keeps_rules task_rules)+

lemma keeps_tasks_register [task_rules]: "keeps (tasks_are ts) (try_register cr inp se)"
proof -
  have "tasks_are ts v \<Longrightarrow> tasks_are ts (snd (register inp p se v))" for p v
    by (simp add: register_run tasks_are_def tasks_folds mark_connected_def)
  then show ?thesis
    unfolding try_register_def
    by (auto intro!: keepsI simp: act_simps and_then_def session_send_run run_authenticate_def tasks_are_def
        split: option.split prod.split sum.split err.split)
qed

lemma keeps_same_tasks: "keeps (tasks_are (tasks (sv_db sv))) m \<Longrightarrow> tasks (sv_db (snd (m sv))) = tasks (sv_db sv)"
  using keepsD [of "tasks_are (tasks (sv_db sv))" m sv] by (simp add: tasks_are_def)

lemma or_else_tasks:
  assumes "\<And>e ts. keeps (tasks_are ts) (h e)" "\<And>x ts. keeps (tasks_are ts) (k x)"
  shows "tasks (sv_db (snd (or_else (on_db m) h k sv))) = tasks (snd (m (sv_db sv)))"
proof -
  obtain r d where run: "m (sv_db sv) = (r, d)" by (cases "m (sv_db sv)")
  have e: "tasks (sv_db (snd (h e (sv\<lparr>sv_db := d\<rparr>)))) = tasks d"
      "tasks (sv_db (snd (k x (sv\<lparr>sv_db := d\<rparr>)))) = tasks d" for e x
    using keeps_same_tasks [OF assms(1), where sv = "sv\<lparr>sv_db := d\<rparr>"]
      keeps_same_tasks [OF assms(2), where sv = "sv\<lparr>sv_db := d\<rparr>"] by simp_all
  show ?thesis
    by (simp add: or_else_def on_db_def run e split: sum.split err.split)
qed

lemma and_then_tasks:
  assumes "\<And>x ts. keeps (tasks_are ts) (k x)"
  shows "tasks (sv_db (snd (and_then (on_db m) k sv))) = tasks (snd (m (sv_db sv)))"
proof -
  obtain r d where run: "m (sv_db sv) = (r, d)" by (cases "m (sv_db sv)")
  have "tasks (sv_db (snd (k x (sv\<lparr>sv_db := d\<rparr>)))) = tasks d" for x
    using keeps_same_tasks [OF assms, where sv = "sv\<lparr>sv_db := d\<rparr>"] by simp
  then show ?thesis by (simp add: and_then_def on_db_def run split: sum.split)
qed

lemma snd_succeeded: "snd (succeeded r) = snd r"
  by (simp add: succeeded_def)

lemma task_handlers_tasks:
  assumes "s_principal se = Some p"
  shows "tasks (sv_db (snd (task_claim inp se tid sv)))
      = tasks (snd (task_step (OpClaim (sv_lease_seconds sv) (i_now inp) tid (pr_id p)) (sv_db sv)))"
    and "tasks (sv_db (snd (task_done inp se tid sv)))
      = tasks (snd (task_step (OpDone (i_now inp) tid (pr_id p)) (sv_db sv)))"
    and "tasks (sv_db (snd (task_release inp se tid sv)))
      = tasks (snd (task_step (OpRelease (i_now inp) tid (pr_id p)) (sv_db sv)))"
    and "tasks (sv_db (snd (task_create inp se ch title sv))) = (if trim title = [] then tasks (sv_db sv)
      else tasks (snd (task_step (OpCreate (i_uuid inp) (i_now inp) ch (trim title)) (sv_db sv))))"
proof -
  have f: "keeps (tasks_are ts) (task_failed se q verb action t e)" for ts q verb action t e
    unfolding task_failed_def by (rule task_rules)
  show "tasks (sv_db (snd (task_claim inp se tid sv)))
      = tasks (snd (task_step (OpClaim (sv_lease_seconds sv) (i_now inp) tid (pr_id p)) (sv_db sv)))"
    using assms by (simp add: task_claim_def session_principal_def act_simps snd_succeeded)
      (intro or_else_tasks task_rules f)
  show "tasks (sv_db (snd (task_done inp se tid sv)))
      = tasks (snd (task_step (OpDone (i_now inp) tid (pr_id p)) (sv_db sv)))"
    using assms by (simp add: task_done_def session_principal_def act_simps snd_succeeded)
      (intro or_else_tasks task_rules f)
  show "tasks (sv_db (snd (task_release inp se tid sv)))
      = tasks (snd (task_step (OpRelease (i_now inp) tid (pr_id p)) (sv_db sv)))"
    using assms by (simp add: task_release_def session_principal_def act_simps snd_succeeded)
      (intro or_else_tasks task_rules f)
  show "tasks (sv_db (snd (task_create inp se ch title sv))) = (if trim title = [] then tasks (sv_db sv)
      else tasks (snd (task_step (OpCreate (i_uuid inp) (i_now inp) ch (trim title)) (sv_db sv))))"
    using assms by (simp add: task_create_def session_principal_def act_simps snd_succeeded
        session_send_run)
      (intro impI and_then_tasks task_rules)
qed

lemma guarded_tasks:
  assumes "\<And>p. s_principal se = Some p \<Longrightarrow> tasks (sv_db (snd (m sv)))
      = tasks_after (task_op_of (sv_lease_seconds sv) inp (pr_id p) cmd) (sv_db sv)"
  shows "tasks (sv_db (snd (if_registered se m sv))) = tasks_after (session_op sv inp se cmd) (sv_db sv)"
proof (rule if_registered_cases [of se m sv])
  fix p
  assume "s_registered se" "s_principal se = Some p" "guard_ok se sv"
    "if_registered se m sv = and_then m (\<lambda>_. ret (se, False)) sv"
  then show ?thesis using assms by (simp add: snd_and_then_ret session_op_def)
qed (auto simp: session_op_def tasks_after_def guard_ok_def split: option.splits)

lemma unguarded_tasks:
  "(\<And>l i p. task_op_of l i p cmd = None) \<Longrightarrow> tasks_after (session_op sv inp se cmd) (sv_db sv) = tasks (sv_db sv)"
  by (simp add: session_op_def tasks_after_def split: option.split)

lemma guarded_no_tasks:
  assumes "\<And>l i p. task_op_of l i p cmd = None"
    and "\<And>p. s_principal se = Some p \<Longrightarrow> tasks (sv_db (snd (m sv))) = tasks (sv_db sv)"
  shows "tasks (sv_db (snd (if_registered se m sv))) = tasks_after (session_op sv inp se cmd) (sv_db sv)"
  using assms by (intro guarded_tasks) (simp add: tasks_after_def)

lemma handle_command_tasks:
  "tasks (sv_db (snd (handle_command cr inp se cmd sv))) = tasks_after (session_op sv inp se cmd) (sv_db sv)"
proof (cases cmd)
  case (Join c)
  show ?thesis unfolding Join handle_command.simps
    by (rule guarded_no_tasks) (simp_all add: join_channel_run push_fold add_membership_def)
next
  case (Part c)
  show ?thesis unfolding Part handle_command.simps
    by (rule guarded_no_tasks) (simp_all add: part_channel_run push_fold remove_membership_def)
next
  case (Privmsg t b)
  show ?thesis unfolding Privmsg handle_command.simps
    by (rule guarded_no_tasks) (simp_all add: keeps_same_tasks [OF keeps_tasks_other(3)])
next
  case (History c a l)
  show ?thesis unfolding History handle_command.simps
    by (rule guarded_no_tasks) (simp_all add: keeps_same_tasks [OF keeps_tasks_other(2)])
next
  case (TaskList c)
  show ?thesis unfolding TaskList handle_command.simps
    by (rule guarded_no_tasks) (simp_all add: keeps_same_tasks [OF keeps_tasks_other(4)])
next
  case (TaskCreate c t)
  show ?thesis unfolding TaskCreate handle_command.simps
    by (rule guarded_tasks) (simp add: task_handlers_tasks tasks_after_def)
next
  case (TaskClaim t)
  show ?thesis unfolding TaskClaim handle_command.simps
    by (rule guarded_tasks) (simp add: task_handlers_tasks tasks_after_def)
next
  case (TaskDone t)
  show ?thesis unfolding TaskDone handle_command.simps
    by (rule guarded_tasks) (simp add: task_handlers_tasks tasks_after_def)
next
  case (TaskRelease t)
  show ?thesis unfolding TaskRelease handle_command.simps
    by (rule guarded_tasks) (simp add: task_handlers_tasks tasks_after_def)
qed (simp_all add: unguarded_tasks snd_and_then_ret session_send_run run_act and_then_send
      keeps_same_tasks [OF keeps_tasks_register] keeps_same_tasks [OF keeps_tasks_other(1)])

text \<open>The task operation of a step, and leases over runs of the system.\<close>

fun event_op :: "system \<Rightarrow> event \<Rightarrow> task_op option" where
  "event_op sy (Line n inp l) =
     (case sy_conns sy n of
        Live se \<Rightarrow> session_op (sy_server sy) inp se (parse_command l)
      | _ \<Rightarrow> None)"
| "event_op sy _ = None"

lemma disconnect_tasks: "tasks (sv_db (snd (disconnect inp se sv))) = tasks (sv_db sv)"
  by (simp add: disconnect_run mark_disconnected_def split: option.split)

lemma step_tasks:
  "sys_step cr sy ev sy' \<Longrightarrow>
   tasks (sv_db (sy_server sy')) = tasks_after (event_op sy ev) (sv_db (sy_server sy))"
proof (induction rule: sys_step.induct)
  case (line sy n se inp l)
  have "tasks (sv_db (sy_server (on_line cr inp n se l sy)))
      = tasks (sv_db (snd (handle_line cr inp se l (sy_server sy))))"
    by (simp add: on_line_def drop_conn_def leave_loop_db disconnect_tasks
        split: prod.split sum.split)
  with line show ?case by (simp add: handle_line_def handle_command_tasks)
qed (simp_all add: accept_conn_def Let_def session_send_run leave_loop_db disconnect_tasks
      drop_conn_def on_shutdown_def tasks_after_def)

lemma task_phase_cong: "tasks d = tasks e \<Longrightarrow> task_phase t d = task_phase t e"
  by (simp add: task_phase_def)

lemma step_phase:
  "sys_step cr sy ev sy' \<Longrightarrow> task_phase t (sv_db (sy_server sy'))
   = (case event_op sy ev of None \<Rightarrow> task_phase t (sv_db (sy_server sy))
      | Some x \<Rightarrow> task_phase t (snd (task_step x (sv_db (sy_server sy)))))"
  using step_tasks [of cr sy ev sy']
  by (auto simp: tasks_after_def intro: task_phase_cong split: option.split)

lemma sys_ok_tasks: "sys_ok sy \<Longrightarrow> tasks_wf (sv_db (sy_server sy))"
  by (simp add: sys_ok_def sv_wf_def db_wf_def)

lemma run_task_done:
  assumes "run (sys_step cr) sy es sy'" "sys_ok sy" "task_phase t (sv_db (sy_server sy)) = Done"
  shows "task_phase t (sv_db (sy_server sy')) = Done"
proof -
  have "run (\<lambda>s e t. sys_step cr s e t \<and> True) sy es sy'" using assms(1) by simp
  then show ?thesis
  proof (rule sys.run_forward [where R = "\<lambda>_ s. task_phase t (sv_db (sy_server s)) = Done"])
    fix a e b
    assume a: "sys_step cr a e b" "sys_ok a" "task_phase t (sv_db (sy_server a)) = Done"
    then show "task_phase t (sv_db (sy_server b)) = Done"
      using lease.step_Done [OF sys_ok_tasks [OF a(2)]]
      by (simp add: step_phase [OF a(1)] split: option.split)
  qed (rule assms)+
qed

definition event_respects :: "string \<Rightarrow> string \<Rightarrow> int \<Rightarrow> system \<Rightarrow> event \<Rightarrow> bool" where
  "event_respects t p l sy ev \<longleftrightarrow>
     (case event_op sy ev of None \<Rightarrow> True | Some x \<Rightarrow> respects_lease t p l x)"

lemma run_task_lease:
  assumes "run (\<lambda>s e t'. sys_step cr s e t' \<and> event_respects t p l s e) sy es sy'" "sys_ok sy"
    "task_phase t (sv_db (sy_server sy)) = Claimed p l"
  shows "task_phase t (sv_db (sy_server sy')) = Claimed p l"
  using assms(1)
proof (rule sys.run_forward [where R = "\<lambda>_ s. task_phase t (sv_db (sy_server s)) = Claimed p l"])
  fix a e b
  assume a: "sys_step cr a e b" "event_respects t p l a e" "sys_ok a"
    "task_phase t (sv_db (sy_server a)) = Claimed p l"
  then show "task_phase t (sv_db (sy_server b)) = Claimed p l"
    using lease.step_lease(1) [OF sys_ok_tasks [OF a(3)] a(4)]
    by (simp add: step_phase [OF a(1)] event_respects_def split: option.splits)
qed (rule assms)+

end
