(* ===== verification/Guarantees.thy ===== *)
theory Guarantees
  imports Traces
begin

section \<open>Guarantees to the users of the server\<close>

text \<open>
  What the invariants and the closed forms give together: which connection gets a message,
  where the cursors stand after it, what a reconnecting principal is sent, what a session
  can do that is not registered or was replaced. \<open>exec\<close> is the step relation as a
  function.
\<close>

subsection \<open>Who hears a channel\<close>

definition listens :: "server \<Rightarrow> string \<Rightarrow> nat \<Rightarrow> bool" where
  "listens sv c n \<longleftrightarrow> (\<exists>pid h. clients (sv_inner sv) pid = Some h \<and> h_tx h = n \<and> is_member pid c (sv_db sv))"

text \<open>The principal is a member with a connection that takes messages.\<close>

definition hears :: "server \<Rightarrow> string \<Rightarrow> string \<Rightarrow> bool" where
  "hears sv c pid \<longleftrightarrow> is_member pid c (sv_db sv)
     \<and> (\<exists>h. clients (sv_inner sv) pid = Some h \<and> q_open (outs sv (h_tx h)))"

lemma sys_okD:
  assumes "sys_ok sy"
  shows "log_wf (sv_db (sy_server sy))" "members_wf (sv_db (sy_server sy))"
    "tasks_wf (sv_db (sy_server sy))" "cursors_wf (sv_db (sy_server sy))"
    "principals_wf (sv_db (sy_server sy))"
    "rooms_ok (sv_inner (sy_server sy)) (sv_db (sy_server sy))"
    "linked (sy_server sy) (sy_conns sy)"
  using assms by (simp_all add: sys_ok_def sv_wf_def db_wf_def)

lemma recipients_ok:
  assumes "rooms_ok (sv_inner sv) (sv_db sv)"
  shows "(pid, h) \<in> set (recipients_with_ids c (sv_inner sv)) \<longleftrightarrow>
    is_member pid c (sv_db sv) \<and> clients (sv_inner sv) pid = Some h"
  using rooms_okD [OF assms] by (auto simp: recipients_room)

text \<open>A connection belongs to one principal, so it is a recipient at most once.\<close>

lemma handle_conn_unique:
  assumes "linked sv cs" "clients (sv_inner sv) p = Some g" "clients (sv_inner sv) q = Some h" "h_tx g = h_tx h"
  shows "p = q"
proof -
  from linkedD(3) [OF assms(1,2)] obtain i s a where i: "conn_session (cs i) = Some s" "g = handle_of s"
      "s_principal s = Some a" "pr_id a = p" by (auto simp: handle_ok_def)
  from linkedD(3) [OF assms(1,3)] obtain j t b where j: "conn_session (cs j) = Some t" "h = handle_of t"
      "s_principal t = Some b" "pr_id b = q" by (auto simp: handle_ok_def)
  have "i = j" using linkedD(1) [OF assms(1) i(1)] linkedD(1) [OF assms(1) j(1)] i(2) j(2) assms(4)
    by (simp add: session_ok_def handle_of_def)
  with i j show ?thesis by simp
qed

lemma distinct_filter_one:
  assumes "distinct (map f xs)" "\<And>x y. x \<in> set xs \<Longrightarrow> y \<in> set xs \<Longrightarrow> P x \<Longrightarrow> P y \<Longrightarrow> f x = f y"
  shows "length (filter P xs) = (if \<exists>x \<in> set xs. P x then 1 else 0)"
  using assms
proof (induction xs)
  case Nil
  show ?case by simp
next
  case (Cons x xs)
  show ?case
  proof (cases "P x")
    case True
    have "\<not> P y" if "y \<in> set xs" for y
    proof
      assume "P y"
      then have "f x = f y" using Cons.prems(2) [of x y] True that by simp
      then show False using Cons.prems(1) that by auto
    qed
    with True show ?thesis by (auto simp: filter_empty_conv)
  next
    case False
    have "length (filter P xs) = (if \<exists>x \<in> set xs. P x then 1 else 0)"
      using Cons.prems by (intro Cons.IH) auto
    with False show ?thesis by auto
  qed
qed

lemma times_sent_ok:
  assumes "rooms_ok (sv_inner sv) (sv_db sv)" "linked sv cs"
  shows "times_sent n (recipients_with_ids c (sv_inner sv)) = (if listens sv c n then 1 else 0)"
proof -
  let ?rs = "recipients_with_ids c (sv_inner sv)"
  have d: "distinct (map fst ?rs)"
    using rooms_okD(1) [OF assms(1)] by (rule distinct_recipients)
  have mem: "(pid, h) \<in> set ?rs \<longleftrightarrow> is_member pid c (sv_db sv) \<and> clients (sv_inner sv) pid = Some h" for pid h
    by (rule recipients_ok [OF assms(1)])
  have "length (filter (\<lambda>r. h_tx (snd r) = n) ?rs) = (if \<exists>r \<in> set ?rs. h_tx (snd r) = n then 1 else 0)"
  proof (rule distinct_filter_one [OF d])
    fix x y assume "x \<in> set ?rs" "y \<in> set ?rs" "h_tx (snd x) = n" "h_tx (snd y) = n"
    then show "fst x = fst y"
      using mem [of "fst x" "snd x"] mem [of "fst y" "snd y"]
        handle_conn_unique [OF assms(2), of "fst x" "snd x" "fst y" "snd y"] by simp
  qed
  moreover have "(\<exists>r \<in> set ?rs. h_tx (snd r) = n) \<longleftrightarrow> listens sv c n"
    by (simp only: listens_def Bex_def split_paired_Ex mem snd_conv) blast
  ultimately show ?thesis by (simp add: times_sent_def)
qed

lemma reached_ok:
  assumes "rooms_ok (sv_inner sv) (sv_db sv)"
  shows "pid \<in> set (reached (recipients_with_ids c (sv_inner sv)) sv) \<longleftrightarrow> hears sv c pid"
proof -
  have "pid \<in> set (reached (recipients_with_ids c (sv_inner sv)) sv) \<longleftrightarrow>
      (\<exists>h. (pid, h) \<in> set (recipients_with_ids c (sv_inner sv)) \<and> q_open (outs sv (h_tx h)))"
    by (simp only: reached_def set_map set_filter image_iff Bex_def mem_Collect_eq split_paired_Ex
        fst_conv snd_conv) blast
  then show ?thesis unfolding recipients_ok [OF assms] hears_def by blast
qed

subsection \<open>Posting a message\<close>

text \<open>The message that \<open>history_append\<close> stores next.\<close>

definition next_message :: "string \<Rightarrow> int \<Rightarrow> string \<Rightarrow> string \<Rightarrow> string \<Rightarrow> db \<Rightarrow> stored_message" where
  "next_message u now ch s b d =
     \<lparr>sm_seq = messages_seq d + 1, sm_msg_id = ''msg_'' @ u, sm_channel = ch, sm_sender_id = s,
      sm_body = b, sm_created_at = now\<rparr>"

definition has_room :: "string \<Rightarrow> db \<Rightarrow> bool" where
  "has_room u d \<longleftrightarrow> messages_seq d < i64_max \<and> ''msg_'' @ u \<notin> sm_msg_id ` set (messages d)"

definition posted :: "string \<Rightarrow> stored_message \<Rightarrow> server \<Rightarrow> server \<Rightarrow> bool" where
  "posted line m sv sv' \<longleftrightarrow>
     messages (sv_db sv') = messages (sv_db sv) @ [m]
     \<and> (\<forall>n. outs sv' n = send_all (if listens sv (sm_channel m) n then [line] else []) (outs sv n))
     \<and> (\<forall>pid c. cursor pid c (sv_db sv') = (if hears sv c pid \<and> c = sm_channel m
          then Some (sm_seq m) else cursor pid c (sv_db sv)))
     \<and> sv_inner sv' = sv_inner sv \<and> shuts sv' = shuts sv \<and> tasks (sv_db sv') = tasks (sv_db sv)"

lemma cursor_below:
  assumes "log_wf d" "cursors_wf d" "cursor p c d = Some x"
  shows "x \<le> messages_seq d"
proof -
  from assms(3) obtain m where m: "row_of member_key (channel_memberships d) (p, c) = Some m"
      "x = m_last_seen_seq m" by (auto simp: cursor_def)
  then have "x \<in> insert 0 (sm_seq ` set (channel_messages c d))"
    using assms(2) memb.row_of_Some [OF m(1)] by (auto simp: cursors_wf_def member_key_def)
  then show ?thesis using assms(1) by (auto simp: log_wf_def channel_messages_def)
qed

lemma post_posted:
  fixes u now ch s b
  assumes wf: "sv_wf sv" and rooms: "rooms_ok (sv_inner sv) (sv_db sv)" and link: "linked sv cs"
    and room: "has_room u (sv_db sv)"
  defines "m \<equiv> next_message u now ch s b (sv_db sv)"
  shows "\<exists>sv'. post u now ch s b f sv = (Inr (), sv') \<and> posted (f m) m sv sv'"
proof -
  let ?d = "(sv_db sv)\<lparr>messages := messages (sv_db sv) @ [m], messages_seq := sm_seq m\<rparr>"
  let ?rs = "recipients_with_ids ch (sv_inner sv)"
  let ?sv = "fold (deliver_to ch (f m) (sm_seq m)) ?rs (sv\<lparr>sv_db := ?d\<rparr>)"
  have log: "log_wf (sv_db sv)" and cwf: "cursors_wf (sv_db sv)"
    using wf by (simp_all add: sv_wf_def db_wf_def)
  have mch: "sm_channel m = ch" by (simp add: m_def next_message_def)
  have app: "history_append u now ch s b (sv_db sv) = (Inr m, ?d)"
    using room by (simp add: history_append_cases [OF log] has_room_def m_def next_message_def Let_def)
  then have run: "post u now ch s b f sv = (Inr (), ?sv)" by (simp add: post_run)
  have re: "reached ?rs (sv\<lparr>sv_db := ?d\<rparr>) = reached ?rs sv" by (simp add: reached_def)
  have cur: "cursor pid c ?d = cursor pid c (sv_db sv)" for pid c by (rule cursor_cong) simp
  have top: "map_option (\<lambda>x. max x (sm_seq m)) (cursor pid c (sv_db sv))
      = (if cursor pid c (sv_db sv) = None then None else Some (sm_seq m))" for pid c
    using cursor_below [OF log cwf, of pid c]
    by (cases "cursor pid c (sv_db sv)") (auto simp: m_def next_message_def max_def)
  have "cursor pid c (sv_db ?sv) = (if hears sv ch pid \<and> c = ch then Some (sm_seq m)
      else cursor pid c (sv_db sv))" for pid c
  proof -
    have "cursor pid c (sv_db ?sv) = (if hears sv ch pid \<and> c = ch
        then map_option (\<lambda>x. max x (sm_seq m)) (cursor pid c (sv_db sv)) else cursor pid c (sv_db sv))"
      by (simp add: deliver_fold re cursor_fold_seen cur reached_ok [OF rooms])
    moreover have "hears sv ch pid \<Longrightarrow> cursor pid ch (sv_db sv) \<noteq> None"
      unfolding hears_def is_member_cursor by blast
    ultimately show ?thesis by (cases "hears sv ch pid \<and> c = ch") (simp_all only: top, auto)
  qed
  then have "posted (f m) m sv ?sv"
    unfolding posted_def
    by (simp add: deliver_fold mch times_sent_ok [OF rooms link])
  with run show ?thesis by blast
qed

lemma privmsg_posted:
  fixes body
  assumes ok: "sys_ok sy" and p: "s_principal se = Some p" "is_member (pr_id p) ch (sv_db (sy_server sy))"
    and room: "has_room (i_log_uuid inp) (sv_db (sy_server sy))"
  defines "m \<equiv> next_message (i_log_uuid inp) (i_log_now inp) ch (pr_id p) body (sv_db (sy_server sy))"
  shows "\<exists>sv'. privmsg inp se ch body (sy_server sy) = (Inr (), sv')
    \<and> posted (message_line p ch body m) m (sy_server sy) sv'"
proof -
  have "sv_wf (sy_server sy)" using ok by (simp add: sys_ok_def)
  from post_posted [OF this sys_okD(6,7) [OF ok] room, of "i_log_now inp" ch "pr_id p" body "message_line p ch body"]
  show ?thesis using p by (simp add: posts session_principal_def act_simps m_def)
qed

lemma guarded_run:
  assumes "guard_ok se sv"
  shows "if_registered se m sv = and_then m (\<lambda>_. ret (se, False)) sv"
  by (rule if_registered_cases [of se m sv]) (use assms in \<open>auto simp: guard_ok_def\<close>)

subsection \<open>Sessions that may not act\<close>

text \<open>The commands every connection may send, and what the others get.\<close>

fun open_command :: "command \<Rightarrow> bool" where
  "open_command (Pass _) = True"
| "open_command (Nick _) = True"
| "open_command (User _) = True"
| "open_command (Ping _) = True"
| "open_command Pong = True"
| "open_command (Cap _ _) = True"
| "open_command Quit = True"
| "open_command (Unknown _) = True"
| "open_command _ = False"

lemma closed_command_unregistered:
  assumes "\<not> open_command cmd" "\<not> s_registered se"
  shows "handle_command cr inp se cmd sv = (Inr (se, False),
     push (s_tx se) ['':'' @ SERVER_NAME @ '' 451 * :You have not registered''] sv)"
proof -
  have "if_registered se m sv = (Inr (se, False),
     push (s_tx se) ['':'' @ SERVER_NAME @ '' 451 * :You have not registered''] sv)" for m
    by (rule if_registered_cases [of se m sv]) (use assms(2) in auto)
  with assms(1) show ?thesis by (cases cmd) simp_all
qed

lemma closed_command_replaced:
  assumes "\<not> open_command cmd" "s_registered se" "s_principal se = Some p" "\<not> guard_ok se sv"
  shows "handle_command cr inp se cmd sv = (Inl (Anyhow ''session replaced''),
     push (s_tx se) ['':'' @ SERVER_NAME @ '' ERROR :Session replaced by a newer connection''] sv)"
proof -
  have "if_registered se m sv = (Inl (Anyhow ''session replaced''),
     push (s_tx se) ['':'' @ SERVER_NAME @ '' ERROR :Session replaced by a newer connection''] sv)" for m
    by (rule if_registered_cases [of se m sv]) (use assms(2-4) in auto)
  with assms(1) show ?thesis by (cases cmd) simp_all
qed

text \<open>Among linked connections, the session id in the table decides as the handle does.\<close>

lemma guard_ok_handle:
  assumes L: "linked sv cs" and n: "cs n = Live se" and p: "s_principal se = Some p"
  shows "guard_ok se sv \<longleftrightarrow> clients (sv_inner sv) (pr_id p) = Some (handle_of se)"
proof -
  have n': "conn_session (cs n) = Some se" using n by simp
  have reg: "s_registered se" using linkedD(1) [OF L n'] p by (simp add: session_ok_def)
  have eq: "h = handle_of se"
    if h: "clients (sv_inner sv) (pr_id p) = Some h" "h_session_id h = s_session_id se" for h
  proof -
    obtain m s where m: "conn_session (cs m) = Some s" "h = handle_of s"
      using linkedD(3) [OF L h(1)] by (auto simp: handle_ok_def)
    have "s_session_id s = s_session_id se" using h(2) unfolding m(2) by (simp add: handle_of_def)
    then have "sid cs m = Some (s_session_id se)" "sid cs n = Some (s_session_id se)"
      using m(1) n' by (simp_all add: sid_def)
    then have "m = n" by (rule linkedD(2) [OF L])
    then show ?thesis using m n' by simp
  qed
  show ?thesis
  proof
    assume "guard_ok se sv"
    then obtain h where "clients (sv_inner sv) (pr_id p) = Some h" "h_session_id h = s_session_id se"
      using p by (auto simp: guard_ok_def)
    with eq [OF this] show "clients (sv_inner sv) (pr_id p) = Some (handle_of se)" by simp
  next
    assume "clients (sv_inner sv) (pr_id p) = Some (handle_of se)"
    with reg p show "guard_ok se sv" by (simp add: guard_ok_def handle_of_def)
  qed
qed

subsection \<open>Reconnecting\<close>

text \<open>The messages of a channel after a member's cursor.\<close>

definition missed :: "string \<Rightarrow> string \<Rightarrow> db \<Rightarrow> stored_message list" where
  "missed p c d =
     (case cursor p c d of
        None \<Rightarrow> []
      | Some x \<Rightarrow> filter (\<lambda>m. x < sm_seq m) (channel_messages c d))"

lemma cursor_replay_seen:
  assumes "log_wf d"
  shows "cursor q c (replay_seen p e a l d)
    = (if q = p \<and> c = e \<and> history_after e a l d \<noteq> []
       then map_option (\<lambda>x. max x (sm_seq (last (history_after e a l d)))) (cursor q c d)
       else cursor q c d)"
  using assms by (auto simp: replay_seen_last cursor_mark_seen)

lemma log_wf_replay_seen: "log_wf d \<Longrightarrow> log_wf (replay_seen p c a l d)"
  by (simp add: replay_seen_last log_wf_cong [of "mark_seen q e s d" d for q e s])

lemma cursor_register_seen:
  assumes "log_wf d" "distinct (map mb_channel ms)"
  shows "cursor q c (register_seen p ms d)
    = (case filter (\<lambda>m. mb_channel m = c) ms of
         [] \<Rightarrow> cursor q c d
       | m # _ \<Rightarrow> cursor q c (replay_seen p c (mb_last_seen_seq m) 200 d))"
  using assms
proof (induction ms arbitrary: d)
  case Nil
  show ?case by (simp add: register_seen_def)
next
  case (Cons m ms)
  let ?d = "replay_seen p (mb_channel m) (mb_last_seen_seq m) 200 d"
  have IH: "cursor q c (register_seen p ms ?d) = (case filter (\<lambda>m. mb_channel m = c) ms of
         [] \<Rightarrow> cursor q c ?d | m # _ \<Rightarrow> cursor q c (replay_seen p c (mb_last_seen_seq m) 200 ?d))"
    using Cons.prems by (intro Cons.IH log_wf_replay_seen) simp_all
  have step: "register_seen p (m # ms) d = register_seen p ms ?d" by (simp add: register_seen_def)
  show ?case
  proof (cases "mb_channel m = c")
    case True
    then have "filter (\<lambda>m. mb_channel m = c) ms = []"
      using Cons.prems(2) by (simp add: filter_empty_conv) (metis imageI)
    with True IH show ?thesis by (simp add: step)
  next
    case False
    then show ?thesis
      using Cons.prems(1)
      by (simp add: step IH cursor_replay_seen log_wf_replay_seen split: list.split)
  qed
qed

lemma memberships_facts:
  assumes "members_wf d"
  shows "distinct (map mb_channel (memberships p d))"
    and "filter (\<lambda>m. mb_channel m = c) (memberships p d)
       = (case cursor p c d of None \<Rightarrow> [] | Some x \<Rightarrow> [\<lparr>mb_channel = c, mb_last_seen_seq = x\<rparr>])"
proof -
  let ?rows = "sort_key m_channel (filter (\<lambda>m. m_principal_id m = p) (channel_memberships d))"
  let ?f = "\<lambda>m. \<lparr>mb_channel = m_channel m, mb_last_seen_seq = m_last_seen_seq m\<rparr>"
  have kd: "keyed member_key (channel_memberships d)" using assms by (simp add: members_wf_def)
  then have "distinct (channel_memberships d)" "inj_on member_key (set (channel_memberships d))"
    by (simp_all add: keyed_def distinct_map)
  then have "inj_on m_channel (set ?rows)" "distinct ?rows"
    by (auto simp: inj_on_def member_key_def)
  then show dist: "distinct (map mb_channel (memberships p d))"
    by (simp add: memberships_def o_def distinct_map)
  show "filter (\<lambda>m. mb_channel m = c) (memberships p d)
      = (case cursor p c d of None \<Rightarrow> [] | Some x \<Rightarrow> [\<lparr>mb_channel = c, mb_last_seen_seq = x\<rparr>])"
  proof (cases "cursor p c d")
    case None
    then have "\<not> is_member p c d" by (simp add: is_member_cursor)
    then have "c \<notin> set (map mb_channel (memberships p d))" by (simp only: memberships_channels) simp
    with None show ?thesis by (auto simp: filter_empty_conv)
  next
    case (Some x)
    then obtain r where r: "row_of member_key (channel_memberships d) (p, c) = Some r" "x = m_last_seen_seq r"
      by (auto simp: cursor_def)
    have rk: "r \<in> set (channel_memberships d)" "m_principal_id r = p" "m_channel r = c"
      using memb.row_of_Some [OF r(1)] by (auto simp: member_key_def)
    let ?m = "\<lparr>mb_channel = c, mb_last_seen_seq = x\<rparr>"
    have "?m = ?f r" using rk r(2) by simp
    moreover have "?f r \<in> set (memberships p d)"
      unfolding memberships_def set_map set_sort set_filter by (rule imageI) (simp add: rk)
    ultimately have "?m \<in> set (memberships p d)" by (simp only:)
    moreover have "keyed mb_channel (memberships p d)" using dist by (simp add: keyed_def)
    ultimately have "filter (\<lambda>y. mb_channel y = mb_channel ?m) (memberships p d) = [?m]"
      by (intro filter_keyed)
    with Some show ?thesis by simp
  qed
qed

text \<open>The cursor after a registration: at the last message of the channel's replay.\<close>

lemma register_cursor:
  assumes wf: "sv_wf sv" and reg: "registers inp p se sv sv'"
  shows "cursor (pr_id p) c (sv_db sv')
    = map_option (\<lambda>x. if history_after c x 200 (sv_db sv) = [] then x
        else sm_seq (last (history_after c x 200 (sv_db sv)))) (cursor (pr_id p) c (sv_db sv))"
proof -
  let ?d = "mark_connected (i_now inp) (pr_id p) (sv_db sv)"
  let ?ms = "memberships (pr_id p) (sv_db sv)"
  have mem: "members_wf (sv_db sv)" and log: "log_wf (sv_db sv)"
    using wf by (simp_all add: sv_wf_def db_wf_def)
  have same: "cursor q e ?d = cursor q e (sv_db sv)" "history_after e a l ?d = history_after e a l (sv_db sv)"
    for q e a l
    by (simp_all add: mark_connected_def cursor_def history_after_def)
  have log': "log_wf ?d" using log by (simp add: mark_connected_def log_wf_def)
  from reg have sv': "sv_db sv' = register_seen (pr_id p) ?ms ?d"
    by (auto simp: registers_def register_run)
  have gt: "x < sm_seq (last (history_after c x 200 (sv_db sv)))" if "history_after c x 200 (sv_db sv) \<noteq> []" for x
    using history_after_facts(2) [OF log, of "last (history_after c x 200 (sv_db sv))" c x 200] that by simp
  show ?thesis
    using gt
    by (cases "cursor (pr_id p) c (sv_db sv)")
       (simp_all add: sv' cursor_register_seen [OF log' memberships_facts(1) [OF mem]]
         memberships_facts(2) [OF mem] cursor_replay_seen [OF log'] same max_def, fastforce)
qed

lemma register_messages:
  assumes "registers inp p se sv sv'"
  shows "messages (sv_db sv') = messages (sv_db sv)" "messages_seq (sv_db sv') = messages_seq (sv_db sv)"
proof -
  have "messages_seq (replay_seen q c a l d) = messages_seq d" for q c a l d
    by (simp add: replay_seen_def Let_def)
  then have "messages (register_seen q ms d) = messages d \<and> messages_seq (register_seen q ms d) = messages_seq d" for q ms d
    unfolding register_seen_def by (induction ms arbitrary: d) simp_all
  with assms show "messages (sv_db sv') = messages (sv_db sv)" "messages_seq (sv_db sv') = messages_seq (sv_db sv)"
    by (auto simp: registers_def register_run mark_connected_def)
qed

lemma register_members:
  assumes "registers inp p se sv sv'"
  shows "is_member q c (sv_db sv') = is_member q c (sv_db sv)"
  using assms same_roster_stable(1) [OF same_roster_folds(3)]
  by (auto simp: registers_def register_run)

text \<open>Of the missed messages the replay sends the first 200, and nothing else is missed after it.\<close>

lemma register_missed:
  assumes wf: "sv_wf sv" and reg: "registers inp p se sv sv'"
  shows "missed (pr_id p) c (sv_db sv') = drop 200 (missed (pr_id p) c (sv_db sv))"
proof (cases "cursor (pr_id p) c (sv_db sv)")
  case None
  then show ?thesis by (simp add: missed_def register_cursor [OF wf reg])
next
  case (Some x)
  let ?h = "history_after c x 200 (sv_db sv)"
  have log: "log_wf (sv_db sv)" using wf by (simp add: sv_wf_def db_wf_def)
  have cm: "channel_messages c (sv_db sv') = channel_messages c (sv_db sv)"
    using register_messages(1) [OF reg] by (simp add: channel_messages_def)
  have lim: "nat (clamp_limit 200) = 200" by (simp add: clamp_limit_def)
  have h: "?h = take 200 (missed (pr_id p) c (sv_db sv))"
    by (simp add: history_after_take [OF log] missed_def Some lim)
  show ?thesis
  proof (cases "?h = []")
    case True
    then have "missed (pr_id p) c (sv_db sv) = []" using h by simp
    with True Some show ?thesis by (simp add: missed_def register_cursor [OF wf reg] cm)
  next
    case False
    then have ne: "history_page c x 200 (sv_db sv) \<noteq> []" by (simp add: history_after_page lim)
    have big: "take k xs = xs" if "length xs \<le> k" for k and xs :: "stored_message list" using that by simp
    let ?k = "length (channel_messages c (sv_db sv))"
    have "history_page c (sm_seq (last (history_page c x 200 (sv_db sv)))) ?k (sv_db sv)
        = take ?k (drop (length (history_page c x 200 (sv_db sv)))
            (filter (\<lambda>m. x < sm_seq m) (channel_messages c (sv_db sv))))"
      using hlog.page_next [OF log ne, of ?k] .
    then have "filter (\<lambda>m. sm_seq (last ?h) < sm_seq m) (channel_messages c (sv_db sv))
        = drop (length ?h) (missed (pr_id p) c (sv_db sv))"
      using length_filter_le [of "\<lambda>m. x < sm_seq m" "channel_messages c (sv_db sv)"]
      by (simp add: history_page_take [OF log] history_after_take [OF log] lim missed_def Some)
    moreover have "drop (length ?h) (missed (pr_id p) c (sv_db sv)) = drop 200 (missed (pr_id p) c (sv_db sv))"
      by (cases "length (missed (pr_id p) c (sv_db sv)) \<le> 200") (simp_all add: h)
    ultimately show ?thesis
      using False Some by (simp add: missed_def [of _ _ "sv_db sv'"] register_cursor [OF wf reg] cm)
  qed
qed

text \<open>What a post does to the backlog of a member: cleared for who hears it, longer for who does not.\<close>

lemma posted_missed:
  fixes u now s b
  assumes log: "log_wf (sv_db sv)" and cwf: "cursors_wf (sv_db sv)" and post: "posted line m sv sv'"
    and m: "m = next_message u now c s b (sv_db sv)"
  shows "missed pid c (sv_db sv')
    = (if hears sv c pid then []
       else if is_member pid c (sv_db sv) then missed pid c (sv_db sv) @ [m] else [])"
proof -
  have mf: "sm_channel m = c" "sm_seq m = messages_seq (sv_db sv) + 1" by (simp_all add: m next_message_def)
  have cm: "channel_messages c (sv_db sv') = channel_messages c (sv_db sv) @ [m]"
    using post mf by (simp add: posted_def channel_messages_def)
  have le: "sm_seq x \<le> messages_seq (sv_db sv)" if "x \<in> set (channel_messages c (sv_db sv))" for x
    using log that by (auto simp: log_wf_def channel_messages_def)
  have cur: "cursor pid c (sv_db sv') = (if hears sv c pid then Some (sm_seq m) else cursor pid c (sv_db sv))"
    using post mf by (auto simp: posted_def)
  show ?thesis
  proof (cases "hears sv c pid")
    case True
    have "filter (\<lambda>x. sm_seq m < sm_seq x) (channel_messages c (sv_db sv)) = []"
      using le mf by (force simp: filter_empty_conv)
    with True show ?thesis by (simp add: missed_def cur cm)
  next
    case False
    show ?thesis
    proof (cases "cursor pid c (sv_db sv)")
      case None
      with False show ?thesis by (simp add: missed_def cur is_member_cursor)
    next
      case (Some x)
      have "x \<le> messages_seq (sv_db sv)" by (rule cursor_below [OF log cwf Some])
      with False Some mf show ?thesis by (simp add: missed_def cur cm is_member_cursor)
    qed
  qed
qed

subsection \<open>The step relation as a function\<close>

fun exec :: "crypto \<Rightarrow> event \<Rightarrow> system \<Rightarrow> system option" where
  "exec cr (Accept n uuid) sy =
     (case sy_conns sy n of Idle \<Rightarrow> Some (accept_conn n uuid sy) | _ \<Rightarrow> None)"
| "exec cr (Line n inp l) sy =
     (case sy_conns sy n of Live se \<Rightarrow> Some (on_line cr inp n se l sy) | _ \<Rightarrow> None)"
| "exec cr (Eof n inp) sy =
     (case sy_conns sy n of Live se \<Rightarrow> Some (leave_loop inp n se (sy_server sy) sy) | _ \<Rightarrow> None)"
| "exec cr (ReadError n) sy =
     (case sy_conns sy n of Live se \<Rightarrow> Some (drop_conn n se (sy_server sy) sy) | _ \<Rightarrow> None)"
| "exec cr (Shut n inp) sy =
     (case sy_conns sy n of
        Live se \<Rightarrow>
          if q_taken (shuts (sy_server sy) n) < length (q_sent (shuts (sy_server sy) n))
          then Some (on_shutdown inp n se sy) else None
      | _ \<Rightarrow> None)"
| "exec cr (Written n) sy =
     (if sy_conns sy n \<noteq> Idle \<and> q_open (outs (sy_server sy) n)
         \<and> q_taken (outs (sy_server sy) n) < length (q_sent (outs (sy_server sy) n))
      then Some (sy\<lparr>sy_server := take_out n (sy_server sy)\<rparr>) else None)"
| "exec cr (WriteError n) sy =
     (if sy_conns sy n \<noteq> Idle then Some (sy\<lparr>sy_server := close_out n (sy_server sy)\<rparr>) else None)"

text \<open>The UUID of an accepted connection is new: the one condition \<open>exec\<close> does not check.\<close>

fun new_uuid :: "event \<Rightarrow> system \<Rightarrow> bool" where
  "new_uuid (Accept n uuid) sy = (\<forall>m. sid (sy_conns sy) m \<noteq> Some (''sess_'' @ uuid))"
| "new_uuid _ sy = True"

lemma new_uuid_sess:
  "new_uuid (Accept n uuid) sy \<longleftrightarrow> (\<forall>m se. sess sy m = Some se \<longrightarrow> s_session_id se \<noteq> ''sess_'' @ uuid)"
  by (auto simp: sid_def sess_def)

lemma exec_step: "sys_step cr sy ev sy' \<longleftrightarrow> exec cr ev sy = Some sy' \<and> new_uuid ev sy"
proof
  show "sys_step cr sy ev sy' \<Longrightarrow> exec cr ev sy = Some sy' \<and> new_uuid ev sy"
    by (induction rule: sys_step.induct) (auto simp: new_uuid_sess simp del: new_uuid.simps(1))
  assume "exec cr ev sy = Some sy' \<and> new_uuid ev sy"
  then show "sys_step cr sy ev sy'"
    by (cases ev)
       (auto simp: new_uuid_sess simp del: new_uuid.simps(1)
         split: conn.splits if_splits intro: sys_step.intros)
qed

primrec exec_all :: "crypto \<Rightarrow> event list \<Rightarrow> system \<Rightarrow> system option" where
  "exec_all cr [] sy = Some sy"
| "exec_all cr (ev # evs) sy = Option.bind (exec cr ev sy) (exec_all cr evs)"

fun accepted :: "event \<Rightarrow> string list" where
  "accepted (Accept n uuid) = [uuid]"
| "accepted _ = []"

lemma sid_update: "sid (cs(n := c)) m = (if m = n then map_option s_session_id (conn_session c) else sid cs m)"
  by (simp add: sid_def)

lemma leave_loop_conns: "sy_conns (leave_loop inp n se sv sy) = (sy_conns sy)(n := Gone se)"
  by (simp add: leave_loop_def split: prod.split sum.split)

lemma step_sid:
  assumes "sys_step cr sy ev sy'" "sys_ok sy"
  shows "sid (sy_conns sy') m = sid (sy_conns sy) m
    \<or> (\<exists>uuid \<in> set (accepted ev). sid (sy_conns sy') m = Some (''sess_'' @ uuid))"
  using assms
proof (induction rule: sys_step.induct)
  case (line sy n se inp l)
  then have reg: "s_registered se \<longleftrightarrow> s_principal se \<noteq> None"
    using linkedD(1) [OF sys_okD(7), of sy n se] by (simp add: session_ok_def)
  obtain r sv where run: "handle_command cr inp se (parse_command l) (sy_server sy) = (r, sv)"
    by (cases "handle_command cr inp se (parse_command l) (sy_server sy)")
  have id: "s_session_id se' = s_session_id se" if "r = Inr (se', b)" for se' b
    using run reg by (rule command_cases) (use that in \<open>auto simp: same_link_def\<close>)
  have "sid (sy_conns sy) n = Some (s_session_id se)" using line by (simp add: sid_def)
  have "sy_conns (on_line cr inp n se l sy) = (sy_conns sy)(n := Gone se)
      \<or> (\<exists>se' b. r = Inr (se', b) \<and> sy_conns (on_line cr inp n se l sy) \<in>
           {(sy_conns sy)(n := Gone se'), (sy_conns sy)(n := Live se')})"
    using run by (cases r) (auto simp: on_line_def handle_line_def drop_conn_def leave_loop_conns)
  then obtain se' where "sy_conns (on_line cr inp n se l sy) \<in>
      {(sy_conns sy)(n := Gone se'), (sy_conns sy)(n := Live se')}" "s_session_id se' = s_session_id se"
    using id by blast
  then show ?case using \<open>sid (sy_conns sy) n = Some (s_session_id se)\<close> by (auto simp: sid_update)
next
  case (accept sy n uuid)
  then show ?case by (simp add: accept_conn_def Let_def sid_def new_session_def)
qed (auto simp: leave_loop_conns drop_conn_def on_shutdown_def Let_def sid_update sid_def)

lemma exec_run:
  assumes "exec_all cr evs sy = Some sy'" "sys_ok sy" "distinct (concat (map accepted evs))"
    and "\<forall>uuid \<in> set (concat (map accepted evs)). \<forall>m. sid (sy_conns sy) m \<noteq> Some (''sess_'' @ uuid)"
  shows "run (sys_step cr) sy evs sy'"
  using assms
proof (induction evs arbitrary: sy)
  case Nil
  then show ?case by simp
next
  case (Cons ev evs)
  then obtain t where t: "exec cr ev sy = Some t" "exec_all cr evs t = Some sy'"
    by (auto simp: bind_eq_Some_conv)
  have "new_uuid ev sy" using Cons.prems(4) by (cases ev) auto
  with t(1) have st: "sys_step cr sy ev t" by (simp add: exec_step)
  have "run (sys_step cr) t evs sy'"
  proof (rule Cons.IH [OF t(2) sys_step_ok [OF st Cons.prems(2)]])
    show "distinct (concat (map accepted evs))" using Cons.prems(3) by simp
    show "\<forall>uuid \<in> set (concat (map accepted evs)). \<forall>m. sid (sy_conns t) m \<noteq> Some (''sess_'' @ uuid)"
    proof (intro ballI allI)
      fix uuid m assume u: "uuid \<in> set (concat (map accepted evs))"
      then have "uuid \<notin> set (accepted ev)" "sid (sy_conns sy) m \<noteq> Some (''sess_'' @ uuid)"
        using Cons.prems(3,4) by auto
      with step_sid [OF st Cons.prems(2), of m]
      show "sid (sy_conns t) m \<noteq> Some (''sess_'' @ uuid)" by auto
    qed
  qed
  with st show ?case by auto
qed

subsection \<open>Task commands: accepted or refused\<close>

lemma guarded_decides:
  assumes wf: "tasks_wf d" and key: "\<And>r. t_id (f r) = t_id r"
    and P: "\<And>r. row_ok r \<Longrightarrow> fst (spec (row_phase r)) \<longleftrightarrow> P r" and absent: "\<not> fst (spec Absent)"
  shows "\<not> fst (spec (task_phase tid d)) \<Longrightarrow> guarded_write tid P f msg d = (Inl (Anyhow msg), d)"
    and "fst (spec (task_phase tid d)) \<Longrightarrow> \<exists>r. row_of t_id (tasks d) tid = Some r \<and> row_ok r
      \<and> guarded_write tid P f msg d = (Inr (task_from_row (f r)),
          d\<lparr>tasks := snd (update_where (\<lambda>r. t_id r = tid \<and> P r) f (tasks d))\<rparr>)"
proof -
  note run = guarded_write(1) [OF wf, of f tid P msg, OF key]
  show "\<not> fst (spec (task_phase tid d)) \<Longrightarrow> guarded_write tid P f msg d = (Inl (Anyhow msg), d)"
    using P task_row_ok [OF wf] by (auto simp: run task_phase_def split: option.splits)
  show "fst (spec (task_phase tid d)) \<Longrightarrow> \<exists>r. row_of t_id (tasks d) tid = Some r \<and> row_ok r
      \<and> guarded_write tid P f msg d = (Inr (task_from_row (f r)),
          d\<lparr>tasks := snd (update_where (\<lambda>r. t_id r = tid \<and> P r) f (tasks d))\<rparr>)"
    using P task_row_ok [OF wf] absent by (auto simp: run task_phase_def split: option.splits)
qed

lemma spec_guards:
  "row_ok r \<Longrightarrow> is_i64 (now + lease) \<Longrightarrow> fst (spec_claim lease now p (row_phase r)) \<longleftrightarrow> claimable now r"
  "row_ok r \<Longrightarrow> fst (spec_done p (row_phase r)) \<longleftrightarrow> held_by p r"
  "row_ok r \<Longrightarrow> fst (spec_release p (row_phase r)) \<longleftrightarrow> held_by p r"
  by (erule row_phase_cases; simp add: spec_claim_def spec_done_def spec_release_def)+

lemma spec_absent:
  "\<not> fst (spec_claim lease now p Absent)" "\<not> fst (spec_done p Absent)" "\<not> fst (spec_release p Absent)"
  by (simp_all add: spec_claim_def spec_done_def spec_release_def)

definition refused_message :: "task_op \<Rightarrow> string" where
  "refused_message op =
     (case op of
        OpClaim _ _ _ _ \<Rightarrow> ''task is already claimed or done''
      | _ \<Rightarrow> ''task is not claimed by this principal'')"

fun task_verb :: "task_op \<Rightarrow> string \<times> string" where
  "task_verb (OpCreate _ _ _ _) = (''CREATE'', ''create'')"
| "task_verb (OpClaim _ _ _ _) = (''CLAIM'', ''claim'')"
| "task_verb (OpDone _ _ _) = (''DONE'', ''done'')"
| "task_verb (OpRelease _ _ _) = (''RELEASE'', ''release'')"

definition refusal_line :: "principal \<Rightarrow> task_op \<Rightarrow> string" where
  "refusal_line p op =
     task_failure_tags (snd (task_verb op)) (op_task op) (pr_nick p)
       @ '' :'' @ SERVER_NAME @ '' NOTICE '' @ pr_nick p
       @ '' :TASK '' @ fst (task_verb op) @ '' '' @ op_task op @ '' failed: '' @ refused_message op"

text \<open>The clock of a claim and the lease it asks for fit an \<open>i64\<close>, so nothing panics.\<close>

fun in_range :: "task_op \<Rightarrow> bool" where
  "in_range (OpClaim lease now tid p) = is_i64 (now + lease)"
| "in_range _ = True"

lemma db_op_refused:
  assumes "tasks_wf d"
  shows "is_i64 (now + lease) \<Longrightarrow> \<not> fst (spec_claim lease now p (task_phase tid d)) \<Longrightarrow>
      tasks_claim lease now tid p d = (Inl (Anyhow ''task is already claimed or done''), d)"
    and "\<not> fst (spec_done p (task_phase tid d)) \<Longrightarrow>
      tasks_done now tid p d = (Inl (Anyhow ''task is not claimed by this principal''), d)"
    and "\<not> fst (spec_release p (task_phase tid d)) \<Longrightarrow>
      tasks_release now tid p d = (Inl (Anyhow ''task is not claimed by this principal''), d)"
proof -
  show "is_i64 (now + lease) \<Longrightarrow> \<not> fst (spec_claim lease now p (task_phase tid d)) \<Longrightarrow>
      tasks_claim lease now tid p d = (Inl (Anyhow ''task is already claimed or done''), d)"
    unfolding writers_guarded add_i64_def
    by (simp add: act_simps, rule guarded_decides(1) [OF assms, where spec = "spec_claim lease now p"])
       (simp_all add: spec_guards spec_absent)
  show "\<not> fst (spec_done p (task_phase tid d)) \<Longrightarrow>
      tasks_done now tid p d = (Inl (Anyhow ''task is not claimed by this principal''), d)"
    unfolding writers_guarded
    by (rule guarded_decides(1) [OF assms, where spec = "spec_done p"])
       (simp_all add: spec_guards spec_absent)
  show "\<not> fst (spec_release p (task_phase tid d)) \<Longrightarrow>
      tasks_release now tid p d = (Inl (Anyhow ''task is not claimed by this principal''), d)"
    unfolding writers_guarded
    by (rule guarded_decides(1) [OF assms, where spec = "spec_release p"])
       (simp_all add: spec_guards spec_absent)
qed

lemma task_op_of_cases:
  assumes "task_op_of lease inp pid cmd = Some op"
  obtains (create) ch title where "cmd = TaskCreate ch title" "trim title \<noteq> []"
      "op = OpCreate (i_uuid inp) (i_now inp) (normalize_channel ch) (trim title)"
    | (claim) tid where "cmd = TaskClaim tid" "op = OpClaim lease (i_now inp) tid pid"
    | (finish) tid where "cmd = TaskDone tid" "op = OpDone (i_now inp) tid pid"
    | (release) tid where "cmd = TaskRelease tid" "op = OpRelease (i_now inp) tid pid"
  using assms by (cases cmd) (auto split: if_splits)

lemma task_refused_run:
  assumes wf: "tasks_wf (sv_db sv)" and p: "s_principal se = Some p"
    and op: "session_op sv inp se cmd = Some op" "in_range op"
    and kind: "\<And>u now ch title. op \<noteq> OpCreate u now ch title"
    and no: "\<not> fst (spec_op op (task_phase (op_task op) (sv_db sv)))"
  shows "handle_command cr inp se cmd sv = (Inr (se, False), push (s_tx se) [refusal_line p op] sv)"
proof -
  have g: "guard_ok se sv" and tk: "task_op_of (sv_lease_seconds sv) inp (pr_id p) cmd = Some op"
    using op(1) p by (auto simp: session_op_def split: if_splits)
  have sent: "m sv = task_failed se p verb action t e sv \<Longrightarrow> and_then m (\<lambda>_. ret (se, False)) sv
      = (Inr (se, False), push (s_tx se) [task_failure_tags action t (pr_nick p)
           @ '' :'' @ SERVER_NAME @ '' NOTICE '' @ pr_nick p
           @ '' :TASK '' @ verb @ '' '' @ t @ '' failed: '' @ e] sv)" for m verb action t e
    by (simp add: and_then_def task_failed_def session_send_run run_act)
  note line = refusal_line_def refused_message_def
  from tk show ?thesis
  proof (cases rule: task_op_of_cases)
    case (create ch title)
    then show ?thesis using kind by simp
  next
    case (claim tid)
    have r: "tasks_claim (sv_lease_seconds sv) (i_now inp) tid (pr_id p) (sv_db sv)
        = (Inl (Anyhow ''task is already claimed or done''), sv_db sv)"
      using db_op_refused(1) [OF wf] op(2) no claim by simp
    have "task_claim inp se tid sv = task_failed se p ''CLAIM'' ''claim'' tid ''task is already claimed or done'' sv"
      unfolding task_claim_def using p by (simp add: session_principal_def act_simps or_else_def on_db_def r)
    then show ?thesis
      by (simp add: claim guarded_run [OF g] sent line)
  next
    case (finish tid)
    have r: "tasks_done (i_now inp) tid (pr_id p) (sv_db sv)
        = (Inl (Anyhow ''task is not claimed by this principal''), sv_db sv)"
      using db_op_refused(2) [OF wf] no finish by simp
    have "task_done inp se tid sv = task_failed se p ''DONE'' ''done'' tid ''task is not claimed by this principal'' sv"
      unfolding task_done_def using p by (simp add: session_principal_def act_simps or_else_def on_db_def r)
    then show ?thesis
      by (simp add: finish guarded_run [OF g] sent line)
  next
    case (release tid)
    have r: "tasks_release (i_now inp) tid (pr_id p) (sv_db sv)
        = (Inl (Anyhow ''task is not claimed by this principal''), sv_db sv)"
      using db_op_refused(3) [OF wf] no release by simp
    have "task_release inp se tid sv = task_failed se p ''RELEASE'' ''release'' tid ''task is not claimed by this principal'' sv"
      unfolding task_release_def using p by (simp add: session_principal_def act_simps or_else_def on_db_def r)
    then show ?thesis
      by (simp add: release guarded_run [OF g] sent line)
  qed
qed

text \<open>The database half of a task command, with its result.\<close>

fun task_db :: "task_op \<Rightarrow> (db, task) act" where
  "task_db (OpCreate u now ch title) = tasks_create u now ch title"
| "task_db (OpClaim lease now tid p) = tasks_claim lease now tid p"
| "task_db (OpDone now tid p) = tasks_done now tid p"
| "task_db (OpRelease now tid p) = tasks_release now tid p"

lemma task_step_db: "task_step op d = succeeded (task_db op d)"
  by (cases op) simp_all

lemma task_db_accepted:
  assumes wf: "tasks_wf d" and yes: "fst (spec_op op (task_phase (op_task op) d))"
  shows "\<exists>t d'. task_db op d = (Inr t, d') \<and> t_id t = op_task op \<and> d' = d\<lparr>tasks := tasks d'\<rparr>"
proof -
  have trunc: "t_id (task_from_row r) = t_id r" for r by (simp add: task_from_row_def task.truncate_def)
  have row: "row_of t_id (tasks d) tid = Some r \<Longrightarrow> t_id r = tid" for tid r
    using tsks.row_of_Some by blast
  have "\<exists>t d'. task_db op d = (Inr t, d') \<and> t_id t = op_task op"
  proof (cases op)
    case (OpCreate u now ch title)
    then have "task_phase (''task_'' @ u) d = Absent"
      using yes by (auto simp: spec_create_def split: phase.splits)
    then have "row_of t_id (tasks d) (''task_'' @ u) = None"
      using row_phase_not_Absent task_row_ok [OF wf] by (auto simp: task_phase_def split: option.splits)
    then have "''task_'' @ u \<notin> t_id ` set (tasks d)"
      unfolding tsks.row_of_None by force
    then show ?thesis by (simp add: OpCreate tasks_create_def act_simps Let_def trunc)
  next
    case (OpClaim lease now tid p)
    have r: "is_i64 (now + lease)" using yes OpClaim by (auto simp: spec_claim_def split: if_splits)
    show ?thesis
      using guarded_decides(2) [OF wf, where spec = "spec_claim lease now p" and tid = tid
          and P = "claimable now" and f = "\<lambda>r. r\<lparr>t_status := ''claimed'', t_claimed_by := Some p,
            t_lease_expires_at := Some (now + lease), t_updated_at := now\<rparr>"
          and msg = "''task is already claimed or done''"] yes r
      by (auto simp: OpClaim writers_guarded add_i64_def act_simps spec_guards spec_absent trunc dest: row)
  next
    case (OpDone now tid p)
    show ?thesis
      using guarded_decides(2) [OF wf, where spec = "spec_done p" and tid = tid
          and P = "held_by p" and f = "\<lambda>r. r\<lparr>t_status := ''done'', t_updated_at := now\<rparr>"
          and msg = "''task is not claimed by this principal''"] yes
      by (auto simp: OpDone writers_guarded spec_guards spec_absent trunc dest: row)
  next
    case (OpRelease now tid p)
    show ?thesis
      using guarded_decides(2) [OF wf, where spec = "spec_release p" and tid = tid
          and P = "held_by p" and f = "\<lambda>r. r\<lparr>t_status := ''open'', t_claimed_by := None,
            t_lease_expires_at := None, t_updated_at := now\<rparr>"
          and msg = "''task is not claimed by this principal''"] yes
      by (auto simp: OpRelease writers_guarded spec_guards spec_absent trunc dest: row)
  qed
  then obtain t d' where run: "task_db op d = (Inr t, d')" "t_id t = op_task op" by blast
  then have "d' = d\<lparr>tasks := tasks d'\<rparr>" by (cases op) (auto dest: tasks_frame)
  with run show ?thesis by blast
qed

fun past_tense :: "task_op \<Rightarrow> string" where
  "past_tense (OpCreate _ _ _ _) = ''created''"
| "past_tense (OpClaim _ _ _ _) = ''claimed''"
| "past_tense (OpDone _ _ _) = ''completed''"
| "past_tense (OpRelease _ _ _) = ''released''"

definition event_body :: "principal \<Rightarrow> task_op \<Rightarrow> task \<Rightarrow> string" where
  "event_body p op t = ''TASK '' @ t_id t @ '' '' @ past_tense op @ '' by '' @ pr_nick p @ '': '' @ t_title t"

text \<open>What an accepted task command leaves to do: announce the task.\<close>

lemma task_accepted_run:
  assumes p: "s_principal se = Some p" and op: "session_op sv inp se cmd = Some op"
    and run: "task_db op (sv_db sv) = (Inr t, d)"
  shows "handle_command cr inp se cmd sv
    = and_then (post (i_log_uuid inp) (i_log_now inp) (t_channel t) SERVER_NAME (event_body p op t)
        (task_event_line t (snd (task_verb op)) ''success'' (pr_nick p) (event_body p op t)))
        (\<lambda>_. ret (se, False)) (sv\<lparr>sv_db := d\<rparr>)"
proof -
  have g: "guard_ok se sv" and tk: "task_op_of (sv_lease_seconds sv) inp (pr_id p) cmd = Some op"
    using op(1) p by (auto simp: session_op_def split: if_splits)
  from tk show ?thesis
  proof (cases rule: task_op_of_cases)
    case (create ch title)
    have "task_create inp se (normalize_channel ch) title sv
        = broadcast_task_event inp t ''create'' ''success'' (pr_nick p) (event_body p op t) (sv\<lparr>sv_db := d\<rparr>)"
      unfolding task_create_def using p run create
      by (simp add: session_principal_def act_simps and_then_def on_db_def event_body_def)
    then show ?thesis using create by (simp add: guarded_run [OF g] and_then_def posts)
  next
    case (claim tid)
    have "task_claim inp se tid sv
        = broadcast_task_event inp t ''claim'' ''success'' (pr_nick p) (event_body p op t) (sv\<lparr>sv_db := d\<rparr>)"
      unfolding task_claim_def using p run claim
      by (simp add: session_principal_def act_simps or_else_def on_db_def event_body_def)
    then show ?thesis using claim by (simp add: guarded_run [OF g] and_then_def posts)
  next
    case (finish tid)
    have "task_done inp se tid sv
        = broadcast_task_event inp t ''done'' ''success'' (pr_nick p) (event_body p op t) (sv\<lparr>sv_db := d\<rparr>)"
      unfolding task_done_def using p run finish
      by (simp add: session_principal_def act_simps or_else_def on_db_def event_body_def)
    then show ?thesis using finish by (simp add: guarded_run [OF g] and_then_def posts)
  next
    case (release tid)
    have "task_release inp se tid sv
        = broadcast_task_event inp t ''release'' ''success'' (pr_nick p) (event_body p op t) (sv\<lparr>sv_db := d\<rparr>)"
      unfolding task_release_def using p run release
      by (simp add: session_principal_def act_simps or_else_def on_db_def event_body_def)
    then show ?thesis using release by (simp add: guarded_run [OF g] and_then_def posts)
  qed
qed

lemma task_db_channel:
  assumes wf: "tasks_wf d" and yes: "fst (spec_op op (task_phase (op_task op) d))"
    and kind: "\<And>u now ch title. op \<noteq> OpCreate u now ch title" and run: "task_db op d = (Inr t, d')"
  shows "\<exists>r \<in> set (tasks d). t_id r = op_task op \<and> t_channel t = t_channel r"
proof -
  have trunc: "t_channel (task_from_row r) = t_channel r" for r by (simp add: task_from_row_def task.truncate_def)
  have row: "r \<in> set (tasks d) \<and> t_id r = tid" if "row_of t_id (tasks d) tid = Some r" for tid r
    using that tsks.row_of_Some by blast
  show ?thesis
  proof (cases op)
    case (OpCreate u now ch title)
    then show ?thesis using kind by blast
  next
    case (OpClaim lease now tid p)
    have i: "is_i64 (now + lease)" using yes OpClaim by (auto simp: spec_claim_def split: if_splits)
    show ?thesis
      using guarded_decides(2) [OF wf, where spec = "spec_claim lease now p" and tid = tid
          and P = "claimable now" and f = "\<lambda>r. r\<lparr>t_status := ''claimed'', t_claimed_by := Some p,
            t_lease_expires_at := Some (now + lease), t_updated_at := now\<rparr>"
          and msg = "''task is already claimed or done''"] yes run i
      by (auto simp: OpClaim writers_guarded add_i64_def act_simps spec_guards spec_absent trunc dest!: row)
  next
    case (OpDone now tid p)
    show ?thesis
      using guarded_decides(2) [OF wf, where spec = "spec_done p" and tid = tid
          and P = "held_by p" and f = "\<lambda>r. r\<lparr>t_status := ''done'', t_updated_at := now\<rparr>"
          and msg = "''task is not claimed by this principal''"] yes run
      by (auto simp: OpDone writers_guarded spec_guards spec_absent trunc dest!: row)
  next
    case (OpRelease now tid p)
    show ?thesis
      using guarded_decides(2) [OF wf, where spec = "spec_release p" and tid = tid
          and P = "held_by p" and f = "\<lambda>r. r\<lparr>t_status := ''open'', t_claimed_by := None,
            t_lease_expires_at := None, t_updated_at := now\<rparr>"
          and msg = "''task is not claimed by this principal''"] yes run
      by (auto simp: OpRelease writers_guarded spec_guards spec_absent trunc dest!: row)
  qed
qed

lemma sys_ok_tasks_update:
  assumes ok: "sys_ok sy" and wf: "db_wf d" and d: "d = (sv_db (sy_server sy))\<lparr>tasks := tasks d\<rparr>"
  shows "sv_wf ((sy_server sy)\<lparr>sv_db := d\<rparr>)"
    "rooms_ok (sv_inner ((sy_server sy)\<lparr>sv_db := d\<rparr>)) (sv_db ((sy_server sy)\<lparr>sv_db := d\<rparr>))"
    "linked ((sy_server sy)\<lparr>sv_db := d\<rparr>) (sy_conns sy)"
proof -
  show "sv_wf ((sy_server sy)\<lparr>sv_db := d\<rparr>)" using wf by simp
  show "rooms_ok (sv_inner ((sy_server sy)\<lparr>sv_db := d\<rparr>)) (sv_db ((sy_server sy)\<lparr>sv_db := d\<rparr>))"
    using rooms_ok_roster [OF same_roster_store(2) [OF d]] sys_okD(6) [OF ok] by simp
  show "linked ((sy_server sy)\<lparr>sv_db := d\<rparr>) (sy_conns sy)"
    using linked_same [OF sys_okD(7) [OF ok], of "(sy_server sy)\<lparr>sv_db := d\<rparr>"] by simp
qed

text \<open>Joining: a newcomer starts at the end of the channel.\<close>

lemma joined_missed:
  assumes "\<not> is_member p c d"
  shows "missed p c (add_membership now p c d) = []"
proof -
  have "channel_messages c (add_membership now p c d) = channel_messages c d"
    by (simp add: add_membership_def channel_messages_def)
  moreover have "sm_seq m \<le> current_channel_seq c d" if "m \<in> set (channel_messages c d)" for m
    unfolding current_channel_seq_def by (rule coalesce_max_ge) (simp add: that)
  ultimately show ?thesis
    using assms by (auto simp: missed_def cursor_add_membership is_member_cursor filter_empty_conv not_less)
qed

subsection \<open>A line that leaves the session as it was\<close>

lemma on_line_stay:
  assumes "handle_line cr inp se l (sy_server sy) = (Inr (se, False), sv)" "sy_conns sy n = Live se"
  shows "on_line cr inp n se l sy = sy\<lparr>sy_server := sv\<rparr>"
proof -
  have "(sy_conns sy)(n := Live se) = sy_conns sy" using assms(2) by (simp add: fun_upd_idem)
  with assms(1) show ?thesis by (simp add: on_line_def)
qed

text \<open>An accepted task command: the task, and its announcement.\<close>

lemma accepted_posted:
  assumes ok: "sys_ok sy" and n: "sy_conns sy n = Live se" "s_principal se = Some p"
    and op: "session_op (sy_server sy) inp se (parse_command l) = Some op"
    and yes: "fst (spec_op op (task_phase (op_task op) (sv_db (sy_server sy))))"
    and room: "has_room (i_log_uuid inp) (sv_db (sy_server sy))"
  obtains t d sv where "task_db op (sv_db (sy_server sy)) = (Inr t, d)" "t_id t = op_task op"
    "task_step op (sv_db (sy_server sy)) = (True, d)" "on_line cr inp n se l sy = sy\<lparr>sy_server := sv\<rparr>"
    "posted (task_event_line t (snd (task_verb op)) ''success'' (pr_nick p) (event_body p op t)
        (next_message (i_log_uuid inp) (i_log_now inp) (t_channel t) SERVER_NAME (event_body p op t) d))
      (next_message (i_log_uuid inp) (i_log_now inp) (t_channel t) SERVER_NAME (event_body p op t) d)
      ((sy_server sy)\<lparr>sv_db := d\<rparr>) sv" "d = (sv_db (sy_server sy))\<lparr>tasks := tasks d\<rparr>"
proof -
  let ?sv = "sy_server sy"
  from task_db_accepted [OF sys_okD(3) [OF ok] yes] obtain t d where
    run: "task_db op (sv_db ?sv) = (Inr t, d)" "t_id t = op_task op" and d: "d = (sv_db ?sv)\<lparr>tasks := tasks d\<rparr>"
    by blast
  have step: "task_step op (sv_db ?sv) = (True, d)" by (simp add: task_step_db run succeeded_def)
  have "db_wf (sv_db ?sv)" using ok by (simp add: sys_ok_def sv_wf_def)
  then have wf: "db_wf d"
    using db_wf_tasks [OF _ _ d] task_step_wf [OF sys_okD(3) [OF ok], of op] step by simp
  have "has_room (i_log_uuid inp) ((sv_db ?sv)\<lparr>tasks := tasks d\<rparr>)" using room by (simp add: has_room_def)
  then have "has_room (i_log_uuid inp) (sv_db (?sv\<lparr>sv_db := d\<rparr>))" using d by simp
  from post_posted [OF sys_ok_tasks_update [OF ok wf d] this, of "i_log_now inp" "t_channel t" SERVER_NAME
      "event_body p op t" "task_event_line t (snd (task_verb op)) ''success'' (pr_nick p) (event_body p op t)"]
  obtain sv where post: "post (i_log_uuid inp) (i_log_now inp) (t_channel t) SERVER_NAME (event_body p op t)
      (task_event_line t (snd (task_verb op)) ''success'' (pr_nick p) (event_body p op t)) (?sv\<lparr>sv_db := d\<rparr>)
      = (Inr (), sv)"
    and posted: "posted (task_event_line t (snd (task_verb op)) ''success'' (pr_nick p) (event_body p op t)
        (next_message (i_log_uuid inp) (i_log_now inp) (t_channel t) SERVER_NAME (event_body p op t) d))
      (next_message (i_log_uuid inp) (i_log_now inp) (t_channel t) SERVER_NAME (event_body p op t) d)
      (?sv\<lparr>sv_db := d\<rparr>) sv" by auto
  have "handle_line cr inp se l ?sv = (Inr (se, False), sv)"
    by (simp add: handle_line_def task_accepted_run [OF n(2) op run(1)] and_then_def post run_act)
  from that [OF run step on_line_stay [OF this n(1)] posted d] show ?thesis .
qed

end
