(* ===== verification/Demo.thy ===== *)
theory Demo
  imports Guarantees
begin

section \<open>A small deployment\<close>

text \<open>
  Concrete data on which the properties are instantiated: a stand-in for argon2 that meets
  the hypotheses about it, and a system with three principals in one channel: \<open>a\<close> and
  \<open>b\<close> are connected (connections 0 and 1), \<open>c\<close> is not and has missed a message;
  \<open>a\<close> holds a task until 100, another task is open. Connections 2 and 3 have given the
  tokens of \<open>c\<close> and of \<open>a\<close> and are about to register.
\<close>

definition demo_crypto :: crypto where
  "demo_crypto = \<lparr>hash_password = (\<lambda>salt s. Inr s), password_hash_new = (\<lambda>h. Inr h),
     verify_password = (\<lambda>s p. if s = p then PwOk else PwPassword)\<rparr>"

definition demo_principal :: "string \<Rightarrow> int option \<Rightarrow> principal_row" where
  "demo_principal n connected = \<lparr>p_id = n, p_nick = n, p_token = n @ ''-token'', p_team = None,
     p_last_seen_seq = 0, p_connected_at = connected, p_disconnected_at = None, p_created_at = 1\<rparr>"

definition demo_member :: "string \<Rightarrow> int \<Rightarrow> membership_row" where
  "demo_member n s = \<lparr>m_principal_id = n, m_channel = ''#w'', m_joined_at = 1, m_last_seen_seq = s\<rparr>"

definition demo_message :: stored_message where
  "demo_message = \<lparr>sm_seq = 1, sm_msg_id = ''msg_0'', sm_channel = ''#w'', sm_sender_id = ''b'',
     sm_body = ''old'', sm_created_at = 5\<rparr>"

definition demo_task :: "string \<Rightarrow> (string \<times> int) option \<Rightarrow> task_row" where
  "demo_task i claim = \<lparr>t_id = i, t_channel = ''#w'', t_title = ''fix'',
     t_status = (if claim = None then ''open'' else ''claimed''), t_claimed_by = map_option fst claim,
     t_lease_expires_at = map_option snd claim, t_created_at = 3, t_updated_at = 3\<rparr>"

definition demo_db :: db where
  "demo_db = empty_db\<lparr>
     principals := [demo_principal ''a'' (Some 2), demo_principal ''b'' (Some 2), demo_principal ''c'' None],
     channel_memberships := [demo_member ''a'' 1, demo_member ''b'' 1, demo_member ''c'' 0],
     messages := [demo_message], messages_seq := 1,
     tasks := [demo_task ''task_t'' (Some (''a'', 100)), demo_task ''task_o'' None]\<rparr>"

definition demo_pr :: "string \<Rightarrow> principal" where
  "demo_pr n = \<lparr>pr_id = n, pr_nick = n, pr_team = None\<rparr>"

definition demo_session :: "nat \<Rightarrow> string \<Rightarrow> string \<Rightarrow> session" where
  "demo_session k uuid who = \<lparr>s_session_id = ''sess_'' @ uuid, s_principal = Some (demo_pr who),
     s_nick = Some who, s_pass_token = Some (who @ ''-token''), s_registered = True, s_tx = k,
     s_shutdown_tx = k\<rparr>"

definition demo_a :: session where "demo_a = demo_session 0 ''u0'' ''a''"
definition demo_b :: session where "demo_b = demo_session 1 ''u1'' ''b''"

definition demo_c :: session where
  "demo_c = (new_session 2 ''u2'')\<lparr>s_pass_token := Some ''c-token'', s_nick := Some ''c''\<rparr>"

definition demo_a2 :: session where
  "demo_a2 = (new_session 3 ''u3'')\<lparr>s_pass_token := Some ''a-token'', s_nick := Some ''x''\<rparr>"

definition demo_server :: "db \<Rightarrow> server" where
  "demo_server d = (server_new None d)\<lparr>sv_inner :=
     \<lparr>clients = [''a'' \<mapsto> handle_of demo_a, ''b'' \<mapsto> handle_of demo_b],
      channels = [''#w'' \<mapsto> [''a'', ''b'']]\<rparr>\<rparr>"

definition demo_conns :: "nat \<Rightarrow> conn" where
  "demo_conns = (\<lambda>_. Idle)(0 := Live demo_a, 1 := Live demo_b, 2 := Live demo_c, 3 := Live demo_a2)"

definition demo_on :: "db \<Rightarrow> system" where
  "demo_on d = \<lparr>sy_server = demo_server d, sy_conns = demo_conns\<rparr>"

definition demo :: system where "demo = demo_on demo_db"

text \<open>The same system after 201 messages that \<open>c\<close> has not seen.\<close>

definition demo_backlog :: db where
  "demo_backlog = demo_db\<lparr>
     messages := map (\<lambda>i. demo_message\<lparr>sm_seq := i, sm_msg_id := replicate (nat i) (CHR ''m'')\<rparr>) [1..201],
     messages_seq := 201\<rparr>"

definition demo_inputs :: inputs where
  "demo_inputs = \<lparr>i_now = 10, i_uuid = ''n'', i_log_now = 10, i_log_uuid = ''n''\<rparr>"

lemmas demo_defs = demo_db_def empty_db_def demo_principal_def demo_member_def demo_message_def
  demo_task_def demo_pr_def demo_session_def demo_a_def demo_b_def demo_c_def demo_a2_def new_session_def

lemma demo_crypto_ok: "crypto_ok demo_crypto \<and> crypto_sound demo_crypto"
  by (simp add: crypto_ok_def crypto_sound_def demo_crypto_def)

lemma demo_db_wf: "db_wf demo_db"
  by (simp add: db_wf_def log_wf_def members_wf_def tasks_wf_def cursors_wf_def principals_wf_def
      keyed_def member_key_def row_ok_def channel_messages_def demo_defs i64_max_def)

lemma demo_facts [simp]:
  "sv_db (sy_server (demo_on d)) = d" "outs (sy_server (demo_on d)) n = new_mpsc"
  "shuts (sy_server (demo_on d)) n = new_mpsc"
  "sy_conns (demo_on d) 0 = Live demo_a" "sy_conns (demo_on d) (Suc 0) = Live demo_b"
  "sy_conns (demo_on d) 2 = Live demo_c" "sy_conns (demo_on d) 3 = Live demo_a2"
  "clients (sv_inner (sy_server (demo_on d))) = [''a'' \<mapsto> handle_of demo_a, ''b'' \<mapsto> handle_of demo_b]"
  "channels (sv_inner (sy_server (demo_on d))) = [''#w'' \<mapsto> [''a'', ''b'']]"
  "sv_lease_seconds (sy_server (demo_on d)) = 300" "sv_legacy_hits (sy_server (demo_on d)) = 0"
  by (simp_all add: demo_on_def demo_server_def server_new_def demo_conns_def lease_from_env_def)

lemmas demo_facts' [simp] = demo_facts [of demo_db, folded demo_def]

lemma demo_members: "is_member p c demo_db \<longleftrightarrow> c = ''#w'' \<and> p \<in> {''a'', ''b'', ''c''}"
  by (auto simp: is_member_in member_key_def demo_defs)

lemma demo_online: "online demo_db p \<longleftrightarrow> p \<in> {''a'', ''b''}"
  by (auto simp: online_def demo_defs)

lemma demo_conns_cases:
  "conn_session (demo_conns n) = Some se \<Longrightarrow>
   (n = 0 \<and> se = demo_a) \<or> (n = 1 \<and> se = demo_b) \<or> (n = 2 \<and> se = demo_c) \<or>
   (n = 3 \<and> se = demo_a2)"
  by (auto simp: demo_conns_def split: if_splits)

lemma demo_on_ok:
  assumes wf: "db_wf d" and mem: "\<And>p c. is_member p c d = is_member p c demo_db"
    and onl: "\<And>p. online d p = online demo_db p"
  shows "sys_ok (demo_on d)"
proof -
  let ?i = "sv_inner (demo_server d)"
  have "rooms_ok ?i d"
    by (rule rooms_okI)
       (auto simp: demo_server_def room_def mem onl demo_members demo_online split: if_splits option.splits)
  moreover have "linked (demo_server d) demo_conns"
  proof (rule linkedI)
    fix n se assume "conn_session (demo_conns n) = Some se"
    then show "session_ok (demo_server d) n se"
      by (auto dest!: demo_conns_cases simp: session_ok_def demo_defs)
  next
    have "sid demo_conns n = (if n = 0 then Some ''sess_u0'' else if n = 1 then Some ''sess_u1''
        else if n = 2 then Some ''sess_u2'' else if n = 3 then Some ''sess_u3'' else None)" for n
      by (simp add: sid_def demo_conns_def demo_defs)
    then show "i = j" if "sid demo_conns i = Some x" "sid demo_conns j = Some x" for i j x
      using that by (auto split: if_splits)
  next
    fix pid h assume "clients ?i pid = Some h"
    then have "(pid = ''a'' \<and> h = handle_of demo_a) \<or> (pid = ''b'' \<and> h = handle_of demo_b)"
      by (auto simp: demo_server_def split: if_splits)
    then show "handle_ok demo_conns pid h"
    proof
      assume "pid = ''a'' \<and> h = handle_of demo_a"
      then show ?thesis
        unfolding handle_ok_def
        by (intro exI [of _ 0] exI [of _ demo_a] exI [of _ "demo_pr ''a''"])
           (simp add: demo_conns_def demo_defs)
    next
      assume "pid = ''b'' \<and> h = handle_of demo_b"
      then show ?thesis
        unfolding handle_ok_def
        by (intro exI [of _ 1] exI [of _ demo_b] exI [of _ "demo_pr ''b''"])
           (simp add: demo_conns_def demo_defs)
    qed
  next
    fix n se assume "demo_conns n = Live se"
    then have "conn_session (demo_conns n) = Some se" by simp
    then show "live_ok (demo_server d) n se"
      by (auto dest!: demo_conns_cases
          simp: live_ok_def demo_server_def server_new_def new_mpsc_def demo_defs handle_of_def)
  qed
  ultimately show ?thesis
    using wf by (simp add: sys_ok_def demo_on_def sv_wf_def demo_server_def server_new_def)
qed

lemma demo_ok: "sys_ok demo"
  unfolding demo_def by (rule demo_on_ok [OF demo_db_wf]) simp_all

lemma demo_backlog_wf: "db_wf demo_backlog"
proof -
  let ?m = "\<lambda>i. demo_message\<lparr>sm_seq := i, sm_msg_id := replicate (nat i) (CHR ''m'')\<rparr>"
  have ms: "messages demo_backlog = map ?m [1..201]" by (simp add: demo_backlog_def)
  have seqs: "map sm_seq (messages demo_backlog) = [1..201]" unfolding ms by (simp add: o_def)
  have ids: "map sm_msg_id (messages demo_backlog) = map (\<lambda>i. replicate (nat i) (CHR ''m'')) [1..201]"
    unfolding ms by simp
  have "inj_on (\<lambda>i. replicate (nat i) (CHR ''m'')) {1..201}"
  proof (rule inj_onI)
    fix i j :: int
    assume ij: "i \<in> {1..201}" "j \<in> {1..201}" and "replicate (nat i) (CHR ''m'') = replicate (nat j) (CHR ''m'')"
    then have "nat i = nat j" by (metis length_replicate)
    with ij show "i = j" using eq_nat_nat_iff [of i j] by simp
  qed
  then have keyed: "keyed sm_msg_id (messages demo_backlog)"
    unfolding keyed_def ids by (simp add: distinct_map)
  have range: "sm_seq ` set (messages demo_backlog) = {1..201}"
    using arg_cong [OF seqs, of set] by simp
  then have "\<forall>m \<in> set (messages demo_backlog). 1 \<le> sm_seq m \<and> sm_seq m \<le> 201" by auto
  moreover have "messages_seq demo_backlog = 201" by (simp add: demo_backlog_def)
  ultimately have "log_wf demo_backlog"
    using keyed unfolding log_wf_def seqs by (simp add: i64_max_def)
  moreover have "channel_messages ''#w'' demo_backlog = messages demo_backlog"
    by (simp add: channel_messages_def ms demo_message_def)
  then have "sm_seq ` set (channel_messages ''#w'' demo_backlog) = {1..201}" using range by simp
  then have "cursors_wf demo_backlog"
    by (simp add: cursors_wf_def) (simp add: demo_backlog_def demo_defs)
  moreover have "members_wf demo_backlog \<and> tasks_wf demo_backlog \<and> principals_wf demo_backlog"
    using demo_db_wf by (simp add: db_wf_def demo_backlog_def members_wf_def tasks_wf_def principals_wf_def)
  ultimately show ?thesis by (simp add: db_wf_def)
qed

lemma demo_backlog_ok: "sys_ok (demo_on demo_backlog)"
  by (rule demo_on_ok [OF demo_backlog_wf]) (simp_all add: demo_backlog_def is_member_def online_def)

lemma demo_backlog_missed: "length (missed ''c'' ''#w'' demo_backlog) = 201"
proof -
  have "cursor ''c'' ''#w'' demo_backlog = Some 0"
    by (simp add: demo_backlog_def cursor_def row_of_def query_row_def member_key_def demo_defs)
  moreover have "filter (\<lambda>m. 0 < sm_seq m) (channel_messages ''#w'' demo_backlog) = messages demo_backlog"
    by (simp add: channel_messages_def demo_backlog_def demo_message_def filter_id_conv)
  ultimately have "missed ''c'' ''#w'' demo_backlog = messages demo_backlog" by (simp add: missed_def)
  then show ?thesis by (simp add: demo_backlog_def)
qed

subsection \<open>Facts the instances share\<close>

lemma parse_user: "parse_command ''USER a'' = User ''a''"
  by code_simp

lemma demo_tokens: "token_parse ''a-token'' = None" "token_parse ''c-token'' = None"
  by code_simp+

lemma demo_authenticate:
  "authenticate cr ''a-token'' demo_db 0 = (Inr (demo_pr ''a''), 1)"
  "authenticate cr ''c-token'' demo_db 0 = (Inr (demo_pr ''c''), 1)"
  using demo_tokens
  by (simp_all add: authenticate_def authenticate_legacy_def legacy_hit_def row_of_def query_row_def
      demo_defs principal_of_row_def)

lemma demo_hits [simp]: "sv_legacy_hits (sy_server demo) = 0"
  by (simp add: demo_def demo_server_def server_new_def)

lemma demo_inputs_simps [simp]:
  "i_now demo_inputs = 10" "i_uuid demo_inputs = ''n''" "i_log_now demo_inputs = 10"
  "i_log_uuid demo_inputs = ''n''"
  by (simp_all add: demo_inputs_def)

lemma demo_room: "has_room ''n'' demo_db"
  by (simp add: has_room_def demo_defs i64_max_def)

lemma demo_who [simp]: "s_principal demo_a = Some (demo_pr ''a'')" "s_principal demo_b = Some (demo_pr ''b'')"
  "pr_id (demo_pr n) = n" "pr_nick (demo_pr n) = n"
  by (simp_all add: demo_a_def demo_b_def demo_session_def demo_pr_def)

lemma demo_c_registers: "try_register demo_crypto demo_inputs demo_c (sy_server (demo_on d))
    = (Inr (registered_session (demo_pr ''c'') demo_c),
       snd (register demo_inputs (demo_pr ''c'') demo_c ((sy_server (demo_on d))\<lparr>sv_legacy_hits := 1\<rparr>)))"
  if "authenticate demo_crypto ''c-token'' d 0 = (Inr (demo_pr ''c''), 1)"
  using that by (simp add: try_register_def run_authenticate_def and_then_def register_run demo_c_def new_session_def)

lemma demo_room_backlog: "has_room ''n'' demo_backlog"
proof -
  have "''msg_n'' \<noteq> replicate k (CHR ''m'')" for k
  proof
    assume e: "''msg_n'' = replicate k (CHR ''m'')"
    have "CHR ''s'' \<in> set ''msg_n''" by simp
    then show False unfolding e by simp
  qed
  moreover have "sm_msg_id ` set (messages demo_backlog) \<subseteq> range (\<lambda>k. replicate k (CHR ''m''))"
    by (auto simp: demo_backlog_def)
  ultimately have "''msg_n'' \<notin> sm_msg_id ` set (messages demo_backlog)" by blast
  then show ?thesis by (simp add: has_room_def) (simp add: demo_backlog_def i64_max_def)
qed

lemma demo_task_lines:
  "parse_command ''TASK CLAIM task_t'' = TaskClaim ''task_t''"
  "parse_command ''TASK CLAIM task_o'' = TaskClaim ''task_o''"
  by code_simp+

lemma demo_guard: "guard_ok demo_a (sy_server demo)" "guard_ok demo_b (sy_server demo)"
  by (simp_all add: guard_ok_def demo_a_def demo_b_def demo_session_def demo_pr_def handle_of_def)

lemma demo_ops:
  "session_op (sy_server demo) demo_inputs demo_b (TaskClaim t) = Some (OpClaim 300 10 t ''b'')"
  by (simp add: session_op_def demo_guard)

end
