(* ===== verification/Client.thy ===== *)
theory Client
  imports ServerInv
begin

section \<open>The Python client's reader (src/clients/python/aircd/client.py)\<close>

text \<open>
  How \<open>AircdClient\<close> reads a line of the server: \<open>_parse_irc_line\<close> (lines 335 to 374, its
  tag section is \<open>read_tags\<close> of theory Wire), \<open>_extract_nick\<close> and the body of the
  \<open>_reader_loop\<close> (lines 268 to 301). \<open>None\<close> is the \<open>ValueError\<close> of
  \<open>str.index\<close>, which the loop does not catch. The lemmas show what the client makes of
  every line that the server posts to a channel.
\<close>

subsection \<open>The parts of Python's str the client uses\<close>

definition py_whitespace :: "char \<Rightarrow> bool" where
  "py_whitespace c \<longleftrightarrow> is_whitespace c \<or> c \<in> {CHR 0x1C, CHR 0x1D, CHR 0x1E, CHR 0x1F}"

function (sequential) py_split :: "string \<Rightarrow> string list" where
  "py_split [] = []"
| "py_split (c # cs) =
     (if py_whitespace c then py_split cs
      else (c # takeWhile (\<lambda>d. \<not> py_whitespace d) cs)
           # py_split (dropWhile (\<lambda>d. \<not> py_whitespace d) cs))"
  by pat_completeness auto
termination
  by (relation "measure length") (auto simp: le_imp_less_Suc length_dropWhile_le)

text \<open>
  \<open>str.upper()\<close>; the two letters whose upper case lies beyond U+00FF (U+00B5, U+00FF) are
  kept, which no comparison below can see.
\<close>

definition py_upper_char :: "char \<Rightarrow> string" where
  "py_upper_char c =
     (if c = CHR 0xDF then ''SS''
      else if CHR 0xE0 \<le> c \<and> c \<le> CHR 0xFE \<and> c \<noteq> CHR 0xF7 then [char_of (of_char c - (32 :: nat))]
      else [to_upper_char c])"

definition py_upper :: "string \<Rightarrow> string" where
  "py_upper s = concat (map py_upper_char s)"

text \<open>
  \<open>int(s)\<close>: surrounding whitespace, a sign, decimal digits with single underscores between
  them; \<open>None\<close> is the \<open>ValueError\<close>.
\<close>

definition py_strip :: "string \<Rightarrow> string" where
  "py_strip s = rev (dropWhile py_whitespace (rev (dropWhile py_whitespace s)))"

fun single_underscores :: "string \<Rightarrow> bool" where
  "single_underscores [] = False"
| "single_underscores [c] = (c \<noteq> CHR ''_'')"
| "single_underscores (c # d # cs) = (\<not> (c = CHR ''_'' \<and> d = CHR ''_'') \<and> single_underscores (d # cs))"

definition py_int :: "string \<Rightarrow> int option" where
  "py_int s =
     (let t = py_strip s;
          (sign, ds) = (case t of [] \<Rightarrow> (1, []) | c # cs \<Rightarrow>
             if c = CHR ''-'' then (- 1, cs) else if c = CHR ''+'' then (1, cs) else (1, c # cs))
      in if single_underscores ds \<and> hd ds \<noteq> CHR ''_''
         then map_option ((*) sign) (digits_val 0 (filter (\<lambda>c. c \<noteq> CHR ''_'') ds))
         else None)"

subsection \<open>Reading a line\<close>

definition take_prefix :: "string \<Rightarrow> (string \<times> string) option" where
  "take_prefix line =
     (if starts_with line '':'' then
        (case split_once '' '' line of None \<Rightarrow> None | Some (p, rest) \<Rightarrow> Some (tl p, rest))
      else Some ([], line))"

definition split_params :: "string \<Rightarrow> string \<times> string list" where
  "split_params line =
     (let (head, trailing) = (case split_once '' :'' line of Some (a, b) \<Rightarrow> (a, b) | None \<Rightarrow> (line, []));
          parts = py_split head
      in ((case parts of [] \<Rightarrow> [] | w # _ \<Rightarrow> py_upper w),
          drop 1 parts @ (if trailing \<noteq> [] then [trailing] else [])))"

definition parse_irc_line ::
    "string \<Rightarrow> (string \<times> string \<times> string list \<times> (string \<rightharpoonup> string)) option" where
  "parse_irc_line line =
     (case read_tags line of
        None \<Rightarrow> None
      | Some (tags, line) \<Rightarrow>
          (case take_prefix line of
             None \<Rightarrow> None
           | Some (pre, line) \<Rightarrow>
               (case split_params line of (command, params) \<Rightarrow> Some (pre, command, params, tags))))"

definition extract_nick :: "string \<Rightarrow> string" where
  "extract_nick pre = takeWhile (\<lambda>c. c \<noteq> CHR ''!'') pre"

record message =
  g_seq :: "int option"
  g_channel :: string
  g_sender :: string
  g_content :: string
  g_raw :: string
  g_tags :: "string \<rightharpoonup> string"
  g_is_replay :: bool

datatype client_event = Answer string | Deliver message | Ignore

text \<open>One turn of \<open>_reader_loop\<close>: what is sent back or put into the message queue.\<close>

definition read_event :: "string \<Rightarrow> client_event option" where
  "read_event line =
     (case parse_irc_line line of
        None \<Rightarrow> None
      | Some (pre, command, params, tags) \<Rightarrow> Some
          (if command = ''PING'' then Answer (''PONG :'' @ (if params = [] then [] else last params))
           else if command \<in> {''PRIVMSG'', ''NOTICE''} \<and> 2 \<le> length params then
             Deliver \<lparr>g_seq = Option.bind (tags ''seq'') py_int, g_channel = params ! 0,
               g_sender = extract_nick pre, g_content = params ! 1, g_raw = line, g_tags = tags,
               g_is_replay = (tags ''replay'' = Some ''1'' \<or> ''batch'' \<in> dom tags)\<rparr>
           else Ignore))"

text \<open>\<open>last_seen_seq\<close> of the client, per channel.\<close>

definition track_seen :: "message \<Rightarrow> (string \<rightharpoonup> int) \<Rightarrow> (string \<rightharpoonup> int)" where
  "track_seen g seen =
     (case g_seq g of
        None \<Rightarrow> seen
      | Some s \<Rightarrow> if starts_with (g_channel g) ''#''
          then seen(g_channel g \<mapsto> max (case seen (g_channel g) of None \<Rightarrow> 0 | Some x \<Rightarrow> x) s) else seen)"

subsection \<open>Facts\<close>

definition py_word :: "string \<Rightarrow> bool" where
  "py_word w \<longleftrightarrow> w \<noteq> [] \<and> (\<forall>c \<in> set w. \<not> py_whitespace c)"

lemma py_whitespace_space [simp]: "py_whitespace (CHR '' '')"
  by (simp add: py_whitespace_def)

lemma py_split_word: "py_word w \<Longrightarrow> py_split w = [w]"
  by (cases w) (auto simp: py_word_def takeWhile_eq_all_conv [THEN iffD2] dropWhile_eq_Nil_conv [THEN iffD2])

lemma py_split_two: "py_word w \<Longrightarrow> py_split (w @ CHR '' '' # s) = w # py_split s"
proof (cases w)
  case (Cons c cs)
  assume "py_word w"
  then have "takeWhile (\<lambda>d. \<not> py_whitespace d) (cs @ CHR '' '' # s) = cs"
      "dropWhile (\<lambda>d. \<not> py_whitespace d) (cs @ CHR '' '' # s) = CHR '' '' # s" "\<not> py_whitespace c"
    by (simp_all add: py_word_def Cons)
  then show ?thesis by (simp add: Cons)
qed (simp add: py_word_def)

lemma digit_not_ws: "is_digit c \<Longrightarrow> \<not> py_whitespace c \<and> c \<noteq> CHR ''_''"
  by (auto simp: is_digit_def py_whitespace_def is_whitespace_def less_eq_char_def)

lemma digit_signs: "\<not> is_digit (CHR ''-'')" "\<not> is_digit (CHR ''+'')"
  by (simp_all add: is_digit_def less_eq_char_def)

lemma digits_single: "ds \<noteq> [] \<Longrightarrow> \<forall>c \<in> set ds. is_digit c \<Longrightarrow> single_underscores ds \<and> hd ds \<noteq> CHR ''_''"
  by (induction ds rule: single_underscores.induct) (auto dest: digit_not_ws)

lemma py_strip_id: "\<forall>c \<in> set s. \<not> py_whitespace c \<Longrightarrow> py_strip s = s"
proof -
  assume s: "\<forall>c \<in> set s. \<not> py_whitespace c"
  have dw: "dropWhile py_whitespace t = t" if "\<forall>c \<in> set t. \<not> py_whitespace c" for t
    using that by (cases t) simp_all
  show ?thesis using dw [of s] dw [of "rev s"] s by (simp add: py_strip_def)
qed

lemma py_int_show_int: "py_int (show_int i) = Some i"
proof -
  have d: "\<forall>c \<in> set (show_nat n). is_digit c" "show_nat n \<noteq> []" for n
    by (auto intro: show_nat_digits simp: show_nat_nonempty)
  have f: "filter (\<lambda>c. c \<noteq> CHR ''_'') (show_nat n) = show_nat n" for n
    using d(1) digit_not_ws by (auto simp: filter_id_conv)
  have "is_digit (hd (show_nat n))" for n using d [of n] by simp
  then have h: "hd (show_nat n) \<noteq> CHR ''-''" "hd (show_nat n) \<noteq> CHR ''+''" for n
    by (metis digit_signs)+
  have "\<forall>c \<in> set (show_int i). \<not> py_whitespace c"
    using d(1) digit_not_ws by (auto simp: show_int_def py_whitespace_def is_whitespace_def)
  then have strip: "py_strip (show_int i) = show_int i" by (rule py_strip_id)
  note sig = digits_single [OF d(2,1)]
  show ?thesis
  proof (cases "i < 0")
    case True
    then show ?thesis
      using strip sig [of "nat (- i)"] by (simp add: py_int_def show_int_def f digits_val_show_nat)
  next
    case False
    obtain c cs where c: "show_nat (nat i) = c # cs" using d(2) by (cases "show_nat (nat i)") auto
    have "c \<noteq> CHR ''-''" "c \<noteq> CHR ''+''" using h [of "nat i"] c by simp_all
    with False show ?thesis
      using strip sig [of "nat i"] f [of "nat i"] digits_val_show_nat [of "nat i"]
      by (simp add: py_int_def show_int_def c)
  qed
qed


lemma split_params_body:
  assumes "py_word v" "py_word ch" "hd ch \<noteq> CHR '':''"
  shows "split_params (v @ '' '' @ ch @ '' :'' @ body)
    = (py_upper v, ch # (if body \<noteq> [] then [body] else []))"
proof -
  have nosp: "CHR '' '' \<notin> set w" if "py_word w" for w using that by (auto simp: py_word_def)
  have "colon_free (v @ CHR '' '' # ch)"
    using assms nosp by (intro colon_free_step colon_free_no_space) auto
  then have "split_once '' :'' ((v @ CHR '' '' # ch) @ '' :'' @ body) = Some (v @ CHR '' '' # ch, body)"
    by (rule split_once_colon_free)
  moreover have "py_split (v @ CHR '' '' # ch) = [v, ch]"
    using assms by (simp add: py_split_two py_split_word)
  ultimately show ?thesis by (simp add: split_params_def)
qed

lemma py_verbs [simp]:
  "py_word ''PRIVMSG''" "py_word ''NOTICE''" "py_upper ''PRIVMSG'' = ''PRIVMSG''"
  "py_upper ''NOTICE'' = ''NOTICE''"
  by (simp_all add: py_word_def py_whitespace_def is_whitespace_def py_upper_def py_upper_char_def
      upper_simps)

text \<open>Names that the client's reader keeps whole.\<close>

definition plain_nick :: "string \<Rightarrow> bool" where
  "plain_nick k \<longleftrightarrow> CHR '' '' \<notin> set k \<and> CHR ''!'' \<notin> set k"

definition plain_channel :: "string \<Rightarrow> bool" where
  "plain_channel ch \<longleftrightarrow> py_word ch \<and> hd ch = CHR ''#''"

lemma read_event_target:
  assumes tags: "\<forall>kv \<in> set tags. tag_key (fst kv)" "tags \<noteq> []" "distinct (map fst tags)"
    and k: "plain_nick k" and ch: "py_word ch" "hd ch \<noteq> CHR '':''" and v: "v = ''PRIVMSG'' \<or> v = ''NOTICE''"
    and line: "line = format_message_tags tags @ '' :'' @ k @ '' '' @ v @ '' '' @ ch @ '' :'' @ body"
  shows "read_event line = Some (if body = [] then Ignore else
    Deliver \<lparr>g_seq = Option.bind (map_of tags ''seq'') py_int, g_channel = ch, g_sender = k,
      g_content = body, g_raw = line, g_tags = map_of tags,
      g_is_replay = (map_of tags ''replay'' = Some ''1'' \<or> ''batch'' \<in> fst ` set tags)\<rparr>)"
proof -
  let ?m = "v @ '' '' @ ch @ '' :'' @ body" and ?r = "CHR '':'' # k @ CHR '' '' # v @ '' '' @ ch @ '' :'' @ body"
  have r: "read_tags line = Some (map_of tags, ?r)"
    using read_tags_format [OF tags, of ?r] by (simp add: line)
  have "split_once '' '' ?r = Some (CHR '':'' # k, ?m)"
    using split_once_char [of "CHR '' ''" "CHR '':'' # k" ?m] k by (simp add: plain_nick_def)
  then have p: "take_prefix ?r = Some (k, ?m)" by (simp add: take_prefix_def starts_with_def)
  have s: "split_params ?m = (v, ch # (if body \<noteq> [] then [body] else []))"
    using v split_params_body [of v ch body] ch by auto
  have "parse_irc_line line = Some (k, v, ch # (if body \<noteq> [] then [body] else []), map_of tags)"
    by (simp only: parse_irc_line_def r p s option.case prod.case)
  moreover have "extract_nick k = k"
    using k by (auto simp: extract_nick_def plain_nick_def takeWhile_eq_all_conv)
  ultimately show ?thesis
    using v by (auto simp: read_event_def dom_map_of_conv_image_fst)
qed

lemma read_event_line:
  assumes "\<forall>kv \<in> set tags. tag_key (fst kv)" "tags \<noteq> []" "distinct (map fst tags)"
    and "plain_nick k" and "plain_channel ch" and "v = ''PRIVMSG'' \<or> v = ''NOTICE''"
    and "line = format_message_tags tags @ '' :'' @ k @ '' '' @ v @ '' '' @ ch @ '' :'' @ body"
  shows "read_event line = Some (if body = [] then Ignore else
    Deliver \<lparr>g_seq = Option.bind (map_of tags ''seq'') py_int, g_channel = ch, g_sender = k,
      g_content = body, g_raw = line, g_tags = map_of tags,
      g_is_replay = (map_of tags ''replay'' = Some ''1'' \<or> ''batch'' \<in> fst ` set tags)\<rparr>)"
  using read_event_target [OF assms(1-4) _ _ assms(6,7)] assms(5) by (simp add: plain_channel_def)

lemma message_line_tags: "message_line p ch body m
  = format_message_tags [(''seq'', show_int (sm_seq m)), (''msg-id'', sm_msg_id m), (''time'', show_int (sm_created_at m))]
    @ '' :'' @ pr_nick p @ '' '' @ ''PRIVMSG'' @ '' '' @ ch @ '' :'' @ body"
  by (simp add: message_line_def privmsg_line_def metadata_tags_def)

lemma task_event_line_tags: "task_event_line t action status actor body m
  = format_message_tags (task_event_tags m t action status actor)
    @ '' :'' @ ''aircd'' @ '' '' @ ''NOTICE'' @ '' '' @ t_channel t @ '' :'' @ body"
  by (simp add: task_event_line_def SERVER_NAME_def)

lemma task_event_tags_ok:
  "\<forall>kv \<in> set (task_event_tags m t action status actor). tag_key (fst kv)"
  "task_event_tags m t action status actor \<noteq> []"
  "distinct (map fst (task_event_tags m t action status actor))"
  by (simp_all add: task_event_tags_def)

lemma read_message_line:
  assumes "plain_nick (pr_nick p)" "plain_channel ch" "body \<noteq> []"
  shows "\<exists>g. read_event (message_line p ch body m) = Some (Deliver g)
    \<and> g_seq g = Some (sm_seq m) \<and> g_channel g = ch \<and> g_sender g = pr_nick p \<and> g_content g = body
    \<and> g_tags g ''msg-id'' = Some (sm_msg_id m) \<and> \<not> g_is_replay g"
  using read_event_line [OF _ _ _ assms(1,2) disjI1 [OF refl] message_line_tags [of p ch body m]] assms(3)
  by (simp add: py_int_show_int)

lemma read_task_event_line:
  assumes "plain_channel (t_channel t)" "body \<noteq> []"
  shows "\<exists>g. read_event (task_event_line t action status actor body m) = Some (Deliver g)
    \<and> g_seq g = Some (sm_seq m) \<and> g_channel g = t_channel t \<and> g_sender g = ''aircd'' \<and> g_content g = body
    \<and> g_tags g ''task-id'' = Some (t_id t) \<and> g_tags g ''task-action'' = Some action
    \<and> g_tags g ''task-status'' = Some status \<and> g_tags g ''task-actor'' = Some actor
    \<and> g_tags g ''task-title'' = (if t_title t = [] then None else Some (t_title t)) \<and> \<not> g_is_replay g"
proof -
  have "plain_nick ''aircd''" by (simp add: plain_nick_def)
  from read_event_line [OF task_event_tags_ok this assms(1) disjI2 [OF refl] task_event_line_tags [of t action status actor body m]]
  show ?thesis using assms(2)
    by (simp add: py_int_show_int task_event_tags_def)
qed

lemma replay_line_tags: "replay_line d m
  = format_message_tags [(''seq'', show_int (sm_seq m)), (''msg-id'', sm_msg_id m), (''time'', show_int (sm_created_at m)), (''replay'', ''1'')]
    @ '' :'' @ display_name SERVER_NAME (sm_sender_id m) d @ '' '' @ ''PRIVMSG'' @ '' '' @ sm_channel m @ '' :'' @ sm_body m"
  by (simp add: replay_line_def privmsg_line_def metadata_tags_def)

lemma read_replay_line:
  assumes "plain_nick (display_name SERVER_NAME (sm_sender_id m) d)" "plain_channel (sm_channel m)" "sm_body m \<noteq> []"
  shows "\<exists>g. read_event (replay_line d m) = Some (Deliver g)
    \<and> g_seq g = Some (sm_seq m) \<and> g_channel g = sm_channel m
    \<and> g_sender g = display_name SERVER_NAME (sm_sender_id m) d \<and> g_content g = sm_body m
    \<and> g_tags g ''msg-id'' = Some (sm_msg_id m) \<and> g_is_replay g"
  using read_event_line [OF _ _ _ assms(1,2) disjI1 [OF refl] replay_line_tags [of d m]] assms(3)
  by (simp add: py_int_show_int)

end
