(* ===== verification/Startup.thy ===== *)
theory Startup
  imports System
begin

section \<open>Start-up (src/src/main.rs, \<open>open\<close> of src/src/store.rs)\<close>

text \<open>
  \<open>main\<close> up to the point where the listeners run: the environment, \<open>store::open\<close>,
  \<open>Server::new\<close> and the TLS configuration, as an operation on the database that the SQLite
  file holds. Reading files and the rustls crates are the parameter \<open>tls_lib\<close>, opening the
  file is \<open>open_file\<close>. The lemmas show that the initialisation keeps the invariant of the
  database, and what a successful start went through.
\<close>

subsection \<open>TLS configuration\<close>

record ('b, 'c, 'k, 'cfg) tls_lib =
  fs_read :: "string \<Rightarrow> string + 'b"
  pem_certs :: "'b \<Rightarrow> string + 'c list"
  pem_private_key :: "'b \<Rightarrow> string + 'k option"
  server_config :: "'c list \<Rightarrow> 'k \<Rightarrow> string + 'cfg"

text \<open>\<open>Result::context\<close> on the error of a library.\<close>

definition or_context :: "string + 'a \<Rightarrow> string \<Rightarrow> err + 'a" where
  "or_context r ctx = (case r of Inl _ \<Rightarrow> Inl (Anyhow ctx) | Inr x \<Rightarrow> Inr x)"

definition load_tls_config ::
    "('b, 'c, 'k, 'cfg) tls_lib \<Rightarrow> string \<Rightarrow> string \<Rightarrow> ('s, 'cfg) act" where
  "load_tls_config lib cert_path key_path =
     and_then (lift_res (or_context (fs_read lib cert_path) (''read TLS cert: '' @ cert_path))) (\<lambda>cert_data.
     and_then (lift_res (or_context (fs_read lib key_path) (''read TLS key: '' @ key_path))) (\<lambda>key_data.
     and_then (lift_res (or_context (pem_certs lib cert_data) ''parse TLS certificates'')) (\<lambda>certs.
       if certs = [] then raise (Anyhow (''no certificates found in '' @ cert_path))
       else
         and_then (lift_res (or_context (pem_private_key lib key_data) ''parse TLS private key'')) (\<lambda>found.
           case found of
             None \<Rightarrow> raise (Anyhow (''no private key found in '' @ key_path))
           | Some key \<Rightarrow> lift_res (or_context (server_config lib certs key) ''build TLS server config'')))))"

subsection \<open>The program\<close>

definition store_open ::
    "(string \<Rightarrow> string + unit) \<Rightarrow> crypto \<Rightarrow> (nat \<Rightarrow> draw) \<Rightarrow> string \<Rightarrow> (db, unit) act" where
  "store_open open_file cr ws path =
     and_then (lift_res (or_context (open_file path) ''open sqlite database'')) (\<lambda>_. db_init cr ws)"

datatype 'cfg listener = Listen string | ListenTls string 'cfg

definition env_or :: "(string \<rightharpoonup> string) \<Rightarrow> string \<Rightarrow> string \<Rightarrow> string" where
  "env_or env name fallback = (case env name of Some v \<Rightarrow> v | None \<Rightarrow> fallback)"

definition main_start ::
    "('b, 'c, 'k, 'cfg) tls_lib \<Rightarrow> (string \<Rightarrow> string + unit) \<Rightarrow> crypto \<Rightarrow> (nat \<Rightarrow> draw)
     \<Rightarrow> (string \<rightharpoonup> string) \<Rightarrow> (db, server \<times> 'cfg listener list) act" where
  "main_start lib open_file cr ws env =
     (let bind_addr = env_or env ''AIRCD_BIND'' ''127.0.0.1:6667'';
          db_path = env_or env ''AIRCD_DB'' ''aircd.sqlite3'';
          tls_cert = env ''AIRCD_TLS_CERT'';
          tls_key = env ''AIRCD_TLS_KEY''
      in and_then (store_open open_file cr ws db_path) (\<lambda>_.
         and_then (reads (server_new (env ''AIRCD_TASK_LEASE_SECONDS''))) (\<lambda>server.
           case (tls_cert, tls_key) of
             (Some cert, Some key) \<Rightarrow>
               and_then (load_tls_config lib cert key) (\<lambda>acceptor.
                 let tls_bind = env_or env ''AIRCD_TLS_BIND'' ''127.0.0.1:6697''
                 in ret (server, [Listen bind_addr, ListenTls tls_bind acceptor]))
           | (None, None) \<Rightarrow> ret (server, [Listen bind_addr])
           | _ \<Rightarrow> raise (Anyhow ''both AIRCD_TLS_CERT and AIRCD_TLS_KEY must be set to enable TLS''))))"

subsection \<open>The initialisation keeps the invariant of the database\<close>

text \<open>The part of the invariant that does not speak of tokens.\<close>

definition data_wf :: "db \<Rightarrow> bool" where
  "data_wf d \<longleftrightarrow> log_wf d \<and> members_wf d \<and> tasks_wf d \<and> cursors_wf d"

lemma db_wf_data: "db_wf d \<longleftrightarrow> data_wf d \<and> principals_wf d"
  by (auto simp: db_wf_def data_wf_def)

lemma data_wf_frame [simp]:
  "data_wf (d\<lparr>schema := s\<rparr>) = data_wf d"
  "data_wf (d\<lparr>label_index := l\<rparr>) = data_wf d"
  "data_wf (d\<lparr>principal_tokens := ts\<rparr>) = data_wf d"
  "data_wf (d\<lparr>tokens_seq := i\<rparr>) = data_wf d"
  by (simp_all add: data_wf_def log_wf_def members_wf_def tasks_wf_def cursors_wf_def channel_messages_def)

lemma data_wf_principals:
  assumes "data_wf d" "\<forall>p \<in> set ps. p_last_seen_seq p \<in> insert 0 (p_last_seen_seq ` set (principals d))"
  shows "data_wf (d\<lparr>principals := ps\<rparr>)"
proof -
  have "\<forall>p \<in> set ps. p_last_seen_seq p \<in> insert 0 (sm_seq ` set (messages d))"
    using assms by (fastforce simp: data_wf_def cursors_wf_def)
  with assms(1) show ?thesis
    by (simp add: data_wf_def log_wf_def members_wf_def tasks_wf_def cursors_wf_def channel_messages_def)
qed

lemma data_wf_members:
  assumes "data_wf d"
  shows "data_wf (d\<lparr>channel_memberships := map (m_last_seen_seq_update (\<lambda>_. 0)) (channel_memberships d)\<rparr>)"
proof -
  have "member_key \<circ> m_last_seen_seq_update (\<lambda>_. 0) = member_key"
    by (rule ext) (simp add: member_key_def)
  with assms show ?thesis
    by (simp add: data_wf_def log_wf_def members_wf_def tasks_wf_def cursors_wf_def channel_messages_def keyed_def)
qed

lemma data_wf_create_table: "data_wf (create_table n cols d) = data_wf d"
  by (simp add: create_table_def split: option.split)

lemma data_wf_add_column: "data_wf (add_column t c d) = data_wf d"
  by (simp add: add_column_def split: option.split)

lemma data_wf_mig: "data_wf d \<Longrightarrow> data_wf (mig c d)"
  by (auto simp: mig_def data_wf_add_column add_column_facts default_principal_column_def
      intro!: data_wf_principals)

lemma data_wf_migm: "data_wf d \<Longrightarrow> data_wf (migm d)"
  using data_wf_members [of "add_column ''channel_memberships'' ''last_seen_seq'' d"]
  by (simp add: migm_def data_wf_add_column add_column_facts)

lemma keeps_data_insert_token: "keeps data_wf (insert_token pid tid h l now ctx)"
  unfolding insert_token_def Let_def by (intro keeps_rules) simp_all

lemma keeps_data_seed: "keeps data_wf (seed_principal cr w pid nick token team)"
proof -
  have "data_wf (snd (insert_or_ignore_principal pid nick token t now d))" if "data_wf d" for t now d
    using that by (auto simp: insert_or_ignore_principal_def intro!: data_wf_principals)
  then show ?thesis
    unfolding seed_principal_def Let_def split_def
    by (intro keeps_rules keeps_data_insert_token) simp
qed

lemma keeps_db_wf_init: "keeps db_wf (db_init cr ws)"
proof -
  have schema: "keeps data_wf create_schema"
    unfolding create_schema_def split_def by (intro keeps_rules) (simp_all add: data_wf_create_table)
  have mig: "keeps data_wf migrate_principals" "keeps data_wf migrate_channel_memberships"
    by (simp_all add: keeps_def migrate_eqs data_wf_mig data_wf_migm)
  have bf: "keeps data_wf (backfill_one cr x)" for x
    unfolding backfill_one_def Let_def split_def by (intro keeps_rules keeps_data_insert_token)
  have "keeps data_wf (db_init cr ws)"
    unfolding db_init_alt seed_all_def backfill_principal_tokens_def split_def
    by (intro keeps_rules schema mig keeps_data_seed bf)
  then show ?thesis using keeps_db_init [of cr ws] by (simp add: keeps_def db_wf_data)
qed

subsection \<open>What a successful start went through\<close>

lemma db_wf_empty: "db_wf empty_db"
  by (simp add: db_wf_def log_wf_empty members_wf_empty principals_wf_empty)
     (simp add: tasks_wf_def cursors_wf_def empty_db_def keyed_def)

lemma load_tls_config_pure: "snd (load_tls_config lib cert key s) = s"
  by (simp add: load_tls_config_def and_then_def run_act split: sum.split option.split)

lemma store_open_Inr: "store_open open_file cr ws path d = (Inr (), d') \<Longrightarrow> db_init cr ws d = (Inr (), d')"
  by (auto simp: store_open_def run_act elim!: and_then_InrE)

lemma lease_from_env_ok: "0 < lease_from_env e \<and> is_i64 (lease_from_env e)"
  by (auto simp: lease_from_env_def is_i64_def i64_min_def i64_max_def bind_eq_Some_conv
      dest!: parse_i64_range split: option.split)

lemma main_start_Inr:
  assumes "main_start lib open_file cr ws env d = (Inr (sv, ls), d')"
  shows "(\<exists>path. store_open open_file cr ws path d = (Inr (), d'))
    \<and> sv = server_new (env ''AIRCD_TASK_LEASE_SECONDS'') d'
    \<and> ((env ''AIRCD_TLS_CERT'' = None \<and> env ''AIRCD_TLS_KEY'' = None
         \<and> ls = [Listen (env_or env ''AIRCD_BIND'' ''127.0.0.1:6667'')])
      \<or> (\<exists>cert key cfg. env ''AIRCD_TLS_CERT'' = Some cert \<and> env ''AIRCD_TLS_KEY'' = Some key
         \<and> fst (load_tls_config lib cert key d') = Inr cfg
         \<and> ls = [Listen (env_or env ''AIRCD_BIND'' ''127.0.0.1:6667''),
                 ListenTls (env_or env ''AIRCD_TLS_BIND'' ''127.0.0.1:6697'') cfg]))"
proof -
  from assms obtain e where e: "store_open open_file cr ws (env_or env ''AIRCD_DB'' ''aircd.sqlite3'') d = (Inr (), e)"
    by (auto simp: main_start_def Let_def elim!: and_then_InrE)
  show ?thesis
  proof (cases "env ''AIRCD_TLS_CERT''")
    case None
    with assms e show ?thesis
      by (cases "env ''AIRCD_TLS_KEY''") (auto simp: main_start_def Let_def and_then_def run_act)
  next
    case (Some cert)
    note cert = this
    show ?thesis
    proof (cases "env ''AIRCD_TLS_KEY''")
      case None
      with assms e cert show ?thesis by (auto simp: main_start_def Let_def and_then_def run_act)
    next
      case (Some key)
      obtain r where r: "load_tls_config lib cert key e = (r, e)"
        using load_tls_config_pure [of lib cert key e] by (metis prod.collapse)
      with assms e cert Some show ?thesis
        by (cases r) (auto simp: main_start_def Let_def and_then_def run_act)
    qed
  qed
qed

end
