(* ===== verification/Install.thy ===== *)
theory Install
  imports Startup
begin

section \<open>The initialisation succeeds\<close>

text \<open>
  \<open>init\<close> of store.rs never fails on a sound database: if argon2 hashes, the ids drawn are
  new and row ids are left, every statement of it succeeds, and the principals afterwards are
  the old ones followed by the seeds whose id and token were free (\<open>seeds_onto\<close>).
\<close>

lemma for_each_runs:
  assumes "\<And>x ys s. I (x # ys) s \<Longrightarrow> \<exists>t. body x s = (Inr (), t) \<and> I ys t" and "I xs s"
  shows "\<exists>t. for_each xs body s = (Inr (), t) \<and> I [] t"
  using assms(2)
proof (induction xs arbitrary: s)
  case Nil
  then show ?case by (simp add: act_simps)
next
  case (Cons x xs)
  from assms(1) [OF Cons.prems] obtain t where t: "body x s = (Inr (), t)" "I xs t" by blast
  with Cons.IH [OF t(2)] show ?case by (simp add: and_then_Inr)
qed

subsection \<open>What it needs\<close>

definition hashes :: "crypto \<Rightarrow> bool" where
  "hashes cr \<longleftrightarrow> (\<forall>salt s. \<exists>h. hash_password cr salt s = Inr h)"

definition drawn_id :: "draw \<Rightarrow> string" where
  "drawn_id w = hex_encode (d_id_bytes w)"

text \<open>The draws \<open>ids\<close> are still to come, and room is left for \<open>n\<close> token rows.\<close>

definition ready :: "string list \<Rightarrow> nat \<Rightarrow> db \<Rightarrow> bool" where
  "ready ids n d \<longleftrightarrow> distinct ids \<and> set ids \<inter> k_token_id ` set (principal_tokens d) = {}
     \<and> (\<forall>t \<in> set (principal_tokens d). k_id t \<le> tokens_seq d) \<and> tokens_seq d + int n \<le> i64_max
     \<and> k_principal_id ` set (principal_tokens d) \<subseteq> p_id ` set (principals d)"

lemma ready_skip: "ready (a @ b @ ids) (k + n) d \<Longrightarrow> m \<le> k \<Longrightarrow> ready (a @ ids) (m + n) d"
  by (auto simp: ready_def)

lemma insert_token_runs:
  assumes "ready (tid # ids) (Suc n) d" "pid \<in> p_id ` set (principals d)"
    and "\<forall>t \<in> set (principal_tokens d). k_principal_id t = pid \<longrightarrow> k_label t \<noteq> l"
  shows "\<exists>d' r. insert_token pid tid h l now ctx d = (Inr (), d') \<and> ready ids n d' \<and> k_principal_id r = pid
    \<and> d' = d\<lparr>principal_tokens := principal_tokens d @ [r], tokens_seq := tokens_seq d + 1\<rparr>"
proof -
  let ?r = "\<lparr>k_id = tokens_seq d + 1, k_principal_id = pid, k_token_id = tid, k_token_hash = h, k_label = l,
      k_created_at = now, k_revoked_at = None\<rparr>"
  have "next_rowid (tokens_seq d) (map k_id (principal_tokens d)) = Some (tokens_seq d + 1)"
    using assms(1) by (subst next_rowid_bound) (auto simp: ready_def)
  then have "insert_token pid tid h l now ctx d
      = (Inr (), d\<lparr>principal_tokens := principal_tokens d @ [?r], tokens_seq := tokens_seq d + 1\<rparr>)"
    using assms by (auto simp: insert_token_def act_simps Let_def ready_def label_clash_def)
  moreover have "ready ids n (d\<lparr>principal_tokens := principal_tokens d @ [?r], tokens_seq := tokens_seq d + 1\<rparr>)"
    using assms by (fastforce simp: ready_def)
  ultimately show ?thesis by (intro exI [of _ "d\<lparr>principal_tokens := principal_tokens d @ [?r], tokens_seq := tokens_seq d + 1\<rparr>"]
        exI [of _ ?r]) simp
qed

subsection \<open>The seeds\<close>

text \<open>The principals after the seeding, as a function of those before (id, nick, token, team).\<close>

type_synonym who = "string \<times> string \<times> string \<times> string option"

definition seed_onto :: "string \<times> string \<times> string \<Rightarrow> who list \<Rightarrow> who list" where
  "seed_onto x ss =
     (case x of (pid, token, team) \<Rightarrow>
        if \<exists>s \<in> set ss. fst s = pid \<or> fst (snd (snd s)) = token then ss
        else ss @ [(pid, pid, token, Some team)])"

definition seeds_onto :: "who list \<Rightarrow> who list" where
  "seeds_onto ss = fold seed_onto seed_rows ss"

lemma seed_present_static:
  "seed_present pid token d \<longleftrightarrow> (\<exists>s \<in> set (map static (principals d)). fst s = pid \<or> fst (snd (snd s)) = token)"
  by (simp add: seed_present_def static_def)

lemma seed_runs:
  assumes h: "hashes cr" and r: "ready (drawn_id w # ids) (Suc n) d"
  shows "\<exists>d'. seed_principal cr w pid pid token team d = (Inr (), d') \<and> ready ids n d'
    \<and> map static (principals d') = seed_onto (pid, token, team) (map static (principals d))"
proof (cases "seed_present pid token d")
  case True
  then have "seed_principal cr w pid pid token team d = (Inr (), d)" by (rule seed_principal_present)
  moreover have "ready ids n d" using r by (auto simp: ready_def)
  ultimately show ?thesis using True by (auto simp: seed_onto_def seed_present_static)
next
  case False
  let ?p = "\<lparr>p_id = pid, p_nick = pid, p_token = token, p_team = Some team, p_last_seen_seq = 0,
      p_connected_at = None, p_disconnected_at = None, p_created_at = d_now w\<rparr>"
  let ?e = "d\<lparr>principals := principals d @ [?p]\<rparr>"
  have ins: "insert_or_ignore_principal pid pid token (Some team) (d_now w) d = (1, ?e)"
    using False by (auto simp: insert_or_ignore_principal_def seed_present_def)
  obtain hs where hs: "token_hash cr (d_salt w) token = Inr hs"
    using h unfolding hashes_def token_hash_Inr by blast
  have "pid \<notin> k_principal_id ` set (principal_tokens ?e)"
  proof
    assume "pid \<in> k_principal_id ` set (principal_tokens ?e)"
    then have "pid \<in> p_id ` set (principals d)" using r by (auto simp: ready_def)
    with False show False by (auto simp: seed_present_def)
  qed
  then have "\<forall>t \<in> set (principal_tokens ?e). k_principal_id t = pid \<longrightarrow> k_label t \<noteq> Some SEED_LABEL" by force
  moreover have "ready (drawn_id w # ids) (Suc n) ?e" using r by (auto simp: ready_def)
  ultimately obtain d' r' where d': "insert_token pid (drawn_id w) hs (Some SEED_LABEL) (d_now w)
      ''seed principal_tokens row'' ?e = (Inr (), d')" "ready ids n d'"
      "d' = ?e\<lparr>principal_tokens := principal_tokens ?e @ [r'], tokens_seq := tokens_seq ?e + 1\<rparr>"
    using insert_token_runs [of "drawn_id w" ids n ?e pid] by fastforce
  have "seed_principal cr w pid pid token team d = (Inr (), d')"
    using d'(1) by (simp add: seed_principal_def ins token_generate_def act_simps hs with_context_def Let_def drawn_id_def)
  moreover have "map static (principals d') = map static (principals d) @ [(pid, pid, token, Some team)]"
    by (simp add: d'(3) static_def)
  ultimately show ?thesis using d'(2) False unfolding seed_present_static seed_onto_def by auto
qed

lemma seeds_run:
  assumes h: "hashes cr" and r: "ready (map drawn_id (map ws [0..<7]) @ ids) (7 + n) d"
  shows "\<exists>d'. seed_all cr ws d = (Inr (), d') \<and> ready ids n d'
    \<and> map static (principals d') = seeds_onto (map static (principals d))"
proof -
  let ?I = "\<lambda>ys e. ready (map (drawn_id \<circ> fst) ys @ ids) (length ys + n) e
    \<and> fold seed_onto (map snd ys) (map static (principals e)) = seeds_onto (map static (principals d))"
  have "\<exists>e'. (case x of (w, pid, token, team) \<Rightarrow> seed_principal cr w pid pid token team) e = (Inr (), e') \<and> ?I ys e'"
    if I: "?I (x # ys) e" for x ys e
  proof -
    obtain w pid token team where x: "x = (w, pid, token, team)" by (cases x)
    have "ready (drawn_id w # map (drawn_id \<circ> fst) ys @ ids) (Suc (length ys + n)) e"
      using I by (simp add: x)
    from seed_runs [OF h this, of pid token team] I show ?thesis by (auto simp: x)
  qed
  moreover have "?I (zip (map ws [0..<7]) seed_rows) d"
  proof -
    have "map fst (zip (map ws [0..<7]) seed_rows) = map ws [0..<7]"
      "map snd (zip (map ws [0..<7]) seed_rows) = seed_rows"
      "length (zip (map ws [0..<7]) seed_rows) = 7"
      by (simp_all add: seed_rows_def upt_rec)
    then show ?thesis using r by (simp add: seeds_onto_def map_map [symmetric] del: map_map)
  qed
  ultimately show ?thesis
    using for_each_runs [where I = ?I and xs = "zip (map ws [0..<7]) seed_rows" and s = d
        and body = "\<lambda>(w, pid, token, team). seed_principal cr w pid pid token team"]
    unfolding seed_all_def by simp
qed

subsection \<open>The backfill\<close>

lemma backfill_one_runs:
  assumes h: "hashes cr" and r: "ready (drawn_id w # ids) (Suc n) d"
    and p: "pid \<in> p_id ` set (principals d)" "pid \<notin> k_principal_id ` set (principal_tokens d)"
  shows "\<exists>d' r. backfill_one cr (w, pid, pt) d = (Inr (), d') \<and> ready ids n d' \<and> k_principal_id r = pid
    \<and> d' = d\<lparr>principal_tokens := principal_tokens d @ [r], tokens_seq := tokens_seq d + 1\<rparr>"
proof -
  obtain hs where "token_hash cr (d_salt w) pt = Inr hs"
    using h unfolding hashes_def token_hash_Inr by blast
  moreover have "\<forall>t \<in> set (principal_tokens d). k_principal_id t = pid \<longrightarrow> k_label t \<noteq> Some MIGRATED_LEGACY_LABEL"
    using p(2) by force
  ultimately show ?thesis using insert_token_runs [OF r p(1), of "Some MIGRATED_LEGACY_LABEL" hs "d_now w" "''insert migrated-legacy principal_tokens row''"]
    by (simp add: backfill_one_def token_generate_def act_simps with_context_def drawn_id_def Let_def)
qed

lemma backfill_runs:
  assumes h: "hashes cr" and k: "keyed p_id (principals d)"
    and r: "ready (map drawn_id (map ws [0..<length (needs_backfill d)]) @ ids) (length (needs_backfill d) + n) d"
  shows "\<exists>d'. backfill_principal_tokens cr ws d = (Inr (), d') \<and> principals d' = principals d \<and> ready ids n d'"
proof -
  let ?ns = "needs_backfill d" and ?xs = "zip (map ws [0..<length (needs_backfill d)]) (needs_backfill d)"
  let ?I = "\<lambda>ys e. ready (map (drawn_id \<circ> fst) ys @ ids) (length ys + n) e \<and> principals e = principals d
    \<and> distinct (map (fst \<circ> snd) ys) \<and> set (map (fst \<circ> snd) ys) \<subseteq> p_id ` set (principals d)
    \<and> set (map (fst \<circ> snd) ys) \<inter> k_principal_id ` set (principal_tokens e) = {}"
  have "\<exists>e'. backfill_one cr x e = (Inr (), e') \<and> ?I ys e'" if I: "?I (x # ys) e" for x ys e
  proof -
    obtain w pid pt where x: "x = (w, pid, pt)" by (cases x)
    with I have "pid \<in> p_id ` set (principals e)" "pid \<notin> k_principal_id ` set (principal_tokens e)"
        "ready (drawn_id w # map (drawn_id \<circ> fst) ys @ ids) (Suc (length ys + n)) e"
      by auto
    from backfill_one_runs [OF h this(3,1,2), of pt] I show ?thesis by (auto simp: x)
  qed
  moreover have "?I ?xs d"
  proof -
    have fs: "map fst ?xs = map ws [0..<length ?ns]" "map snd ?xs = ?ns" by simp_all
    have "distinct (map fst ?ns)"
      using k by (simp add: needs_backfill_def o_def keyed_def distinct_map inj_on_def)
    moreover have "set (map fst ?ns) \<subseteq> p_id ` set (principals d)"
        "set (map fst ?ns) \<inter> k_principal_id ` set (principal_tokens d) = {}"
      by (auto simp: needs_backfill_def)
    ultimately show ?thesis using r fs by (simp add: map_map [symmetric] del: map_map)
  qed
  ultimately show ?thesis
    using for_each_runs [where I = ?I and xs = ?xs and s = d and body = "backfill_one cr"]
    by (auto simp: backfill_principal_tokens_def act_simps)
qed

subsection \<open>The whole initialisation\<close>

text \<open>
  A database on which a start cannot fail: one of this program, or a legacy file. After it,
  \<open>n\<close> more token rows with the ids \<open>ids\<close> can be inserted.
\<close>

definition startable_then :: "string list \<Rightarrow> nat \<Rightarrow> (nat \<Rightarrow> draw) \<Rightarrow> db \<Rightarrow> bool" where
  "startable_then ids n ws d \<longleftrightarrow> principals_wf d \<and> no_label_clash (principal_tokens d)
     \<and> ready (map (\<lambda>i. drawn_id (ws i)) [0..<7 + length (principals d)] @ ids) (7 + length (principals d) + n) d"

definition startable :: "(nat \<Rightarrow> draw) \<Rightarrow> db \<Rightarrow> bool" where
  "startable ws d \<longleftrightarrow> startable_then [] 0 ws d"

lemma create_schema_succeeds:
  assumes "no_label_clash (principal_tokens d)"
  shows "\<exists>e. create_schema d = (Inr (), e)"
proof -
  have "principal_tokens (fold (\<lambda>(n, c). create_table n c) cs d) = principal_tokens d" for cs
    by (induction cs arbitrary: d) (auto simp: create_table_def split: option.split)
  with assms show ?thesis by (simp add: create_schema_run Let_def)
qed

lemma same_data_ready: "same_data d e \<Longrightarrow> ready ids n e = ready ids n d"
proof -
  assume s: "same_data d e"
  have ids: "map p_id xs = map fst (map static xs)" for xs by (simp add: static_def)
  from s have "map static (principals e) = map static (principals d)" by (simp add: same_data_def)
  then have "map p_id (principals e) = map p_id (principals d)" by (simp only: ids)
  then have "p_id ` set (principals e) = p_id ` set (principals d)" by (metis list.set_map)
  with s show ?thesis by (simp add: ready_def same_data_def)
qed

theorem init_total_then:
  assumes h: "hashes cr" and s: "startable_then ids n ws d"
  shows "\<exists>d'. db_init cr ws d = (Inr (), d') \<and> ready ids n d'
    \<and> map static (principals d') = seeds_onto (map static (principals d))"
proof -
  let ?n = "length (principals d)"
  from s obtain e0 where e0: "create_schema d = (Inr (), e0)"
    using create_schema_succeeds by (auto simp: startable_then_def)
  let ?e = "migm (mig ''disconnected_at'' (mig ''connected_at'' (mig ''last_seen_seq'' e0)))"
  have same: "same_data d ?e" using migrated_schema_ok [OF e0] by blast
  have split: "map (\<lambda>i. drawn_id (ws i)) [0..<7 + ?n]
      = map drawn_id (map ws [0..<7]) @ map drawn_id (map (\<lambda>i. ws (7 + i)) [0..<?n])"
  proof -
    have "[0..<7 + ?n] = [0..<7] @ [7..<7 + ?n]" by (rule upt_add_eq_append) simp
    moreover have "[7..<7 + ?n] = map (\<lambda>i. 7 + i) [0..<?n]"
      using map_add_upt [of 7 ?n] by (simp add: add.commute)
    ultimately show ?thesis by (simp only: map_append map_map o_def)
  qed
  have "ready (map drawn_id (map ws [0..<7]) @ map drawn_id (map (\<lambda>i. ws (7 + i)) [0..<?n]) @ ids) (7 + (?n + n)) ?e"
    using s unfolding startable_then_def split same_data_ready [OF same] by (simp add: add.assoc)
  from seeds_run [OF h this] obtain f where f: "seed_all cr ws ?e = (Inr (), f)"
      "ready (map drawn_id (map (\<lambda>i. ws (7 + i)) [0..<?n]) @ ids) (?n + n) f"
      "map static (principals f) = seeds_onto (map static (principals ?e))" by blast
  from seed_all_Inr [OF f(1)] obtain ps ts i where ps: "f = ?e\<lparr>principals := principals ?e @ ps,
      principal_tokens := principal_tokens ?e @ ts, tokens_seq := i\<rparr>" "list_all2 seeded ps ts" by blast
  have "\<forall>p \<in> set ps. p_id p \<in> k_principal_id ` set ts"
    using ps(2) by (induction rule: list_all2_induct) (auto simp: seeded_def)
  then have "needs_backfill f = map (\<lambda>p. (p_id p, p_token p))
      (filter (\<lambda>p. p_id p \<notin> k_principal_id ` set (principal_tokens f)) (principals ?e))"
    by (auto simp: needs_backfill_def ps(1) filter_empty_conv)
  then have "length (needs_backfill f) \<le> length (principals ?e)" by simp
  also have "\<dots> = ?n"
  proof -
    have "map static (principals ?e) = map static (principals d)" using same by (simp add: same_data_def)
    from arg_cong [OF this, of length] show ?thesis by simp
  qed
  finally have few: "length (needs_backfill f) \<le> ?n" .
  have "principals_wf e0" using keepsD_eq [OF keeps_create_schema _ e0] s by (simp add: startable_then_def)
  then have "principals_wf ?e" using keepsD [OF keeps_migrations(1)] keepsD [OF keeps_migrations(2)] by (simp add: migrate_eqs)
  moreover have "keeps principals_wf (seed_all cr ws)"
    unfolding seed_all_def split_def by (intro keeps_rules keeps_seed_principal)
  ultimately have "principals_wf f" using f(1) by (blast intro: keepsD_eq)
  then have keyed: "keyed p_id (principals f)" by (simp add: principals_wf_def)
  have "map drawn_id (map (\<lambda>i. ws (7 + i)) [0..<?n])
      = map drawn_id (map (\<lambda>i. ws (7 + i)) [0..<length (needs_backfill f)])
        @ map drawn_id (map (\<lambda>i. ws (7 + i)) [length (needs_backfill f)..<?n])"
    using upt_add_eq_append [of 0 "length (needs_backfill f)" "?n - length (needs_backfill f)"] few
    by (simp only: map_append [symmetric]) simp
  with f(2) have "ready (map drawn_id (map (\<lambda>i. ws (7 + i)) [0..<length (needs_backfill f)]) @ ids)
      (length (needs_backfill f) + n) f"
    using few by (metis ready_skip append_assoc)
  then obtain d' where d': "backfill_principal_tokens cr (\<lambda>i. ws (7 + i)) f = (Inr (), d')" "principals d' = principals f"
      "ready ids n d'"
    using backfill_runs [OF h keyed] by blast
  have "db_init cr ws d = (Inr (), d')"
    by (simp add: db_init_alt and_then_def e0 migrate_eqs f(1) d'(1))
  moreover have "map static (principals ?e) = map static (principals d)" using same by (simp add: same_data_def)
  ultimately show ?thesis using f(3) d'(2,3) by auto
qed

lemmas init_total = init_total_then [where ids = "[]" and n = 0, folded startable_def]

text \<open>What it leaves alone.\<close>

lemma init_keeps_data:
  assumes "db_init cr ws d = (Inr (), d')"
  shows "messages d' = messages d \<and> messages_seq d' = messages_seq d \<and> tasks d' = tasks d
    \<and> map member_key (channel_memberships d') = map member_key (channel_memberships d)
    \<and> prefix (principal_tokens d) (principal_tokens d')"
  using assms
proof (rule db_init_Inr)
  fix e ps ts rows i f
  assume "same_data d e"
    and f: "f = e\<lparr>principals := principals e @ ps, principal_tokens := principal_tokens e @ ts, tokens_seq := i\<rparr>"
    and d': "d' = f\<lparr>principal_tokens := principal_tokens f @ rows, tokens_seq := tokens_seq d'\<rparr>"
  have "messages d' = messages e" "messages_seq d' = messages_seq e" "tasks d' = tasks e"
    "channel_memberships d' = channel_memberships e" "principal_tokens d' = principal_tokens e @ ts @ rows"
    by (subst d', simp add: f)+
  with \<open>same_data d e\<close> show ?thesis by (simp add: same_data_def)
qed

subsection \<open>Starting on an empty file\<close>

lemma startable_empty:
  assumes "distinct (map (\<lambda>i. drawn_id (ws i)) [0..<7] @ ids)" "n < 100"
  shows "startable_then ids n ws empty_db"
  using assms principals_wf_empty
  by (simp add: startable_then_def ready_def empty_db_def i64_max_def del: upt_rec_numeral)

lemma fresh_init_then:
  assumes "hashes cr" and "distinct (map (\<lambda>i. drawn_id (ws i)) [0..<7] @ ids)" "n < 100"
  shows "\<exists>d'. db_init cr ws empty_db = (Inr (), d') \<and> ready ids n d'
    \<and> map static (principals d') = map (\<lambda>(pid, token, team). (pid, pid, token, Some team)) seed_rows"
proof -
  have "seeds_onto (map static (principals empty_db))
      = map (\<lambda>(pid, token, team). (pid, pid, token, Some team)) seed_rows" by code_simp
  with init_total_then [OF assms(1) startable_empty [OF assms(2,3)]] show ?thesis by simp
qed

lemma distinct_drawn:
  assumes "distinct (map (\<lambda>i. d_id_bytes (ws i)) is)"
  shows "distinct (map (\<lambda>i. drawn_id (ws i)) is)"
  using assms by (simp add: distinct_map inj_on_def drawn_id_def hex_encode_inj)

lemma fresh_init:
  assumes "hashes cr" and "distinct (map (\<lambda>i. d_id_bytes (ws i)) [0..<7])"
  shows "\<exists>d'. db_init cr ws empty_db = (Inr (), d')
    \<and> map static (principals d') = map (\<lambda>(pid, token, team). (pid, pid, token, Some team)) seed_rows"
  using fresh_init_then [OF assms(1), of ws "[]" 0] distinct_drawn [OF assms(2)] by auto

end
