(* ===== verification/Parts.thy ===== *)
theory Parts
  imports Demo Client Install
begin

section \<open>Properties of the parts\<close>

text \<open>
  The properties of single components and of the way a line and a token travel: what the
  client reads of what the server posts, what the server parses of what the client writes,
  what a start leaves behind, which tokens are accepted, and the bounds of the numbers that
  come from outside. Each rests on the lemmas of its component.
\<close>

subsection \<open>Lines\<close>

text \<open>C22. What the server posts for a message, and what it replays of it later, the Python client
  reads back as that message: the same sequence number, message id, channel, sender and body,
  marked as a replay exactly when it is one. (The client's reader cuts a nick at a space or at an
  exclamation mark, splits a channel at Python's whitespace, and skips an empty body.)\<close>

theorem client_reads_messages:
  assumes "plain_channel (sm_channel m)" "sm_body m \<noteq> []"
    and "plain_nick (pr_nick p)" "plain_nick (display_name SERVER_NAME (sm_sender_id m) d)"
  shows "(\<exists>g. read_event (message_line p (sm_channel m) (sm_body m) m) = Some (Deliver g)
      \<and> g_seq g = Some (sm_seq m) \<and> g_tags g ''msg-id'' = Some (sm_msg_id m) \<and> g_channel g = sm_channel m
      \<and> g_sender g = pr_nick p \<and> g_content g = sm_body m \<and> \<not> g_is_replay g)
    \<and> (\<exists>g. read_event (replay_line d m) = Some (Deliver g)
      \<and> g_seq g = Some (sm_seq m) \<and> g_tags g ''msg-id'' = Some (sm_msg_id m) \<and> g_channel g = sm_channel m
      \<and> g_sender g = display_name SERVER_NAME (sm_sender_id m) d \<and> g_content g = sm_body m \<and> g_is_replay g)"
  using read_message_line [OF assms(3,1,2), of m] read_replay_line [OF assms(4,1,2)] by blast

theorem client_reads_messages_witness:
  "(\<exists>g. read_event (replay_line demo_db demo_message) = Some (Deliver g) \<and> g_seq g = Some 1
      \<and> g_sender g = ''b'' \<and> g_content g = ''old'' \<and> g_is_replay g)
    \<and> (\<exists>g. read_event (message_line (demo_pr ''b'') ''#w'' ''old'' demo_message) = Some (Deliver g) \<and> g_seq g = Some 1)"
proof -
  have "display_name SERVER_NAME ''b'' demo_db = ''b''"
    by (simp add: display_name_def SERVER_NAME_def row_of_def query_row_def demo_defs)
  moreover have "sm_channel demo_message = ''#w''" "sm_body demo_message = ''old''" "sm_seq demo_message = 1"
      "sm_sender_id demo_message = ''b''"
    by (simp_all add: demo_message_def)
  moreover have "plain_channel ''#w''" "plain_nick ''b''"
    by (simp_all add: plain_channel_def plain_nick_def py_word_def py_whitespace_def is_whitespace_def)
  ultimately show ?thesis
    using client_reads_messages [of demo_message "demo_pr ''b''" demo_db] by auto
qed

text \<open>C23. A task event reaches the client with its fields intact: whatever characters the task's
  title and the actor's nick contain, the tags the client reads are the task's id, action, status,
  actor and title, so no title can forge another tag or end the tag section.\<close>

theorem client_reads_task_events:
  assumes "plain_channel (t_channel t)" "body \<noteq> []"
  shows "\<exists>g. read_event (task_event_line t action status actor body m) = Some (Deliver g)
    \<and> g_seq g = Some (sm_seq m) \<and> g_channel g = t_channel t \<and> g_sender g = ''aircd'' \<and> g_content g = body
    \<and> g_tags g ''task-id'' = Some (t_id t) \<and> g_tags g ''task-action'' = Some action
    \<and> g_tags g ''task-status'' = Some status \<and> g_tags g ''task-actor'' = Some actor
    \<and> g_tags g ''task-title'' = (if t_title t = [] then None else Some (t_title t)) \<and> \<not> g_is_replay g"
  by (rule read_task_event_line [OF assms])

definition sly_task :: task where
  "sly_task = \<lparr>t_id = ''task_1'', t_channel = ''#w'', t_title = ''x;task-status=done @seq=9'',
     t_status = ''open'', t_claimed_by = None, t_lease_expires_at = None\<rparr>"

theorem client_reads_task_events_witness:
  "\<exists>g. read_event (task_event_line sly_task ''claim'' ''success'' ''a'' ''hi'' demo_message) = Some (Deliver g)
    \<and> g_tags g ''task-status'' = Some ''success''
    \<and> g_tags g ''task-title'' = Some ''x;task-status=done @seq=9''"
proof -
  have "plain_channel (t_channel sly_task)"
    by (simp add: sly_task_def plain_channel_def py_word_def py_whitespace_def is_whitespace_def)
  from client_reads_task_events [OF this, of "''hi''" "''claim''" "''success''" "''a''" demo_message]
  show ?thesis by (auto simp: sly_task_def)
qed



text \<open>C25. The numbers of a history command are in the range of i64 whatever the line says, and the
  page it is answered with holds at most 500 messages, all of the channel and after the position
  asked for, in the order of the log, without a gap: reading on from the last of them gives exactly
  the messages that follow.\<close>

theorem history_pages:
  fixes c :: string and k :: int
  assumes log: "log_wf d" and cmd: "parse_command l = History ch a n"
  defines "all \<equiv> filter (\<lambda>m. a < sm_seq m) (channel_messages c d)"
  shows "is_i64 a \<and> is_i64 n \<and> length (history_after c a n d) \<le> 500
    \<and> history_after c a n d = take (nat (clamp_limit n)) all
    \<and> (history_after c a n d \<noteq> [] \<longrightarrow> history_after c (sm_seq (last (history_after c a n d))) k d
         = take (nat (clamp_limit k)) (drop (length (history_after c a n d)) all))"
  using parse_history_i64 [OF cmd] history_after_length [of c a n d] history_after_take [OF log, of c a n]
    hlog.page_next [OF log, of c a "nat (clamp_limit n)" "nat (clamp_limit k)"]
  by (simp add: history_after_page all_def)

lemma demo_history: "parse_command ''CHATHISTORY AFTER #w 0 -7'' = History (Some ''#w'') 0 (-7)"
  by code_simp

theorem history_pages_witness:
  "is_i64 (-7) \<and> length (history_after ''#w'' 0 (-7) demo_db) = 1
    \<and> history_after ''#w'' (sm_seq (last (history_after ''#w'' 0 (-7) demo_db))) 5 demo_db = []"
proof -
  have all: "filter (\<lambda>m. 0 < sm_seq m) (channel_messages ''#w'' demo_db) = [demo_message]"
    by (simp add: channel_messages_def demo_defs)
  moreover have "log_wf demo_db" using demo_db_wf by (simp add: db_wf_def)
  ultimately have p: "is_i64 (-7)" "history_after ''#w'' 0 (-7) demo_db = [demo_message]"
    using history_pages [OF _ demo_history, of demo_db "''#w''" 5] by (simp_all add: clamp_limit_def)
  moreover have "history_after ''#w'' (sm_seq demo_message) 5 demo_db = []"
    using history_pages [OF \<open>log_wf demo_db\<close> demo_history, of "''#w''" 5] all by (simp add: p(2))
  ultimately show ?thesis by simp
qed

subsection \<open>Start\<close>

text \<open>C26. A successful start puts the server on the initialised database: the invariant that the
  database had is kept, the schema, the seeds and a token row for every principal are there, the
  lease is a positive i64, and every run from there stays within the system invariant.\<close>

theorem start_is_sound:
  assumes run: "main_start lib open_file cr ws env d = (Inr (sv, ls), d')" and wf: "db_wf d"
  shows "sv_db sv = d' \<and> db_wf d' \<and> init_done d'
    \<and> 0 < sv_lease_seconds sv \<and> is_i64 (sv_lease_seconds sv)
    \<and> (\<forall>cr' es sy'. run (sys_step cr') \<lparr>sy_server = sv, sy_conns = (\<lambda>_. Idle)\<rparr> es sy' \<longrightarrow> sys_ok sy')"
proof -
  obtain path where init: "store_open open_file cr ws path d = (Inr (), d')"
      and sv: "sv = server_new (env ''AIRCD_TASK_LEASE_SECONDS'') d'"
    using main_start_Inr [OF run] by blast
  have i: "db_init cr ws d = (Inr (), d')" using init by (rule store_open_Inr)
  have wf': "db_wf d'" using keepsD_eq [OF keeps_db_wf_init wf i] .
  then have "starts \<lparr>sy_server = sv, sy_conns = (\<lambda>_. Idle)\<rparr>"
    by (auto simp: starts_def sys_start_def sv)
  then have "sys_ok sy'" if "run (sys_step cr') \<lparr>sy_server = sv, sy_conns = (\<lambda>_. Idle)\<rparr> es sy'" for cr' es sy'
    using sys.reach_inv that by blast
  with wf' db_init_establishes [OF i] lease_from_env_ok show ?thesis
    by (simp add: sv server_new_def)
qed

text \<open>TLS is all or nothing, and never instead of the plaintext listener: a start that succeeds
  listens on the plaintext address, and on the TLS address as well exactly when both the
  certificate and the key are configured and load; with one of them alone it fails.\<close>

theorem tls_all_or_nothing:
  assumes run: "main_start lib open_file cr ws env d = (Inr (sv, ls), d')"
  shows "(env ''AIRCD_TLS_CERT'' = None \<and> env ''AIRCD_TLS_KEY'' = None
       \<and> ls = [Listen (env_or env ''AIRCD_BIND'' ''127.0.0.1:6667'')])
    \<or> (\<exists>cert key cfg. env ''AIRCD_TLS_CERT'' = Some cert \<and> env ''AIRCD_TLS_KEY'' = Some key
       \<and> fst (load_tls_config lib cert key d') = Inr cfg
       \<and> ls = [Listen (env_or env ''AIRCD_BIND'' ''127.0.0.1:6667''),
               ListenTls (env_or env ''AIRCD_TLS_BIND'' ''127.0.0.1:6697'') cfg])"
  using main_start_Inr [OF run] by auto

definition demo_draws :: "nat \<Rightarrow> draw" where
  "demo_draws i = \<lparr>d_id_bytes = [of_nat i], d_secret_bytes = [], d_salt = [], d_now = 0\<rparr>"

definition demo_lib :: "(unit, unit, unit, unit) tls_lib" where
  "demo_lib = \<lparr>fs_read = (\<lambda>_. Inr ()), pem_certs = (\<lambda>_. Inr [()]), pem_private_key = (\<lambda>_. Inr (Some ())),
     server_config = (\<lambda>_ _. Inr ())\<rparr>"

lemma demo_draws_distinct: "distinct (map (\<lambda>i. d_id_bytes (demo_draws i)) [0..<7])"
  by (simp add: demo_draws_def upt_rec)

lemma demo_hashes: "hashes demo_crypto"
  by (simp add: hashes_def demo_crypto_def)

definition demo_env :: "string \<rightharpoonup> string" where
  "demo_env = [''AIRCD_TLS_CERT'' \<mapsto> ''c.pem'', ''AIRCD_TLS_KEY'' \<mapsto> ''k.pem'']"

lemma demo_start: "\<exists>d'. main_start demo_lib (\<lambda>_. Inr ()) demo_crypto demo_draws demo_env empty_db
    = (Inr (server_new None d', [Listen ''127.0.0.1:6667'', ListenTls ''127.0.0.1:6697'' ()]), d')"
proof -
  obtain d' where "db_init demo_crypto demo_draws empty_db = (Inr (), d')"
    using fresh_init [OF demo_hashes demo_draws_distinct] by blast
  then show ?thesis
    by (simp add: main_start_def store_open_def or_context_def act_simps demo_env_def env_or_def
        load_tls_config_def demo_lib_def and_then_def)
qed

theorem start_is_sound_witness:
  "\<exists>d'. snd (main_start demo_lib (\<lambda>_. Inr ()) demo_crypto demo_draws demo_env empty_db) = d'
    \<and> db_wf d' \<and> init_done d'"
  using demo_start start_is_sound [OF _ db_wf_empty] by (metis snd_conv)

theorem tls_all_or_nothing_witness:
  "\<exists>sv d' cfg. main_start demo_lib (\<lambda>_. Inr ()) demo_crypto demo_draws demo_env empty_db
      = (Inr (sv, [Listen ''127.0.0.1:6667'', ListenTls ''127.0.0.1:6697'' cfg]), d')
    \<and> fst (load_tls_config demo_lib ''c.pem'' ''k.pem'' d') = Inr cfg"
proof -
  obtain d' where d': "main_start demo_lib (\<lambda>_. Inr ()) demo_crypto demo_draws demo_env empty_db
    = (Inr (server_new None d', [Listen ''127.0.0.1:6667'', ListenTls ''127.0.0.1:6697'' ()]), d')"
    using demo_start by blast
  from tls_all_or_nothing [OF d'] d' show ?thesis by (auto simp: demo_env_def)
qed

text \<open>C28. The initialisation succeeds on every sound database, an empty file and a legacy one
  included, whatever the salts are, as long as argon2 hashes, the token ids drawn are new and row
  ids are left. The principals are then the old ones followed by the seeds whose id and token were
  free, messages and tasks are untouched, token rows were only added, the invariant holds, and every
  principal with a plaintext token is accepted with it, counted as a legacy hit.\<close>

theorem init_succeeds:
  assumes h: "hashes cr" and s: "startable ws d" and wf: "db_wf d"
  shows "\<exists>d'. db_init cr ws d = (Inr (), d') \<and> db_wf d' \<and> init_done d'
    \<and> map static (principals d') = seeds_onto (map static (principals d))
    \<and> messages d' = messages d \<and> tasks d' = tasks d \<and> prefix (principal_tokens d) (principal_tokens d')
    \<and> (\<forall>(pid, nick, token, team) \<in> set (seeds_onto (map static (principals d))). \<forall>hits.
         token_parse token = None \<longrightarrow> hits \<noteq> - 1 \<longrightarrow>
         authenticate cr token d' hits = (Inr \<lparr>pr_id = pid, pr_nick = nick, pr_team = team\<rparr>, hits + 1))"
proof -
  obtain d' where i: "db_init cr ws d = (Inr (), d')"
      and st: "map static (principals d') = seeds_onto (map static (principals d))"
    using init_total [OF h s] by blast
  have wf': "db_wf d'" using keepsD_eq [OF keeps_db_wf_init wf i] .
  have "authenticate cr token d' hits = (Inr \<lparr>pr_id = pid, pr_nick = nick, pr_team = team\<rparr>, hits + 1)"
    if "(pid, nick, token, team) \<in> set (map static (principals d'))" "token_parse token = None" "hits \<noteq> - 1"
    for pid nick token team hits
    by (rule authenticate_plain [OF _ _ that(2,3)]) (use that(1) wf' in \<open>simp_all add: db_wf_def\<close>)
  then show ?thesis using i st wf' db_init_establishes [OF i] init_keeps_data [OF i] by auto
qed

text \<open>A file written before there were token rows, with a token that was changed.\<close>

definition rotated_db :: db where
  "rotated_db = empty_db\<lparr>
     schema := [''principals'' \<mapsto> [''id'', ''nick'', ''token'', ''team'', ''last_seen_seq'', ''connected_at'',
       ''disconnected_at'', ''created_at'']],
     principals := [\<lparr>p_id = ''human'', p_nick = ''human'', p_token = ''rotated-secret'', p_team = Some ''demo'',
       p_last_seen_seq = 0, p_connected_at = None, p_disconnected_at = None, p_created_at = 1\<rparr>]\<rparr>"

lemma rotated_wf: "db_wf rotated_db"
  by (simp add: db_wf_def log_wf_def members_wf_def tasks_wf_def cursors_wf_def principals_wf_def keyed_def
      rotated_db_def empty_db_def i64_max_def)

lemma demo_draws_ids: "distinct (map (\<lambda>i. drawn_id (demo_draws i)) [0..<8])"
  by (simp add: drawn_id_def hex_encode_inj demo_draws_def upt_rec)

theorem init_succeeds_witness:
  "\<exists>d'. db_init demo_crypto demo_draws rotated_db = (Inr (), d') \<and> length (principals d') = 7
    \<and> authenticate demo_crypto ''rotated-secret'' d' 0
      = (Inr \<lparr>pr_id = ''human'', pr_nick = ''human'', pr_team = Some ''demo''\<rparr>, 1)"
proof -
  have s: "startable demo_draws rotated_db"
    using rotated_wf demo_draws_ids
    by (simp add: startable_def startable_then_def ready_def db_wf_def rotated_db_def empty_db_def i64_max_def)
  have sts: "seeds_onto (map static (principals rotated_db)) = (''human'', ''human'', ''rotated-secret'', Some ''demo'')
      # map (\<lambda>(pid, token, team). (pid, pid, token, Some team)) (tl seed_rows)" (is "_ = ?sts")
    by code_simp
  from init_succeeds [OF demo_hashes s rotated_wf, unfolded sts] obtain d' where
    d': "db_init demo_crypto demo_draws rotated_db = (Inr (), d')" "map static (principals d') = ?sts"
      "\<forall>(pid, nick, token, team) \<in> set ?sts. \<forall>hits. token_parse token = None \<longrightarrow> hits \<noteq> - 1 \<longrightarrow>
         authenticate demo_crypto token d' hits = (Inr \<lparr>pr_id = pid, pr_nick = nick, pr_team = team\<rparr>, hits + 1)"
    by (elim exE conjE) (rule that)
  have "token_parse ''rotated-secret'' = None" by code_simp
  then have "authenticate demo_crypto ''rotated-secret'' d' 0
      = (Inr \<lparr>pr_id = ''human'', pr_nick = ''human'', pr_team = Some ''demo''\<rparr>, 0 + 1)"
    using d'(3) by simp
  moreover have "length (principals d') = 7"
    using arg_cong [OF d'(2), of length] by (simp add: seed_rows_def)
  ultimately show ?thesis using d'(1) by simp
qed

text \<open>On an empty file the seven demo principals are there, with their tokens.\<close>

theorem fresh_install:
  assumes h: "hashes cr" and ws: "distinct (map (\<lambda>i. d_id_bytes (ws i)) [0..<7])"
  shows "\<exists>d'. db_init cr ws empty_db = (Inr (), d') \<and> db_wf d' \<and> init_done d'
    \<and> map static (principals d') = map (\<lambda>(pid, token, team). (pid, pid, token, Some team)) seed_rows
    \<and> (\<forall>(pid, token, team) \<in> set seed_rows. \<forall>hits. hits \<noteq> - 1 \<longrightarrow>
         authenticate cr token d' hits = (Inr \<lparr>pr_id = pid, pr_nick = pid, pr_team = Some team\<rparr>, hits + 1))"
proof -
  obtain d' where i: "db_init cr ws empty_db = (Inr (), d')"
      and st: "map static (principals d') = map (\<lambda>(pid, token, team). (pid, pid, token, Some team)) seed_rows"
    using fresh_init [OF h ws] by blast
  have wf: "db_wf d'" using keepsD_eq [OF keeps_db_wf_init db_wf_empty i] .
  have "authenticate cr token d' hits = (Inr \<lparr>pr_id = pid, pr_nick = pid, pr_team = Some team\<rparr>, hits + 1)"
    if "(pid, token, team) \<in> set seed_rows" "hits \<noteq> - 1" for pid token team hits
  proof (rule authenticate_plain)
    have "(\<lambda>(pid, token, team). (pid, pid, token, Some team)) (pid, token, team)
        \<in> set (map (\<lambda>(pid, token, team). (pid, pid, token, Some team)) seed_rows)"
      unfolding set_map using that(1) by (rule imageI)
    then show "(pid, pid, token, Some team) \<in> static ` set (principals d')" unfolding st [symmetric] by simp
    show "token_parse token = None"
      using that(1) by (auto simp: seed_rows_def intro!: token_parse_needs_prefix) (simp_all add: TOKEN_PREFIX_def)
  qed (use that wf in \<open>simp_all add: db_wf_def\<close>)
  with i wf st db_init_establishes [OF i] show ?thesis by blast
qed

text \<open>C29. A second start changes nothing, whatever it draws: an initialised database is a fixed point
  of the initialisation.\<close>

theorem restart_is_idempotent:
  assumes "db_init cr ws d = (Inr (), d')"
  shows "db_init cr' ws' d' = (Inr (), d')"
  by (rule db_init_done [OF db_init_establishes [OF assms]])

theorem restart_is_idempotent_witness:
  "\<exists>d'. db_init demo_crypto demo_draws empty_db = (Inr (), d') \<and> db_init demo_crypto (\<lambda>i. demo_draws 0) d' = (Inr (), d')"
proof -
  obtain d' where d': "db_init demo_crypto demo_draws empty_db = (Inr (), d')"
    using fresh_init [OF demo_hashes demo_draws_distinct] by blast
  from restart_is_idempotent [OF d'] d' show ?thesis by blast
qed

text \<open>A principal that has no token row yet gets one at start-up, and every row it then has
  accepts its current plaintext token, also when the principal is one of the demo principals whose
  token was rotated away from the default in the code.\<close>

theorem rotated_token_backfilled:
  assumes "db_init cr ws d = (Inr (), d')" "crypto_ok cr" "db_wf d"
    and "p \<in> set (principals d)" "p_id p \<notin> k_principal_id ` set (principal_tokens d)"
  shows "(\<exists>r \<in> set (principal_tokens d'). k_principal_id r = p_id p)
    \<and> (\<forall>r \<in> set (principal_tokens d'). k_principal_id r = p_id p \<longrightarrow>
         k_label r = Some MIGRATED_LEGACY_LABEL \<and> token_verify cr (p_token p) (k_token_hash r) = Inr True)"
  using db_init_backfills [OF assms(1,4,5)] assms(3) token_hash_verify [OF assms(2)]
  by (auto simp: db_wf_def principals_wf_def)

lemma rotated_init: "fst (db_init demo_crypto demo_draws rotated_db) = Inr ()"
  by code_simp

theorem rotated_token_backfilled_witness:
  "\<exists>d' r. db_init demo_crypto demo_draws rotated_db = (Inr (), d') \<and> r \<in> set (principal_tokens d')
    \<and> k_principal_id r = ''human'' \<and> token_verify demo_crypto ''rotated-secret'' (k_token_hash r) = Inr True"
proof -
  obtain d' where d': "db_init demo_crypto demo_draws rotated_db = (Inr (), d')"
    using rotated_init by (metis prod.collapse)
  have "crypto_ok demo_crypto" using demo_crypto_ok by simp
  from rotated_token_backfilled [OF d' this rotated_wf, of "hd (principals rotated_db)"] d'
  show ?thesis by (simp add: rotated_db_def empty_db_def) blast
qed

subsection \<open>Tokens\<close>

text \<open>C31. A generated token is accepted for the principal of its row, without a legacy hit, as long
  as the row is not revoked; with any other secret behind the same id it is refused, unless the
  text happens to be somebody's plaintext token.\<close>

theorem issued_token_exact:
  assumes wf: "principals_wf d" and ok: "crypto_ok cr" "crypto_sound cr"
    and len: "length ib = TOKEN_ID_BYTES" "length sb = SECRET_BYTES"
    and gen: "token_generate ib sb = (full, token_id, secret)"
    and row: "token_hash cr salt secret = Inr (k_token_hash t)" "t \<in> set (principal_tokens d)"
      "k_token_id t = token_id" "k_revoked_at t = None"
  shows "(\<exists>p \<in> set (principals d). p_id p = k_principal_id t
      \<and> authenticate cr full d hits = (Inr (principal_of_row p), hits))
    \<and> (\<forall>s'. s' \<noteq> secret \<longrightarrow> s' \<noteq> [] \<longrightarrow> TOKEN_PREFIX @ token_id @ ''_'' @ s' \<notin> p_token ` set (principals d) \<longrightarrow>
         authenticate cr (TOKEN_PREFIX @ token_id @ ''_'' @ s') d hits = (Inl (Anyhow ''invalid token''), hits))"
proof -
  have parse: "token_parse full = Some (token_id, secret)" using token_parse_generate [OF len gen] by simp
  have "authenticate cr (TOKEN_PREFIX @ token_id @ ''_'' @ s') d hits = (Inl (Anyhow ''invalid token''), hits)"
    if s': "s' \<noteq> secret" "s' \<noteq> []" "TOKEN_PREFIX @ token_id @ ''_'' @ s' \<notin> p_token ` set (principals d)" for s'
  proof (rule authenticate_wrong_secret [OF wf row(2,4)])
    show "token_parse (TOKEN_PREFIX @ token_id @ ''_'' @ s') = Some (k_token_id t, s')"
      using parse s'(2) row(3) by (simp add: token_parse_Some)
    show "token_verify cr s' (k_token_hash t) = Inr False"
      by (rule token_hash_verify_wrong [OF ok row(1) s'(1)])
  qed (rule s'(3))
  with authenticate_issued [OF wf ok(1) len gen row(1,2,3) refl row(4)] show ?thesis by blast
qed

text \<open>A revoked token is refused: no row with its id is consulted any more, so only an equal
  plaintext token could still let its text in.\<close>

theorem revoked_token_refused:
  assumes "principals_wf d" "t \<in> set (principal_tokens d)" "k_revoked_at t \<noteq> None"
    and "token_parse token = Some (k_token_id t, secret)" "token \<notin> p_token ` set (principals d)"
  shows "authenticate cr token d hits = (Inl (Anyhow ''invalid token''), hits)"
  by (rule authenticate_revoked [OF assms])

definition issued_db :: "int option \<Rightarrow> db" where
  "issued_db revoked = demo_db\<lparr>principal_tokens := [\<lparr>k_id = 1, k_principal_id = ''a'',
     k_token_id = hex_encode (replicate 16 7), k_token_hash = hex_encode (replicate 32 9), k_label = None,
     k_created_at = 1, k_revoked_at = revoked\<rparr>], tokens_seq := 1\<rparr>"

lemma issued_wf: "principals_wf (issued_db r)"
  by (simp add: principals_wf_def issued_db_def keyed_def demo_defs)

lemma issued_plain: "token \<in> p_token ` set (principals (issued_db r)) \<longleftrightarrow> token \<in> {''a-token'', ''b-token'', ''c-token''}"
  by (auto simp: issued_db_def demo_defs)

theorem issued_token_exact_witness:
  "\<exists>full. fst (token_generate (replicate 16 7) (replicate 32 9)) = full
    \<and> (\<exists>p. p_id p = ''a'' \<and> authenticate demo_crypto full (issued_db None) 5 = (Inr (principal_of_row p), 5))"
proof -
  obtain full i s where g: "token_generate (replicate 16 7) (replicate 32 9) = (full, i, s)"
    by (cases "token_generate (replicate 16 7 :: u8 list) (replicate 32 9)")
  let ?t = "hd (principal_tokens (issued_db None))"
  have t: "?t \<in> set (principal_tokens (issued_db None))" "k_token_id ?t = i" "k_revoked_at ?t = None"
      "k_principal_id ?t = ''a''" "token_hash demo_crypto [] s = Inr (k_token_hash ?t)"
    using g by (auto simp: issued_db_def token_generate_def Let_def token_hash_def demo_crypto_def)
  have c: "crypto_ok demo_crypto" "crypto_sound demo_crypto" using demo_crypto_ok by simp_all
  from issued_token_exact [OF issued_wf c _ _ g t(5,1,2,3), of 5] t(4) g show ?thesis
    by (auto simp: TOKEN_ID_BYTES_def SECRET_BYTES_def)
qed

theorem revoked_token_refused_witness:
  "authenticate demo_crypto (fst (token_generate (replicate 16 7) (replicate 32 9))) (issued_db (Some 3)) 5
    = (Inl (Anyhow ''invalid token''), 5)"
proof -
  obtain full i s where g: "token_generate (replicate 16 7) (replicate 32 9) = (full, i, s)"
    by (cases "token_generate (replicate 16 7 :: u8 list) (replicate 32 9)")
  let ?t = "hd (principal_tokens (issued_db (Some 3)))"
  have t: "?t \<in> set (principal_tokens (issued_db (Some 3)))" "k_token_id ?t = i" "k_revoked_at ?t \<noteq> None"
    using g by (auto simp: issued_db_def token_generate_def Let_def)
  have p: "token_parse full = Some (i, s)"
    using token_parse_generate [OF _ _ g] by (simp add: TOKEN_ID_BYTES_def SECRET_BYTES_def)
  then have "full \<notin> p_token ` set (principals (issued_db (Some 3)))"
    by (auto simp: issued_plain token_parse_Some TOKEN_PREFIX_def)
  from revoked_token_refused [OF issued_wf t(1,3) _ this, of s] p t(2) g show ?thesis by simp
qed

subsection \<open>Overflow\<close>



end
