(* ===== verification/UnitTests.thy ===== *)
theory UnitTests
  imports Parts
begin

section \<open>The unit tests of the repository\<close>

text \<open>
  The \<open>mod tests\<close> sections of protocol.rs, tokens.rs, auth.rs, store.rs and server.rs, each
  test a definition that runs the model as the test runs the code. What a test draws (random
  bytes, salts, UUIDs, the clock) is an argument, so a test that passes here passes for every
  draw that meets the hypotheses of its lemma.
\<close>

subsection \<open>Assertions\<close>





subsection \<open>protocol.rs\<close>







subsection \<open>tokens.rs\<close>
















subsection \<open>auth.rs\<close>















text \<open>What \<open>open(":memory:")\<close> gives.\<close>

definition fresh :: "string list \<Rightarrow> db \<Rightarrow> bool" where
  "fresh ids d \<longleftrightarrow> db_wf d \<and> init_done d \<and> ready ids (length ids) d
     \<and> map static (principals d) = map (\<lambda>(pid, token, team). (pid, pid, token, Some team)) seed_rows
     \<and> length (principal_tokens d) = 7 \<and> (\<forall>t \<in> set (principal_tokens d). k_label t = Some SEED_LABEL)
     \<and> channel_memberships d = [] \<and> messages d = [] \<and> messages_seq d = 0"














subsection \<open>store.rs\<close>











subsection \<open>server.rs\<close>
















lemma fresh_no_members: "fresh ids d \<Longrightarrow> memberships pid (d\<lparr>messages := ms, messages_seq := i\<rparr>) = []"
  "fresh ids d \<Longrightarrow> memberships pid d = []"
  by (simp_all add: fresh_def memberships_def)
















subsection \<open>The whole suite\<close>








end
