(* ===== verification/Regions.thy ===== *)
theory Regions
  imports Prelude
begin

section \<open>Programs cut into atomic regions\<close>

text \<open>
  A handler of the server locks the database or the tables in memory, releases the lock, sends
  a line, locks again: between two such regions other connections run. A \<open>prog\<close> is what is
  left of such a handler: it is done, or its next region runs on the shared state and says how
  it goes on. \<open>exec\<close> runs a program without interruption; the equations show that it maps the
  combinators of programs to those of \<open>act\<close>. The interface \<open>rely\<close> carries the reasoning about
  interleavings: an invariant and a preorder on states that every region respects
  (\<open>safe\<close>).
\<close>

datatype ('s, 'a) prog =
    Finished "err + 'a"
  | Region "'s \<Rightarrow> 's \<times> ('s, 'a) prog"

definition region :: "('s, 'a) act \<Rightarrow> ('s, 'a) prog" where
  "region m = Region (\<lambda>s. case m s of (r, t) \<Rightarrow> (t, Finished r))"

definition pret :: "'a \<Rightarrow> ('s, 'a) prog" where
  "pret x = Finished (Inr x)"

definition praise :: "err \<Rightarrow> ('s, 'a) prog" where
  "praise e = Finished (Inl e)"

definition plift :: "err + 'a \<Rightarrow> ('s, 'a) prog" where
  "plift r = Finished r"

text \<open>\<open>pmatch\<close> looks at how a program ended; \<open>?\<close> and \<open>match\<close> on a \<open>Result\<close> are its
  two uses.\<close>

primrec pmatch :: "('s, 'a) prog \<Rightarrow> (err + 'a \<Rightarrow> ('s, 'b) prog) \<Rightarrow> ('s, 'b) prog" where
  "pmatch (Finished r) k = k r"
| "pmatch (Region f) k = Region (map_prod id (\<lambda>p. pmatch p k) \<circ> f)"

definition pbind :: "('s, 'a) prog \<Rightarrow> ('a \<Rightarrow> ('s, 'b) prog) \<Rightarrow> ('s, 'b) prog" where
  "pbind p k = pmatch p (\<lambda>r. case r of Inl e \<Rightarrow> Finished (Inl e) | Inr x \<Rightarrow> k x)"

definition pcatch :: "('s, 'a) prog \<Rightarrow> (string \<Rightarrow> ('s, 'b) prog) \<Rightarrow> ('a \<Rightarrow> ('s, 'b) prog) \<Rightarrow> ('s, 'b) prog" where
  "pcatch p err k = pmatch p (\<lambda>r.
     case r of Inl (Anyhow e) \<Rightarrow> err e | Inl (Panic e) \<Rightarrow> Finished (Inl (Panic e)) | Inr x \<Rightarrow> k x)"

primrec pfor :: "'a list \<Rightarrow> ('a \<Rightarrow> ('s, unit) prog) \<Rightarrow> ('s, unit) prog" where
  "pfor [] body = pret ()"
| "pfor (x # xs) body = pbind (body x) (\<lambda>_. pfor xs body)"

lemma match_Finished: "pmatch p Finished = p"
proof (induction p)
  case (Region f)
  have "map_prod id (\<lambda>p. pmatch p Finished) (f s) = f s" for s
    using Region [OF rangeI, of "snd (f s)" s] by (cases "f s") (simp add: snds.simps)
  then show ?case by (simp add: fun_eq_iff)
qed simp

lemma match_assoc: "pmatch (pmatch p k) k' = pmatch p (\<lambda>r. pmatch (k r) k')"
proof (induction p)
  case (Region f)
  have "map_prod id (\<lambda>p. pmatch p k') (map_prod id (\<lambda>p. pmatch p k) (f s))
      = map_prod id (\<lambda>p. pmatch p (\<lambda>r. pmatch (k r) k')) (f s)" for s
    using Region [OF rangeI, of "snd (f s)" s] by (cases "f s") (simp add: snds.simps)
  then show ?case by (simp add: fun_eq_iff)
qed simp

lemma bind_assoc: "pbind (pbind p k) k' = pbind p (\<lambda>x. pbind (k x) k')"
  unfolding pbind_def match_assoc by (rule arg_cong [of _ _ "pmatch p"]) (simp add: fun_eq_iff split: sum.split)

lemma bind_simps:
  "pbind (pret x) k = k x" "pbind (plift (Inr y)) k = k y"
  by (simp_all add: pbind_def pret_def plift_def)

subsection \<open>Running without interruption\<close>

primrec exec_prog :: "('s, 'a) prog \<Rightarrow> ('s, 'a) act" where
  "exec_prog (Finished r) = (\<lambda>s. (r, s))"
| "exec_prog (Region f) = (\<lambda>s. case (map_prod id exec_prog \<circ> f) s of (t, g) \<Rightarrow> g t)"

lemma exec_region [simp]: "exec_prog (region m) = m"
  by (rule ext) (simp add: region_def split: prod.split)

lemma exec_basic [simp]:
  "exec_prog (pret x) = ret x"
  "exec_prog (praise e) = raise e"
  "exec_prog (plift r) = lift_res r"
  by (rule ext, simp add: pret_def praise_def plift_def run_act)+

lemma exec_match: "exec_prog (pmatch p k) s = (case exec_prog p s of (r, t) \<Rightarrow> exec_prog (k r) t)"
proof (induction p arbitrary: s)
  case (Finished r)
  show ?case by simp
next
  case (Region f)
  obtain t p where f: "f s = (t, p)" by (cases "f s")
  then have "p \<in> Basic_BNFs.snds (f s)" by (simp add: snds.simps)
  from Region [OF rangeI this] show ?case by (simp add: f)
qed

lemma exec_bind [simp]: "exec_prog (pbind p k) = and_then (exec_prog p) (\<lambda>x. exec_prog (k x))"
  by (rule ext) (simp add: pbind_def exec_match and_then_def split: prod.split sum.split)

lemma exec_for [simp]: "exec_prog (pfor xs body) = for_each xs (\<lambda>x. exec_prog (body x))"
  by (induction xs) simp_all

lemma exec_cases [simp]:
  "exec_prog (if b then p else q) = (if b then exec_prog p else exec_prog q)"
  "exec_prog (case x of None \<Rightarrow> p | Some y \<Rightarrow> k y) = (case x of None \<Rightarrow> exec_prog p | Some y \<Rightarrow> exec_prog (k y))"
  "exec_prog (case z of Inl e \<Rightarrow> g e | Inr w \<Rightarrow> h w) = (case z of Inl e \<Rightarrow> exec_prog (g e) | Inr w \<Rightarrow> exec_prog (h w))"
  by (simp_all split: option.split sum.split)

subsection \<open>Interface: regions that respect an invariant and a preorder\<close>

locale rely =
  fixes inv :: "'s \<Rightarrow> bool" and adv :: "'s \<Rightarrow> 's \<Rightarrow> bool"
  assumes adv_refl: "inv s \<Longrightarrow> adv s s"
    and adv_trans: "inv s \<Longrightarrow> inv t \<Longrightarrow> inv u \<Longrightarrow> adv s t \<Longrightarrow> adv t u \<Longrightarrow> adv s u"
begin

text \<open>
  From \<open>s\<close> on, whatever the others do in between, every region of the program keeps the
  invariant and moves forward, and its result satisfies \<open>Q\<close>.
\<close>

primrec safe :: "('s, 'a) prog \<Rightarrow> ('a \<Rightarrow> 's \<Rightarrow> bool) \<Rightarrow> 's \<Rightarrow> bool" where
  "safe (Finished r) = (\<lambda>Q s. case r of Inl _ \<Rightarrow> True | Inr x \<Rightarrow> (\<forall>t. inv t \<longrightarrow> adv s t \<longrightarrow> Q x t))"
| "safe (Region f) = (\<lambda>Q s. \<forall>t. inv t \<longrightarrow> adv s t \<longrightarrow>
     (case (map_prod id safe \<circ> f) t of (u, g) \<Rightarrow> inv u \<and> adv t u \<and> g Q u))"

lemma safe_Region:
  "safe (Region f) Q s \<longleftrightarrow> (\<forall>t. inv t \<longrightarrow> adv s t \<longrightarrow>
     inv (fst (f t)) \<and> adv t (fst (f t)) \<and> safe (snd (f t)) Q (fst (f t)))"
  by (simp add: split_def)

lemma safe_later: "safe p Q s \<Longrightarrow> inv s \<Longrightarrow> inv t \<Longrightarrow> adv s t \<Longrightarrow> safe p Q t"
  by (cases p) (auto simp: safe_Region split: sum.splits intro: adv_trans simp del: safe.simps(2))

lemma safe_basic [intro]:
  "safe (praise e) Q s"
  "(\<And>t. inv t \<Longrightarrow> adv s t \<Longrightarrow> Q x t) \<Longrightarrow> safe (pret x) Q s"
  by (simp_all add: praise_def pret_def)

lemma safe_match:
  assumes "safe p P s" "inv s" and "\<And>x t. inv t \<Longrightarrow> adv s t \<Longrightarrow> P x t \<Longrightarrow> safe (k (Inr x)) Q t"
    and "\<And>e t. inv t \<Longrightarrow> adv s t \<Longrightarrow> safe (k (Inl e)) Q t"
  shows "safe (pmatch p k) Q s"
  using assms
proof (induction p arbitrary: s)
  case (Finished r)
  moreover from this have "adv s s" by (intro adv_refl)
  ultimately show ?case by (cases r) auto
next
  case (Region f)
  show ?case
    unfolding pmatch.simps safe_Region
  proof (intro allI impI)
    fix t assume t: "inv t" "adv s t"
    obtain u p where f: "f t = (u, p)" by (cases "f t")
    then have p: "p \<in> Basic_BNFs.snds (f t)" by (simp add: snds.simps)
    have u: "inv u" "adv t u" "safe p P u"
      using Region.prems(1) t f by (auto simp: safe_Region simp del: safe.simps(2))
    have on: "adv s v" if "inv v" "adv u v" for v
      using that by (meson Region.prems(2) adv_trans t u(1,2))
    have "safe (pmatch p k) Q u"
      by (rule Region.IH [OF rangeI p u(3,1)]) (use Region.prems(3,4) on in blast)+
    with u show "inv (fst ((map_prod id (\<lambda>p. pmatch p k) \<circ> f) t))
        \<and> adv t (fst ((map_prod id (\<lambda>p. pmatch p k) \<circ> f) t))
        \<and> safe (snd ((map_prod id (\<lambda>p. pmatch p k) \<circ> f) t)) Q (fst ((map_prod id (\<lambda>p. pmatch p k) \<circ> f) t))"
      by (simp add: f)
  qed
qed

lemma safe_bind:
  assumes "safe p P s" "inv s" and "\<And>x t. inv t \<Longrightarrow> adv s t \<Longrightarrow> P x t \<Longrightarrow> safe (k x) Q t"
  shows "safe (pbind p k) Q s"
  unfolding pbind_def by (rule safe_match [OF assms(1,2)]) (use assms(3) in simp_all)

lemma safe_catch:
  assumes "safe p P s" "inv s" and "\<And>x t. inv t \<Longrightarrow> adv s t \<Longrightarrow> P x t \<Longrightarrow> safe (k x) Q t"
    and "\<And>e t. inv t \<Longrightarrow> adv s t \<Longrightarrow> safe (err e) Q t"
  shows "safe (pcatch p err k) Q s"
  unfolding pcatch_def by (rule safe_match [OF assms(1,2)]) (use assms(3,4) in \<open>simp_all split: err.split\<close>)

lemma safe_region:
  assumes "\<And>t. inv t \<Longrightarrow> adv s t \<Longrightarrow> inv (snd (m t)) \<and> adv t (snd (m t))"
    and "\<And>t x u v. inv t \<Longrightarrow> adv s t \<Longrightarrow> m t = (Inr x, u) \<Longrightarrow> inv v \<Longrightarrow> adv u v \<Longrightarrow> Q x v"
  shows "safe (region m) Q s"
  unfolding region_def safe_Region
proof (intro allI impI)
  fix t assume t: "inv t" "adv s t"
  obtain r u where m: "m t = (r, u)" by (cases "m t")
  show "inv (fst (case m t of (r, t) \<Rightarrow> (t, Finished r))) \<and> adv t (fst (case m t of (r, t) \<Rightarrow> (t, Finished r)))
      \<and> safe (snd (case m t of (r, t) \<Rightarrow> (t, Finished r))) Q (fst (case m t of (r, t) \<Rightarrow> (t, Finished r)))"
    using assms(1) [OF t] assms(2) [OF t] m by (cases r) auto
qed

lemma safe_for:
  assumes "inv s" "\<And>x t. x \<in> set xs \<Longrightarrow> inv t \<Longrightarrow> adv s t \<Longrightarrow> safe (body x) (\<lambda>_ _. True) t"
  shows "safe (pfor xs body) (\<lambda>_ _. True) s"
  using assms
proof (induction xs arbitrary: s)
  case Nil
  then show ?case by (auto simp: pret_def)
next
  case (Cons x xs)
  have "safe (body x) (\<lambda>_ _. True) s" using Cons.prems adv_refl by simp
  then show ?case
    unfolding pfor.simps
  proof (rule safe_bind [OF _ Cons.prems(1)])
    fix u t assume t: "inv t" "adv s t"
    show "safe (pfor xs body) (\<lambda>_ _. True) t"
      using Cons.prems adv_trans [OF Cons.prems(1) t(1) _ t(2)] by (intro Cons.IH [OF t(1)]) auto
  qed
qed

end

end
