(* ===== verification/Atomic.thy ===== *)
theory Atomic
  imports System Regions
begin

section \<open>The handlers of src/src/server.rs, region by region\<close>

text \<open>
  Every handler of theory Server once more, cut where the code releases a lock: a region is one
  critical section of the database mutex or of the mutex of \<open>inner\<close>, or one send into a queue.
  \<open>exec_...\<close> shows that a handler run without interruption is the handler of theory Server.
  \<open>astep\<close> is \<open>handle_stream\<close> with the regions of all connections interleaved.
\<close>

type_synonym 'a handler = "(server, 'a) prog"

subsection \<open>Sending and broadcasting\<close>

definition p_send :: "session \<Rightarrow> string \<Rightarrow> unit handler" where
  "p_send se line = region (session_send se line)"

definition p_broadcast_raw :: "string \<Rightarrow> string \<Rightarrow> unit handler" where
  "p_broadcast_raw channel line =
     pbind (region (reads (\<lambda>sv. recipients channel (sv_inner sv)))) (\<lambda>rs.
       pfor rs (\<lambda>h. pbind (region (send_out (h_tx h) line)) (\<lambda>_. pret ())))"

definition p_deliver :: "string \<Rightarrow> string \<Rightarrow> int \<Rightarrow> string \<times> client_handle \<Rightarrow> unit handler" where
  "p_deliver channel line seq r =
     pbind (region (send_out (h_tx (snd r)) line)) (\<lambda>ok.
       if ok then region (on_db (modify (mark_seen (fst r) channel seq))) else pret ())"

definition p_broadcast_message :: "string \<Rightarrow> string \<Rightarrow> int \<Rightarrow> unit handler" where
  "p_broadcast_message channel line seq =
     pbind (region (reads (\<lambda>sv. recipients_with_ids channel (sv_inner sv)))) (\<lambda>rs.
       pfor rs (p_deliver channel line seq))"

definition p_broadcast_task_event ::
    "inputs \<Rightarrow> task \<Rightarrow> string \<Rightarrow> string \<Rightarrow> string \<Rightarrow> string \<Rightarrow> unit handler" where
  "p_broadcast_task_event inp t action status actor body =
     pbind (region (on_db (history_append (i_log_uuid inp) (i_log_now inp) (t_channel t) SERVER_NAME body)))
       (\<lambda>m. p_broadcast_message (t_channel t)
          (format_message_tags (task_event_tags m t action status actor)
             @ '' :'' @ SERVER_NAME @ '' NOTICE '' @ t_channel t @ '' :'' @ body)
          (sm_seq m))"

subsection \<open>Registration and replay\<close>

definition p_replay_message :: "session \<Rightarrow> stored_message \<Rightarrow> unit handler" where
  "p_replay_message se m =
     pbind (region (reads (\<lambda>sv. display_name SERVER_NAME (sm_sender_id m) (sv_db sv)))) (\<lambda>sender.
       p_send se
         (privmsg_line (metadata_tags (sm_seq m) (sm_msg_id m) (sm_created_at m) True)
            sender (sm_channel m) (sm_body m)))"

definition p_replay_channel :: "session \<Rightarrow> string \<Rightarrow> int \<Rightarrow> int \<Rightarrow> string \<Rightarrow> unit handler" where
  "p_replay_channel se pid after_seq limit channel =
     pbind (region (reads (\<lambda>sv. history_after channel after_seq limit (sv_db sv)))) (\<lambda>ms.
     pbind (pfor ms (p_replay_message se)) (\<lambda>_.
       let channel_max_seq = fold (\<lambda>m x. max x (sm_seq m)) ms after_seq in
       if channel_max_seq > after_seq then region (on_db (modify (mark_seen pid channel channel_max_seq)))
       else pret ()))"

definition p_replay_history :: "session \<Rightarrow> string list \<Rightarrow> int \<Rightarrow> int \<Rightarrow> unit handler" where
  "p_replay_history se cs after_seq limit =
     pbind (plift (session_principal se)) (\<lambda>p.
       pfor cs (p_replay_channel se (pr_id p) after_seq limit))"

definition p_register :: "inputs \<Rightarrow> principal \<Rightarrow> session \<Rightarrow> session handler" where
  "p_register inp p se0 =
     (let se = se0\<lparr>s_nick := Some (pr_nick p), s_principal := Some p, s_registered := True\<rparr> in
      pbind (region (on_db (mark_connected_and_memberships (i_now inp) (pr_id p)))) (\<lambda>ms.
        let cs = map mb_channel ms in
        pbind (region (take_over p se cs)) (\<lambda>_.
        pbind (p_send se (welcome_line p)) (\<lambda>_.
        pbind (pfor cs (\<lambda>c. p_send se ('':'' @ pr_nick p @ '' JOIN '' @ c))) (\<lambda>_.
        pbind (if ms \<noteq> [] then
                 pbind (p_send se (replay_notice p (length ms)))
                   (\<lambda>_. pfor ms (\<lambda>mb. p_replay_history se [mb_channel mb] (mb_last_seen_seq mb) 200))
               else pret ())
          (\<lambda>_. pret se))))))"

text \<open>
  \<open>authenticate\<close> locks for the token lookup, again for the legacy lookup, and counts a
  legacy hit in one atomic addition.
\<close>

definition count_hit :: "principal \<Rightarrow> (server, err + principal) act" where
  "count_hit p sv =
     (case legacy_hit p (sv_legacy_hits sv) of
        (Inl e, hits) \<Rightarrow> (Inl e, sv\<lparr>sv_legacy_hits := hits\<rparr>)
      | (Inr q, hits) \<Rightarrow> (Inr (Inr q), sv\<lparr>sv_legacy_hits := hits\<rparr>))"

definition p_authenticate :: "crypto \<Rightarrow> string \<Rightarrow> (err + principal) handler" where
  "p_authenticate cr token =
     pbind (case token_parse token of
              None \<Rightarrow> pret (Inr None)
            | Some x \<Rightarrow> region (reads (\<lambda>sv. authenticate_new cr (fst x) (snd x) (sv_db sv)))) (\<lambda>r.
       case r of
         Inl e \<Rightarrow> pret (Inl e)
       | Inr found \<Rightarrow>
           (case found of
              Some p \<Rightarrow> pret (Inr p)
            | None \<Rightarrow>
                pbind (region (reads (\<lambda>sv. authenticate_legacy token (sv_db sv)))) (\<lambda>r.
                  case r of Inl e \<Rightarrow> pret (Inl e) | Inr p \<Rightarrow> region (count_hit p))))"

definition p_try_register :: "crypto \<Rightarrow> inputs \<Rightarrow> session \<Rightarrow> session handler" where
  "p_try_register cr inp se =
     (if s_registered se then pret se
      else
        (case s_pass_token se of
           None \<Rightarrow> pret se
         | Some token \<Rightarrow>
             if s_nick se = None then pret se
             else
               pbind (p_authenticate cr token) (\<lambda>r.
                 case r of
                   Inl e \<Rightarrow>
                     pbind (p_send se ('':'' @ SERVER_NAME @ '' 464 * :Password incorrect''))
                       (\<lambda>_. pret se)
                 | Inr p \<Rightarrow> p_register inp p se)))"

subsection \<open>Channels and messages\<close>

definition p_join :: "inputs \<Rightarrow> session \<Rightarrow> string \<Rightarrow> unit handler" where
  "p_join inp se channel =
     pbind (plift (session_principal se)) (\<lambda>p.
     pbind (region (on_db (modify (add_membership (i_now inp) (pr_id p) channel)))) (\<lambda>_.
     pbind (region (on_inner (channel_insert channel (pr_id p)))) (\<lambda>_.
       p_broadcast_raw channel ('':'' @ pr_nick p @ '' JOIN '' @ channel))))"

definition p_part :: "session \<Rightarrow> string \<Rightarrow> unit handler" where
  "p_part se channel =
     pbind (plift (session_principal se)) (\<lambda>p.
     pbind (region (on_db (modify (remove_membership (pr_id p) channel)))) (\<lambda>_.
     pbind (region (on_inner (channel_remove channel (pr_id p)))) (\<lambda>_.
       p_broadcast_raw channel ('':'' @ pr_nick p @ '' PART '' @ channel))))"

definition p_privmsg :: "inputs \<Rightarrow> session \<Rightarrow> string \<Rightarrow> string \<Rightarrow> unit handler" where
  "p_privmsg inp se channel body =
     pbind (plift (session_principal se)) (\<lambda>p.
     pbind (region (reads (\<lambda>sv. is_member (pr_id p) channel (sv_db sv)))) (\<lambda>member.
       if \<not> member then
         p_send se ('':'' @ SERVER_NAME @ '' 442 '' @ pr_nick p @ '' '' @ channel
           @ '' :You'' @ [CHR 0x27] @ ''re not on that channel'')
       else
         pbind (region (on_db (history_append (i_log_uuid inp) (i_log_now inp) channel (pr_id p) body)))
           (\<lambda>m. p_broadcast_message channel
              (privmsg_line (metadata_tags (sm_seq m) (sm_msg_id m) (sm_created_at m) False)
                 (pr_nick p) channel body)
              (sm_seq m))))"

subsection \<open>Tasks\<close>

definition p_task_create :: "inputs \<Rightarrow> session \<Rightarrow> string \<Rightarrow> string \<Rightarrow> unit handler" where
  "p_task_create inp se channel title =
     pbind (plift (session_principal se)) (\<lambda>p.
       if trim title = [] then
         p_send se ('':'' @ SERVER_NAME @ '' NOTICE '' @ pr_nick p
           @ '' :TASK CREATE failed: title is required'')
       else
         pbind (region (on_db (tasks_create (i_uuid inp) (i_now inp) channel (trim title)))) (\<lambda>t.
           p_broadcast_task_event inp t ''create'' ''success'' (pr_nick p)
             (''TASK '' @ t_id t @ '' created by '' @ pr_nick p @ '': '' @ t_title t)))"

definition p_task_claim :: "inputs \<Rightarrow> session \<Rightarrow> string \<Rightarrow> unit handler" where
  "p_task_claim inp se task_id =
     pbind (plift (session_principal se)) (\<lambda>p.
       pcatch (region (\<lambda>sv. on_db (tasks_claim (sv_lease_seconds sv) (i_now inp) task_id (pr_id p)) sv))
         (\<lambda>e. region (task_failed se p ''CLAIM'' ''claim'' task_id e))
         (\<lambda>t. p_broadcast_task_event inp t ''claim'' ''success'' (pr_nick p)
            (''TASK '' @ t_id t @ '' claimed by '' @ pr_nick p @ '': '' @ t_title t)))"

definition p_task_done :: "inputs \<Rightarrow> session \<Rightarrow> string \<Rightarrow> unit handler" where
  "p_task_done inp se task_id =
     pbind (plift (session_principal se)) (\<lambda>p.
       pcatch (region (on_db (tasks_done (i_now inp) task_id (pr_id p))))
         (\<lambda>e. region (task_failed se p ''DONE'' ''done'' task_id e))
         (\<lambda>t. p_broadcast_task_event inp t ''done'' ''success'' (pr_nick p)
            (''TASK '' @ t_id t @ '' completed by '' @ pr_nick p @ '': '' @ t_title t)))"

definition p_task_release :: "inputs \<Rightarrow> session \<Rightarrow> string \<Rightarrow> unit handler" where
  "p_task_release inp se task_id =
     pbind (plift (session_principal se)) (\<lambda>p.
       pcatch (region (on_db (tasks_release (i_now inp) task_id (pr_id p))))
         (\<lambda>e. region (task_failed se p ''RELEASE'' ''release'' task_id e))
         (\<lambda>t. p_broadcast_task_event inp t ''release'' ''success'' (pr_nick p)
            (''TASK '' @ t_id t @ '' released by '' @ pr_nick p @ '': '' @ t_title t)))"

definition p_task_list :: "session \<Rightarrow> string \<Rightarrow> unit handler" where
  "p_task_list se channel =
     pbind (plift (session_principal se)) (\<lambda>p.
     pbind (region (reads (\<lambda>sv. tasks_list channel (sv_db sv)))) (\<lambda>ts.
       if ts = [] then
         p_send se ('':'' @ SERVER_NAME @ '' NOTICE '' @ pr_nick p
           @ '' :No open tasks in '' @ channel)
       else pfor ts (\<lambda>t. p_send se (task_line p t))))"

subsection \<open>Leaving, guard and dispatch\<close>

text \<open>\<open>disconnect\<close> looks up and removes the handle under one lock.\<close>

definition remove_own :: "principal \<Rightarrow> session \<Rightarrow> (server, bool) act" where
  "remove_own p se =
     and_then (reads (\<lambda>sv. case clients (sv_inner sv) (pr_id p) of
                              Some h \<Rightarrow> h_tx h = s_tx se | None \<Rightarrow> False)) (\<lambda>should_remove.
       if should_remove then
         and_then (on_inner (\<lambda>i. i\<lparr>clients := (clients i)(pr_id p := None)\<rparr>)) (\<lambda>_. ret True)
       else ret False)"

definition p_disconnect :: "inputs \<Rightarrow> session \<Rightarrow> unit handler" where
  "p_disconnect inp se =
     (case s_principal se of
        None \<Rightarrow> pret ()
      | Some p \<Rightarrow>
          pbind (region (remove_own p se)) (\<lambda>removed.
            if removed then region (on_db (modify (mark_disconnected (i_now inp) (pr_id p))))
            else pret ()))"

definition p_ensure_registered :: "session \<Rightarrow> bool handler" where
  "p_ensure_registered se =
     (if \<not> s_registered se then
        pbind (p_send se ('':'' @ SERVER_NAME @ '' 451 * :You have not registered'')) (\<lambda>_. pret False)
      else
        pbind (plift (session_principal se)) (\<lambda>p.
        pbind (region (reads (\<lambda>sv. case clients (sv_inner sv) (pr_id p) of
                                 Some h \<Rightarrow> h_session_id h = s_session_id se | None \<Rightarrow> False))) (\<lambda>is_active.
          if \<not> is_active then
            pbind (p_send se ('':'' @ SERVER_NAME
                        @ '' ERROR :Session replaced by a newer connection'')) (\<lambda>_.
              praise (Anyhow ''session replaced''))
          else pret True)))"

definition p_if_registered :: "session \<Rightarrow> unit handler \<Rightarrow> (session \<times> bool) handler" where
  "p_if_registered se p =
     pbind (p_ensure_registered se) (\<lambda>ok.
       if ok then pbind p (\<lambda>_. pret (se, False)) else pret (se, False))"

definition p_chathistory :: "session \<Rightarrow> string option \<Rightarrow> int \<Rightarrow> int \<Rightarrow> unit handler" where
  "p_chathistory se channel after_seq limit =
     pbind
       (case channel of
          None \<Rightarrow>
            pbind (plift (session_principal se)) (\<lambda>p.
              region (reads (\<lambda>sv. map mb_channel (memberships (pr_id p) (sv_db sv)))))
        | Some c \<Rightarrow> pret [normalize_channel c])
       (\<lambda>cs. p_replay_history se cs after_seq limit)"

definition p_command :: "crypto \<Rightarrow> inputs \<Rightarrow> session \<Rightarrow> command \<Rightarrow> (session \<times> bool) handler" where
  "p_command cr inp se cmd =
     (case cmd of
        Pass token \<Rightarrow> pbind (p_try_register cr inp (se\<lparr>s_pass_token := Some token\<rparr>)) (\<lambda>s. pret (s, False))
      | Nick nick \<Rightarrow> pbind (p_try_register cr inp (se\<lparr>s_nick := Some nick\<rparr>)) (\<lambda>s. pret (s, False))
      | User _ \<Rightarrow> pbind (p_try_register cr inp se) (\<lambda>s. pret (s, False))
      | Ping token \<Rightarrow>
          pbind (p_send se ('':'' @ SERVER_NAME @ '' PONG '' @ SERVER_NAME @ '' :'' @ token)) (\<lambda>_. pret (se, False))
      | Pong \<Rightarrow> pret (se, False)
      | Cap subcommand capabilities \<Rightarrow> pbind (region (cap se subcommand capabilities)) (\<lambda>_. pret (se, False))
      | Join channel \<Rightarrow> p_if_registered se (p_join inp se (normalize_channel channel))
      | Part channel \<Rightarrow> p_if_registered se (p_part se (normalize_channel channel))
      | Privmsg target body \<Rightarrow> p_if_registered se (p_privmsg inp se (normalize_channel target) body)
      | History channel after_seq limit \<Rightarrow> p_if_registered se (p_chathistory se channel after_seq limit)
      | TaskCreate channel title \<Rightarrow> p_if_registered se (p_task_create inp se (normalize_channel channel) title)
      | TaskClaim task_id \<Rightarrow> p_if_registered se (p_task_claim inp se task_id)
      | TaskDone task_id \<Rightarrow> p_if_registered se (p_task_done inp se task_id)
      | TaskRelease task_id \<Rightarrow> p_if_registered se (p_task_release inp se task_id)
      | TaskList channel \<Rightarrow> p_if_registered se (p_task_list se (normalize_channel channel))
      | Quit \<Rightarrow> pret (se, True)
      | Unknown name \<Rightarrow>
          pbind (p_send se ('':'' @ SERVER_NAME @ '' 421 * '' @ name @ '' :Unknown command'')) (\<lambda>_. pret (se, False)))"

subsection \<open>Without interruption they are the handlers of theory Server\<close>

lemmas exec_congs = if_cong option.case_cong sum.case_cong

lemma exec_catch [simp]:
  "exec_prog (pcatch p err k) = or_else (exec_prog p) (\<lambda>e. exec_prog (err e)) (\<lambda>x. exec_prog (k x))"
  by (rule ext) (simp add: pcatch_def exec_match or_else_def split: prod.split sum.split err.split)

lemma exec_send [simp]: "exec_prog (p_send se line) = session_send se line"
  by (simp add: p_send_def)

lemma exec_broadcast [simp]:
  "exec_prog (p_broadcast_raw c line) = broadcast_raw c line"
  "exec_prog (p_broadcast_message c line s) = broadcast_message c line s"
  "exec_prog (p_broadcast_task_event inp t a st ac b) = broadcast_task_event inp t a st ac b"
  by (simp_all add: p_broadcast_raw_def broadcast_raw_def p_broadcast_message_def broadcast_message_def
      p_broadcast_task_event_def broadcast_task_event_def p_deliver_def deliver_def [abs_def]
      cong: exec_congs)

lemma exec_replay [simp]: "exec_prog (p_replay_history se cs a l) = replay_history se cs a l"
  by (simp add: p_replay_history_def replay_history_def p_replay_channel_def replay_channel_def [abs_def]
      p_replay_message_def replay_message_def [abs_def] Let_def cong: exec_congs)

lemma exec_register [simp]: "exec_prog (p_register inp p se) = register inp p se"
  by (simp add: p_register_def register_def Let_def replay_missed_def [abs_def] cong: exec_congs)

lemma authenticate_new_no_panic: "authenticate_new cr i s d \<noteq> Inl (Panic m)"
  by (auto simp: authenticate_new_def token_verify_def split: option.splits sum.splits bool.splits pw_outcome.splits)

lemma exec_authenticate [simp]: "exec_prog (p_authenticate cr token) = run_authenticate cr token"
proof
  fix sv
  show "exec_prog (p_authenticate cr token) sv = run_authenticate cr token sv"
    using authenticate_new_no_panic [of cr _ _ "sv_db sv"]
    by (auto simp: p_authenticate_def run_authenticate_def authenticate_def authenticate_legacy_def legacy_hit_def
        count_hit_def act_simps and_then_def run_act Let_def split: option.split sum.split err.split)
qed

lemma exec_try_register [simp]: "exec_prog (p_try_register cr inp se) = try_register cr inp se"
  by (simp add: p_try_register_def try_register_def cong: exec_congs)


lemma exec_rooms [simp]:
  "exec_prog (p_join inp se c) = join_channel inp se c"
  "exec_prog (p_part se c) = part_channel se c"
  "exec_prog (p_privmsg inp se c b) = privmsg inp se c b"
  by (simp_all add: p_join_def join_channel_def p_part_def part_channel_def p_privmsg_def privmsg_def
      cong: exec_congs)

lemma reads_on_db: "and_then (reads f) (\<lambda>x. on_db (m x)) = (\<lambda>sv. on_db (m (f sv)) sv)"
  by (rule ext) (simp add: act_simps)

lemma or_else_reads: "and_then (reads f) (\<lambda>x. or_else (m x) err k) = or_else (and_then (reads f) m) err k"
  by (rule ext) (simp add: act_simps or_else_def)

lemma exec_tasks [simp]:
  "exec_prog (p_task_create inp se c title) = task_create inp se c title"
  "exec_prog (p_task_claim inp se tid) = task_claim inp se tid"
  "exec_prog (p_task_done inp se tid) = task_done inp se tid"
  "exec_prog (p_task_release inp se tid) = task_release inp se tid"
  "exec_prog (p_task_list se c) = task_list se c"
  by (simp_all add: p_task_create_def task_create_def p_task_claim_def task_claim_def p_task_done_def
      task_done_def p_task_release_def task_release_def p_task_list_def task_list_def
      or_else_reads reads_on_db cong: exec_congs)

lemma exec_disconnect [simp]: "exec_prog (p_disconnect inp se) = disconnect inp se"
proof
  fix sv
  show "exec_prog (p_disconnect inp se) sv = disconnect inp se sv"
    by (simp add: p_disconnect_def disconnect_def remove_own_def and_then_assoc and_then_ret cong: exec_congs)
       (auto simp: act_simps and_then_def run_act on_inner_def run_modify split: option.split)
qed

lemma exec_ensure_registered [simp]: "exec_prog (p_ensure_registered se) = ensure_registered se"
  by (simp add: p_ensure_registered_def ensure_registered_def cong: exec_congs)

lemma exec_if_registered [simp]: "exec_prog (p_if_registered se p) = if_registered se (exec_prog p)"
  by (simp add: p_if_registered_def if_registered_def cong: exec_congs)

lemma exec_chathistory [simp]: "exec_prog (p_chathistory se ch a l) = chathistory se ch a l"
  by (cases ch) (simp_all add: p_chathistory_def chathistory_def)

lemma exec_command: "exec_prog (p_command cr inp se cmd) = handle_command cr inp se cmd"
  by (cases cmd) (simp_all add: p_command_def)


subsection \<open>The connection loop, interleaved\<close>

text \<open>
  A connection is at \<open>select!\<close> (\<open>Ready\<close>), inside a command (\<open>Busy\<close>), after the loop
  (\<open>Closing\<close>: what is left of it is the rest of \<open>disconnect\<close>) or gone.
\<close>

datatype aconn =
    Free
  | Ready session
  | Busy session "(session \<times> bool) handler"
  | Closing session "unit handler"
  | Ended session

record asystem =
  as_server :: server
  as_conns :: "nat \<Rightarrow> aconn"

datatype aevent =
    AAccept nat string
  | ALine nat inputs string
  | ARegion nat
  | AReturn nat inputs
  | AEof nat inputs
  | AReadError nat
  | AShut nat inputs
  | AWritten nat
  | AWriteError nat

fun aconn_session :: "aconn \<Rightarrow> session option" where
  "aconn_session Free = None"
| "aconn_session (Ready se) = Some se"
| "aconn_session (Busy se p) = Some se"
| "aconn_session (Closing se p) = Some se"
| "aconn_session (Ended se) = Some se"

definition new_stream :: "nat \<Rightarrow> string \<Rightarrow> server \<Rightarrow> server" where
  "new_stream n uuid sv =
     snd (session_send (new_session n uuid) ('':'' @ SERVER_NAME @ '' NOTICE * :Welcome to aircd prototype'')
       (sv\<lparr>outs := (outs sv)(n := new_mpsc), shuts := (shuts sv)(n := new_mpsc)\<rparr>))"

definition at_conn :: "nat \<Rightarrow> server \<Rightarrow> aconn \<Rightarrow> asystem \<Rightarrow> asystem" where
  "at_conn n sv c s = \<lparr>as_server = sv, as_conns = (as_conns s)(n := c)\<rparr>"

definition p_shutdown :: "inputs \<Rightarrow> session \<Rightarrow> string \<Rightarrow> unit handler" where
  "p_shutdown inp se reason =
     pbind (p_send se ('':'' @ SERVER_NAME @ '' ERROR :'' @ reason)) (\<lambda>_. p_disconnect inp se)"

inductive astep :: "crypto \<Rightarrow> asystem \<Rightarrow> aevent \<Rightarrow> asystem \<Rightarrow> bool" for cr where
  accept: "as_conns s n = Free \<Longrightarrow>
     (\<And>m se. aconn_session (as_conns s m) = Some se \<Longrightarrow> s_session_id se \<noteq> ''sess_'' @ uuid) \<Longrightarrow>
     astep cr s (AAccept n uuid) (at_conn n (new_stream n uuid (as_server s)) (Ready (new_session n uuid)) s)"
| line: "as_conns s n = Ready se \<Longrightarrow>
     astep cr s (ALine n inp l) (at_conn n (as_server s) (Busy se (p_command cr inp se (parse_command l))) s)"
| busy: "as_conns s n = Busy se (Region f) \<Longrightarrow> f (as_server s) = (sv, p) \<Longrightarrow>
     astep cr s (ARegion n) (at_conn n sv (Busy se p) s)"
| fails: "as_conns s n = Busy se (Finished (Inl e)) \<Longrightarrow>
     astep cr s (AReturn n inp) (at_conn n (close_shut n (as_server s)) (Ended se) s)"
| stays: "as_conns s n = Busy se (Finished (Inr (se', False))) \<Longrightarrow>
     astep cr s (AReturn n inp) (at_conn n (as_server s) (Ready se') s)"
| quits: "as_conns s n = Busy se (Finished (Inr (se', True))) \<Longrightarrow>
     astep cr s (AReturn n inp) (at_conn n (as_server s) (Closing se' (p_disconnect inp se')) s)"
| eof: "as_conns s n = Ready se \<Longrightarrow>
     astep cr s (AEof n inp) (at_conn n (as_server s) (Closing se (p_disconnect inp se)) s)"
| read_error: "as_conns s n = Ready se \<Longrightarrow>
     astep cr s (AReadError n) (at_conn n (close_shut n (as_server s)) (Ended se) s)"
| shut: "as_conns s n = Ready se \<Longrightarrow>
     q_taken (shuts (as_server s) n) < length (q_sent (shuts (as_server s) n)) \<Longrightarrow>
     astep cr s (AShut n inp) (at_conn n (as_server s)
       (Closing se (p_shutdown inp se
          (q_sent (shuts (as_server s) n) ! q_taken (shuts (as_server s) n)))) s)"
| closing: "as_conns s n = Closing se (Region f) \<Longrightarrow> f (as_server s) = (sv, p) \<Longrightarrow>
     astep cr s (ARegion n) (at_conn n sv (Closing se p) s)"
| closed: "as_conns s n = Closing se (Finished r) \<Longrightarrow>
     astep cr s (AReturn n inp)
       (at_conn n (case r of Inl _ \<Rightarrow> close_shut n (as_server s)
                           | Inr _ \<Rightarrow> close_out n (close_shut n (as_server s))) (Ended se) s)"
| written: "as_conns s n \<noteq> Free \<Longrightarrow> q_open (outs (as_server s) n) \<Longrightarrow>
     q_taken (outs (as_server s) n) < length (q_sent (outs (as_server s) n)) \<Longrightarrow>
     astep cr s (AWritten n) (s\<lparr>as_server := take_out n (as_server s)\<rparr>)"
| write_error: "as_conns s n \<noteq> Free \<Longrightarrow>
     astep cr s (AWriteError n) (s\<lparr>as_server := close_out n (as_server s)\<rparr>)"

lemma at_conn_simps [simp]:
  "as_server (at_conn n sv c s) = sv"
  "as_conns (at_conn n sv c s) m = (if m = n then c else as_conns s m)"
  "at_conn n sv c (at_conn n sv' c' s) = at_conn n sv c s"
  by (simp_all add: at_conn_def)

end
