(* ===== verification/Serial.thy ===== *)
theory Serial
  imports Atomic
begin

section \<open>Serial schedules are the steps of theory System\<close>

text \<open>
  \<open>interleaved\<close> reads a state of theory System as a state of theory Atomic, between two
  commands. A run of System is a serial schedule between two such states, and every serial
  schedule between two such states is a run of System.
\<close>

subsection \<open>Serial steps\<close>

text \<open>
  A schedule is serial if, while a connection is inside a command or closing, only its own
  regions run. The steps of theory System are the serial schedules, seen between commands.
\<close>

fun between :: "aconn \<Rightarrow> bool" where
  "between (Busy se p) = False"
| "between (Closing se p) = False"
| "between _ = True"

fun inside :: "nat \<Rightarrow> aevent \<Rightarrow> bool" where
  "inside m (ARegion n) = (n = m)"
| "inside m (AReturn n inp) = (n = m)"
| "inside m _ = False"

definition serial_step :: "crypto \<Rightarrow> asystem \<Rightarrow> aevent \<Rightarrow> asystem \<Rightarrow> bool" where
  "serial_step cr s e t \<longleftrightarrow> astep cr s e t \<and> (\<forall>m. \<not> between (as_conns s m) \<longrightarrow> inside m e)"

fun aconn_of :: "conn \<Rightarrow> aconn" where
  "aconn_of Idle = Free"
| "aconn_of (Live se) = Ready se"
| "aconn_of (Gone se) = Ended se"

definition interleaved :: "system \<Rightarrow> asystem" where
  "interleaved sy = \<lparr>as_server = sy_server sy, as_conns = (\<lambda>n. aconn_of (sy_conns sy n))\<rparr>"

lemma aconn_of_simps [simp]:
  "between (aconn_of c)" "aconn_session (aconn_of c) = conn_session c"
  "aconn_of c = Free \<longleftrightarrow> c = Idle" "aconn_of c = Ready se \<longleftrightarrow> c = Live se" "aconn_of c = Ended se \<longleftrightarrow> c = Gone se"
  "aconn_of c \<noteq> Busy se p" "aconn_of c \<noteq> Closing se q"
  by (cases c; simp)+

lemma interleaved_simps [simp]:
  "as_server (interleaved sy) = sy_server sy" "as_conns (interleaved sy) n = aconn_of (sy_conns sy n)"
  by (simp_all add: interleaved_def)

lemma interleaved_at: "interleaved \<lparr>sy_server = sv, sy_conns = (sy_conns sy)(n := c)\<rparr> = at_conn n sv (aconn_of c) (interleaved sy)"
  by (simp add: interleaved_def at_conn_def fun_eq_iff)

lemma interleaved_server: "interleaved (sy\<lparr>sy_server := sv\<rparr>) = (interleaved sy)\<lparr>as_server := sv\<rparr>"
  by (simp add: interleaved_def)

lemma aconn_of_inj: "aconn_of c = aconn_of d \<Longrightarrow> c = d"
  by (cases c; cases d) simp_all

lemma interleaved_inj: "interleaved sy = interleaved sy' \<Longrightarrow> sy = sy'"
  by (cases sy; cases sy') (auto simp: interleaved_def fun_eq_iff intro: aconn_of_inj)

lemma exec_shutdown: "exec_prog (p_shutdown inp se reason) sv
  = disconnect inp se (snd (session_send se ('':'' @ SERVER_NAME @ '' ERROR :'' @ reason) sv))"
  by (simp add: p_shutdown_def and_then_send session_send_run)

lemma accept_interleaved:
  "interleaved (accept_conn n uuid sy) = at_conn n (new_stream n uuid (sy_server sy)) (Ready (new_session n uuid)) (interleaved sy)"
  by (simp add: accept_conn_def Let_def interleaved_at new_stream_def)

lemma leave_interleaved:
  "interleaved (leave_loop inp n se sv sy) = at_conn n
     (case disconnect inp se sv of (Inl _, sv') \<Rightarrow> close_shut n sv' | (Inr _, sv') \<Rightarrow> close_out n (close_shut n sv'))
     (Ended se) (interleaved sy)"
  by (simp add: leave_loop_def interleaved_at split: prod.split sum.split)

subsection \<open>A program run to its end is a serial schedule\<close>

definition own_step :: "crypto \<Rightarrow> nat \<Rightarrow> asystem \<Rightarrow> aevent \<Rightarrow> asystem \<Rightarrow> bool" where
  "own_step cr n s e t \<longleftrightarrow> astep cr s e t \<and> inside n e"

lemma own_step_others: "own_step cr n s e t \<Longrightarrow> m \<noteq> n \<Longrightarrow> as_conns t m = as_conns s m"
  by (auto simp: own_step_def elim!: astep.cases)

lemma own_serial:
  "run (own_step cr n) s es t \<Longrightarrow> (\<And>m. m \<noteq> n \<Longrightarrow> between (as_conns s m)) \<Longrightarrow> run (serial_step cr) s es t"
proof (induction rule: run.induct)
  case (run_nil s)
  show ?case by (rule run.run_nil)
next
  case (run_cons s e t es u)
  have "serial_step cr s e t"
    using run_cons(1,4) unfolding serial_step_def own_step_def by metis
  moreover have "run (serial_step cr) t es u"
    by (rule run_cons.IH) (use own_step_others [OF run_cons(1)] run_cons(4) in auto)
  ultimately show ?case by (rule run.run_cons)
qed

lemma run_mono: "run P s es t \<Longrightarrow> (\<And>s e t. P s e t \<Longrightarrow> Q s e t) \<Longrightarrow> run Q s es t"
  by (induction rule: run.induct) (auto intro: run_cons)

lemma own_astep: "run (own_step cr n) s es t \<Longrightarrow> run (astep cr) s es t"
  by (erule run_mono) (simp add: own_step_def)

lemma serial_quiet: "astep cr s e t \<Longrightarrow> (\<And>m. between (as_conns s m)) \<Longrightarrow> serial_step cr s e t"
  by (simp add: serial_step_def)

lemma match_run:
  assumes "as_conns s n = Busy se (pmatch p k)" "exec_prog p (as_server s) = (r, sv)"
  shows "\<exists>es. run (own_step cr n) s es (at_conn n sv (Busy se (k r)) s)"
  using assms
proof (induction p arbitrary: s)
  case (Finished q)
  then have "at_conn n sv (Busy se (k r)) s = s" by (simp add: at_conn_def fun_upd_idem)
  then show ?case by (metis run_nil)
next
  case (Region f)
  obtain sv' p where f: "f (as_server s) = (sv', p)" by (cases "f (as_server s)")
  then have p: "p \<in> Basic_BNFs.snds (f (as_server s))" by (simp add: snds.simps)
  let ?t = "at_conn n sv' (Busy se (pmatch p k)) s"
  have "own_step cr n s (ARegion n) ?t"
    using astep.busy [OF Region.prems(1) [unfolded pmatch.simps], of sv' "pmatch p k" cr] f
    by (simp add: own_step_def)
  moreover have "\<exists>es. run (own_step cr n) ?t es (at_conn n sv (Busy se (k r)) ?t)"
    by (rule Region.IH [OF rangeI p]) (use Region.prems(2) f in auto)
  ultimately show ?case by (auto intro: run_cons)
qed

lemma busy_run:
  assumes "as_conns s n = Busy se p" "exec_prog p (as_server s) = (r, sv)"
  shows "\<exists>es. run (own_step cr n) s es (at_conn n sv (Busy se (Finished r)) s)"
  by (rule match_run [OF _ assms(2)]) (simp add: assms(1) match_Finished)

lemma bind_run:
  assumes "as_conns s n = Busy se (pbind p k)" "exec_prog p (as_server s) = (Inr x, sv)"
  shows "\<exists>es. run (own_step cr n) s es (at_conn n sv (Busy se (k x)) s)"
  using match_run [OF assms(1) [unfolded pbind_def] assms(2)] by simp

lemma closing_run:
  assumes "as_conns s n = Closing se p" "exec_prog p (as_server s) = (r, sv)"
  shows "\<exists>es. run (own_step cr n) s es
    (at_conn n (case r of Inl _ \<Rightarrow> close_shut n sv | Inr _ \<Rightarrow> close_out n (close_shut n sv)) (Ended se) s)"
  using assms
proof (induction p arbitrary: s)
  case (Finished q)
  then have "own_step cr n s (AReturn n undefined) (at_conn n
      (case r of Inl _ \<Rightarrow> close_shut n sv | Inr _ \<Rightarrow> close_out n (close_shut n sv)) (Ended se) s)"
    using astep.closed [OF Finished(1), of cr undefined] by (auto simp: own_step_def)
  then show ?case by (metis run_simps)
next
  case (Region f)
  obtain sv' p where f: "f (as_server s) = (sv', p)" by (cases "f (as_server s)")
  then have p: "p \<in> Basic_BNFs.snds (f (as_server s))" by (simp add: snds.simps)
  have "own_step cr n s (ARegion n) (at_conn n sv' (Closing se p) s)"
    using astep.closing [OF Region.prems(1) f] by (simp add: own_step_def)
  moreover have "\<exists>es. run (own_step cr n) (at_conn n sv' (Closing se p) s) es
      (at_conn n (case r of Inl _ \<Rightarrow> close_shut n sv | Inr _ \<Rightarrow> close_out n (close_shut n sv)) (Ended se)
        (at_conn n sv' (Closing se p) s))"
    by (rule Region.IH [OF rangeI p]) (use Region.prems f in auto)
  ultimately show ?case by (auto intro: run_cons)
qed

text \<open>The whole of a command, or of a departure, by one connection.\<close>

lemma own_single: "astep cr s e t \<Longrightarrow> inside n e \<Longrightarrow> own_step cr n s e t"
  by (simp add: own_step_def)

lemma leave_run:
  assumes "as_conns s n = Closing se (p_disconnect inp se)" "disconnect inp se (as_server s) = (r, sv)"
  shows "\<exists>es. run (own_step cr n) s es (at_conn n
    (case r of Inl _ \<Rightarrow> close_shut n sv | Inr _ \<Rightarrow> close_out n (close_shut n sv)) (Ended se) s)"
  by (rule closing_run [OF assms(1)]) (simp add: assms(2))

lemma step_schedule:
  assumes "sys_step cr sy ev sy'"
  shows "\<exists>es. run (serial_step cr) (interleaved sy) es (interleaved sy')"
  using assms
proof (cases rule: sys_step.cases)
  case (accept n uuid)
  then have "serial_step cr (interleaved sy) (AAccept n uuid) (interleaved sy')"
    using astep.accept [of "interleaved sy" n uuid cr]
    by (intro serial_quiet) (simp_all add: accept_interleaved sess_def)
  then show ?thesis by (metis run_simps)
next
  case (line n se inp l)
  let ?s = "at_conn n (sy_server sy) (Busy se (p_command cr inp se (parse_command l))) (interleaved sy)"
  obtain r sv where run: "handle_command cr inp se (parse_command l) (sy_server sy) = (r, sv)"
    by (cases "handle_command cr inp se (parse_command l) (sy_server sy)")
  have "serial_step cr (interleaved sy) (ALine n inp l) ?s"
    using astep.line [of "interleaved sy" n se cr inp l] line by (intro serial_quiet) simp_all
  moreover obtain es where es: "run (serial_step cr) ?s es (at_conn n sv (Busy se (Finished r)) (interleaved sy))"
    using busy_run [of ?s n se "p_command cr inp se (parse_command l)" r sv cr] run
    by (auto simp: exec_command dest: own_serial)
  moreover have "\<exists>es. run (serial_step cr) (at_conn n sv (Busy se (Finished r)) (interleaved sy)) es (interleaved sy')"
    (is "\<exists>es. run _ ?m es _")
  proof (cases r)
    case (Inl e)
    then have "serial_step cr ?m (AReturn n inp) (interleaved sy')"
      using astep.fails [of ?m n se e cr inp] line(2) run
      by (simp add: serial_step_def on_line_def handle_line_def drop_conn_def interleaved_at)
    then show ?thesis by (metis run_simps)
  next
    case (Inr x)
    then obtain se' b where r: "r = Inr (se', b)" by (cases x) auto
    show ?thesis
    proof (cases b)
      case True
      let ?c = "at_conn n sv (Closing se' (p_disconnect inp se')) (interleaved sy)"
      have "serial_step cr ?m (AReturn n inp) ?c"
        using astep.quits [of ?m n se se' cr inp] r True
        by (simp add: serial_step_def)
      moreover obtain q sv' where "disconnect inp se' sv = (q, sv')" by (cases "disconnect inp se' sv")
      moreover from this have "\<exists>es. run (serial_step cr) ?c es (interleaved sy')"
        using leave_run [of ?c n se' inp q sv' cr] line(2) run r True
        by (auto simp: on_line_def handle_line_def leave_interleaved dest: own_serial)
      ultimately show ?thesis by (metis run_cons)
    next
      case False
      then have "serial_step cr ?m (AReturn n inp) (interleaved sy')"
        using astep.stays [of ?m n se se' cr inp] r line(2) run
        by (simp add: serial_step_def on_line_def handle_line_def interleaved_at)
      then show ?thesis by (metis run_simps)
    qed
  qed
  ultimately show ?thesis by (metis run_cons run_append)
next
  case (eof n se inp)
  let ?c = "at_conn n (sy_server sy) (Closing se (p_disconnect inp se)) (interleaved sy)"
  obtain q sv where d: "disconnect inp se (sy_server sy) = (q, sv)" by (cases "disconnect inp se (sy_server sy)")
  have "serial_step cr (interleaved sy) (AEof n inp) ?c"
    using astep.eof [of "interleaved sy" n se cr inp] eof by (intro serial_quiet) simp_all
  moreover have "\<exists>es. run (serial_step cr) ?c es (interleaved sy')"
    using leave_run [of ?c n se inp q sv cr] eof(2) d by (auto simp: leave_interleaved dest: own_serial)
  ultimately show ?thesis by (metis run_cons)
next
  case (read_error n se)
  then have "serial_step cr (interleaved sy) (AReadError n) (interleaved sy')"
    using astep.read_error [of "interleaved sy" n se cr]
    by (intro serial_quiet) (simp_all add: drop_conn_def interleaved_at)
  then show ?thesis by (metis run_simps)
next
  case (shut n se inp)
  let ?reason = "q_sent (shuts (sy_server sy) n) ! q_taken (shuts (sy_server sy) n)"
  let ?c = "at_conn n (sy_server sy) (Closing se (p_shutdown inp se ?reason)) (interleaved sy)"
  let ?d = "disconnect inp se (snd (session_send se ('':'' @ SERVER_NAME @ '' ERROR :'' @ ?reason) (sy_server sy)))"
  obtain q sv where d: "?d = (q, sv)" by (cases ?d)
  have "serial_step cr (interleaved sy) (AShut n inp) ?c"
    using astep.shut [of "interleaved sy" n se cr inp] shut by (intro serial_quiet) simp_all
  moreover have "\<exists>es. run (serial_step cr) ?c es (interleaved sy')"
    using closing_run [of ?c n se "p_shutdown inp se ?reason" q sv cr] shut(2) d
    by (auto simp: leave_interleaved exec_shutdown on_shutdown_def dest: own_serial)
  ultimately show ?thesis by (metis run_cons)
next
  case (written n)
  then have "serial_step cr (interleaved sy) (AWritten n) (interleaved sy')"
    using astep.written [of "interleaved sy" n cr]
    by (intro serial_quiet) (simp_all add: interleaved_server)
  then show ?thesis by (metis run_simps)
next
  case (write_error n)
  then have "serial_step cr (interleaved sy) (AWriteError n) (interleaved sy')"
    using astep.write_error [of "interleaved sy" n cr]
    by (intro serial_quiet) (simp_all add: interleaved_server)
  then show ?thesis by (metis run_simps)
qed

lemma run_schedule: "run (sys_step cr) sy evs sy' \<Longrightarrow> \<exists>es. run (serial_step cr) (interleaved sy) es (interleaved sy')"
proof (induction rule: run.induct)
  case (run_nil s)
  show ?case by (metis run.run_nil)
next
  case (run_cons s e t es u)
  with step_schedule [OF run_cons(1)] show ?case by (metis run_append)
qed

subsection \<open>A serial schedule is a run of System\<close>

text \<open>
  What a serial schedule is doing: it is between commands, or inside one whose end is a step
  of System.
\<close>

definition lands :: "crypto \<Rightarrow> system \<Rightarrow> nat \<Rightarrow> session \<Rightarrow> (err + unit) \<times> server \<Rightarrow> bool" where
  "lands cr sy n se out \<longleftrightarrow> (\<exists>ev. sys_step cr sy ev
     \<lparr>sy_server = (case fst out of Inl _ \<Rightarrow> close_shut n (snd out) | Inr _ \<Rightarrow> close_out n (close_shut n (snd out))),
      sy_conns = (sy_conns sy)(n := Gone se)\<rparr>)"

inductive doing :: "crypto \<Rightarrow> system \<Rightarrow> asystem \<Rightarrow> bool" for cr sy where
  rests: "doing cr sy (interleaved sy)"
| works: "sy_conns sy n = Live se \<Longrightarrow>
     exec_prog p sv = handle_command cr inp se (parse_command l) (sy_server sy) \<Longrightarrow>
     doing cr sy (at_conn n sv (Busy se p) (interleaved sy))"
| leaves: "sy_conns sy n = Live se0 \<Longrightarrow> lands cr sy n se (exec_prog p sv) \<Longrightarrow>
     doing cr sy (at_conn n sv (Closing se p) (interleaved sy))"

inductive_cases doing_rests: "doing cr sy (interleaved sy')"

lemma leave_lands: "sys_step cr sy ev (leave_loop inp n se sv sy) \<Longrightarrow> lands cr sy n se (disconnect inp se sv)"
  unfolding lands_def leave_loop_def by (rule exI [of _ ev]) (auto split: prod.splits sum.splits)

lemma command_quits:
  "handle_command cr inp se cmd sv = (Inr (se', True), sv') \<Longrightarrow> cmd = Quit"
  by (cases cmd) (auto simp: if_registered_def run_act elim!: and_then_InrE split: if_splits)


lemma command_quits_run:
  assumes "handle_command cr inp se cmd sv = (Inr (se', True), sv')"
  shows "handle_command cr inp' se cmd sv = (Inr (se', True), sv')"
  using assms command_quits [OF assms] by simp

lemma rests_step:
  assumes "astep cr (interleaved sy) e t"
  shows "\<exists>evs sy'. run (sys_step cr) sy evs sy' \<and> doing cr sy' t"
  using assms
proof (cases rule: astep.cases)
  case (accept n uuid)
  then have "sys_step cr sy (Accept n uuid) (accept_conn n uuid sy)"
    by (intro sys_step.accept) (auto simp: sess_def)
  then have "run (sys_step cr) sy [Accept n uuid] (accept_conn n uuid sy)" by simp
  moreover have "t = interleaved (accept_conn n uuid sy)" using accept(2) by (simp add: accept_interleaved)
  ultimately show ?thesis by (metis rests)
next
  case (line n se inp l)
  then have "doing cr sy t"
    using works [of sy n se "p_command cr inp se (parse_command l)" "sy_server sy" cr inp l]
    by (simp add: exec_command)
  then show ?thesis by (metis run_nil)
next
  case (eof n se inp)
  then have "lands cr sy n se (disconnect inp se (sy_server sy))"
    by (intro leave_lands [OF sys_step.eof]) simp
  then have "doing cr sy t" using eof leaves [of sy n se cr se "p_disconnect inp se" "sy_server sy"] by simp
  then show ?thesis by (metis run_nil)
next
  case (read_error n se)
  then have "sys_step cr sy (ReadError n) (drop_conn n se (sy_server sy) sy)"
    by (intro sys_step.read_error) simp
  then have "run (sys_step cr) sy [ReadError n] (drop_conn n se (sy_server sy) sy)" by simp
  moreover have "t = interleaved (drop_conn n se (sy_server sy) sy)"
    using read_error(2) by (simp add: drop_conn_def interleaved_at)
  ultimately show ?thesis by (metis rests)
next
  case (shut n se inp)
  let ?reason = "q_sent (shuts (sy_server sy) n) ! q_taken (shuts (sy_server sy) n)"
  have "sys_step cr sy (Shut n inp) (on_shutdown inp n se sy)"
    using shut by (intro sys_step.shut) simp_all
  then have "lands cr sy n se (exec_prog (p_shutdown inp se ?reason) (sy_server sy))"
    unfolding on_shutdown_def Let_def exec_shutdown by (rule leave_lands)
  then have "doing cr sy t" using shut leaves [of sy n se cr se "p_shutdown inp se ?reason" "sy_server sy"] by simp
  then show ?thesis by (metis run_nil)
next
  case (written n)
  let ?sy = "sy\<lparr>sy_server := take_out n (sy_server sy)\<rparr>"
  have "sys_step cr sy (Written n) ?sy" using written by (intro sys_step.written) simp_all
  then have "run (sys_step cr) sy [Written n] ?sy" by simp
  moreover have "t = interleaved ?sy" using written(2) by (simp add: interleaved_server)
  ultimately show ?thesis by (metis rests)
next
  case (write_error n)
  let ?sy = "sy\<lparr>sy_server := close_out n (sy_server sy)\<rparr>"
  have "sys_step cr sy (WriteError n) ?sy" using write_error by (intro sys_step.write_error) simp_all
  then have "run (sys_step cr) sy [WriteError n] ?sy" by simp
  moreover have "t = interleaved ?sy" using write_error(2) by (simp add: interleaved_server)
  ultimately show ?thesis by (metis rests)
qed simp_all

lemma works_step:
  assumes n: "sy_conns sy n = Live se" and p: "exec_prog p sv = handle_command cr inp se (parse_command l) (sy_server sy)"
    and st: "astep cr (at_conn n sv (Busy se p) (interleaved sy)) e t" and e: "inside n e"
  shows "\<exists>evs sy'. run (sys_step cr) sy evs sy' \<and> doing cr sy' t"
  using st
proof (cases rule: astep.cases)
  case (busy m se' f sv' p')
  with e n have eq: "m = n" "se' = se" "p = Region f" by auto
  have "exec_prog p' sv' = handle_command cr inp se (parse_command l) (sy_server sy)"
    using p busy(4) eq by simp
  then have "doing cr sy t" using works [OF n] busy(2) eq by simp
  then show ?thesis by (metis run_nil)
next
  case (fails m se' err inp')
  with e n have eq: "m = n" "se' = se" "p = Finished (Inl err)" by auto
  then have "on_line cr inp n se l sy = drop_conn n se sv sy"
    using p by (simp add: on_line_def handle_line_def flip: p)
  then have "run (sys_step cr) sy [Line n inp l] (drop_conn n se sv sy)"
    using sys_step.line [OF n, of cr inp l] by simp
  moreover have "t = interleaved (drop_conn n se sv sy)"
    using fails(2) eq by (simp add: drop_conn_def interleaved_at)
  ultimately show ?thesis by (metis rests)
next
  case (stays m se' se2 inp')
  with e n have eq: "m = n" "se' = se" "p = Finished (Inr (se2, False))" by auto
  let ?sy = "\<lparr>sy_server = sv, sy_conns = (sy_conns sy)(n := Live se2)\<rparr>"
  have "on_line cr inp n se l sy = ?sy" using eq by (simp add: on_line_def handle_line_def flip: p)
  then have "run (sys_step cr) sy [Line n inp l] ?sy" using sys_step.line [OF n, of cr inp l] by simp
  moreover have "t = interleaved ?sy" using stays(2) eq by (simp add: interleaved_at)
  ultimately show ?thesis by (metis rests)
next
  case (quits m se' se2 inp')
  with e n have eq: "m = n" "se' = se" "p = Finished (Inr (se2, True))" by auto
  then have "handle_command cr inp se (parse_command l) (sy_server sy) = (Inr (se2, True), sv)"
    using p by simp
  then have "on_line cr inp' n se l sy = leave_loop inp' n se2 sv sy"
    using command_quits_run [of cr inp se "parse_command l" "sy_server sy" se2 sv inp']
    by (simp add: on_line_def handle_line_def)
  then have "lands cr sy n se2 (disconnect inp' se2 sv)"
    using leave_lands sys_step.line [OF n, of cr inp' l] by metis
  then have "doing cr sy t" using leaves [OF n, of cr se2 "p_disconnect inp' se2" sv] quits(2) eq by simp
  then show ?thesis by (metis run_nil)
qed (use e n in \<open>auto split: if_splits\<close>)

lemma leaves_step:
  assumes n: "sy_conns sy n = Live se0" and p: "lands cr sy n se (exec_prog p sv)"
    and st: "astep cr (at_conn n sv (Closing se p) (interleaved sy)) e t" and e: "inside n e"
  shows "\<exists>evs sy'. run (sys_step cr) sy evs sy' \<and> doing cr sy' t"
  using st
proof (cases rule: astep.cases)
  case (closing m se' f sv' p')
  with e n have eq: "m = n" "se' = se" "p = Region f" by auto
  then have "lands cr sy n se (exec_prog p' sv')" using p closing(4) by simp
  then have "doing cr sy t" using leaves [OF n] closing(2) eq by simp
  then show ?thesis by (metis run_nil)
next
  case (closed m se' r inp')
  with e n have eq: "m = n" "se' = se" "p = Finished r" by auto
  let ?sy = "\<lparr>sy_server = (case r of Inl _ \<Rightarrow> close_shut n sv | Inr _ \<Rightarrow> close_out n (close_shut n sv)),
    sy_conns = (sy_conns sy)(n := Gone se)\<rparr>"
  obtain ev where "sys_step cr sy ev ?sy"
    using p unfolding lands_def eq exec_prog.simps fst_conv snd_conv by (rule exE)
  then have "run (sys_step cr) sy [ev] ?sy" by simp
  moreover have "t = interleaved ?sy" using closed(2) eq by (cases r) (simp_all add: interleaved_at)
  ultimately show ?thesis by (metis rests)
qed (use e n in \<open>auto split: if_splits\<close>)

lemma doing_step:
  assumes "doing cr sy s" "serial_step cr s e t"
  shows "\<exists>evs sy'. run (sys_step cr) sy evs sy' \<and> doing cr sy' t"
  using assms(1)
proof cases
  case rests
  with assms(2) show ?thesis by (intro rests_step) (simp_all add: serial_step_def)
next
  case (works n se p sv inp l)
  have "inside n e" using assms(2) works(1) by (simp add: serial_step_def split: if_splits)
  with works assms(2) show ?thesis by (metis works_step serial_step_def)
next
  case (leaves n se0 se p sv)
  have "inside n e" using assms(2) leaves(1) by (simp add: serial_step_def split: if_splits)
  with leaves assms(2) show ?thesis by (metis leaves_step serial_step_def)
qed

lemma doing_run:
  "run (serial_step cr) s es t \<Longrightarrow> doing cr sy s \<Longrightarrow> \<exists>evs sy'. run (sys_step cr) sy evs sy' \<and> doing cr sy' t"
proof (induction arbitrary: sy rule: run.induct)
  case (run_nil s)
  then show ?case by (metis run.run_nil)
next
  case (run_cons s e t es u)
  with doing_step [OF run_cons.prems run_cons(1)] show ?case by (metis run_append)
qed

lemma doing_interleaved:
  assumes "doing cr sy (interleaved sy')"
  shows "sy' = sy"
proof -
  have between: "between (as_conns (interleaved sy') n)" for n by simp
  show ?thesis
  proof (rule doing_rests [OF assms])
    show "interleaved sy' = interleaved sy \<Longrightarrow> sy' = sy" by (rule interleaved_inj)
  next
    fix n sv se p assume "interleaved sy' = at_conn n sv (Busy se p) (interleaved sy)"
    then show "sy' = sy" using between [of n] by simp
  next
    fix n sv se p assume "interleaved sy' = at_conn n sv (Closing se p) (interleaved sy)"
    then show "sy' = sy" using between [of n] by simp
  qed
qed

end
