(* ===== verification/Interleave.thy ===== *)
theory Interleave
  imports Guarantees Serial
begin

section \<open>What holds however the handlers interleave\<close>

text \<open>
  Every region of every handler keeps the invariant of the database and moves it forward in the
  preorder \<open>advances\<close> (the log grows, done tasks stay done, cursors do not go back). The
  interpretation of the interface \<open>rely\<close> makes that stable under the regions of the other
  connections: \<open>pool_ok\<close> is an invariant of the interleaved step relation.
\<close>

subsection \<open>What every region respects\<close>

definition advances :: "db \<Rightarrow> db \<Rightarrow> bool" where
  "advances d e \<longleftrightarrow> prefix (messages d) (messages e)
     \<and> (\<forall>t. task_phase t d = Done \<longrightarrow> task_phase t e = Done)
     \<and> (\<forall>p c y. cursor p c e = Some y \<longrightarrow>
          (case cursor p c d of
             Some x \<Rightarrow> x \<le> y
           | None \<Rightarrow> \<forall>m \<in> set (channel_messages c d). sm_seq m \<le> y))"

lemma channel_messages_prefix: "prefix (messages d) (messages e) \<Longrightarrow> set (channel_messages c d) \<subseteq> set (channel_messages c e)"
  by (auto simp: channel_messages_def prefix_def)

lemma cursor_logged:
  assumes "db_wf d" "cursor p c d = Some x"
  shows "x \<in> insert 0 (sm_seq ` set (channel_messages c d)) \<and> 0 \<le> x"
proof -
  from assms(2) obtain m where m: "row_of member_key (channel_memberships d) (p, c) = Some m"
      "x = m_last_seen_seq m" by (auto simp: cursor_def)
  then have "x \<in> insert 0 (sm_seq ` set (channel_messages c d))"
    using assms(1) memb.row_of_Some [OF m(1)] by (auto simp: db_wf_def cursors_wf_def member_key_def)
  with assms(1) show ?thesis by (auto simp: db_wf_def log_wf_def channel_messages_def)
qed

lemma advances_refl: "advances d d"
  by (auto simp: advances_def split: option.split)

lemma advances_trans:
  assumes wf: "db_wf d" "db_wf e" "db_wf f" and de: "advances d e" and ef: "advances e f"
  shows "advances d f"
proof -
  have pre: "prefix (messages d) (messages e)" "prefix (messages e) (messages f)"
    using de ef by (simp_all add: advances_def)
  have "case cursor p c d of Some x \<Rightarrow> x \<le> z | None \<Rightarrow> \<forall>m \<in> set (channel_messages c d). sm_seq m \<le> z"
    if z: "cursor p c f = Some z" for p c z
  proof (cases "cursor p c e")
    case None
    then have up: "\<forall>m \<in> set (channel_messages c d). sm_seq m \<le> z"
      using ef z channel_messages_prefix [OF pre(1), of c] by (fastforce simp: advances_def)
    have "0 \<le> z" using cursor_logged [OF wf(3) z] by simp
    with up cursor_logged [OF wf(1), of p c] show ?thesis by (cases "cursor p c d") auto
  next
    case (Some y)
    then have "y \<le> z" using ef z by (fastforce simp: advances_def)
    with Some de show ?thesis by (cases "cursor p c d") (fastforce simp: advances_def)+
  qed
  with de ef pre show ?thesis by (auto simp: advances_def intro: prefix_order.trans)
qed

lemma advances_frame:
  assumes "messages e = messages d" "tasks e = tasks d"
    and "\<And>p c y. cursor p c e = Some y \<Longrightarrow> \<exists>x. cursor p c d = Some x \<and> x \<le> y"
  shows "advances d e"
  using assms(1,3) task_phase_cong [OF assms(2)] by (fastforce simp: advances_def)

lemma advances_same_members:
  assumes "prefix (messages d) (messages e)" "tasks e = tasks d" "channel_memberships e = channel_memberships d"
  shows "advances d e"
  using assms(1) cursor_cong [OF assms(3)] task_phase_cong [OF assms(2)]
  by (auto simp: advances_def split: option.split)

lemma advances_writes:
  "db_wf d \<Longrightarrow> advances d (mark_seen p c s d)"
  "db_wf d \<Longrightarrow> advances d (remove_membership p c d)"
  "advances d (update_principals P f d)"
  "db_wf d \<Longrightarrow> advances d (add_membership now p c d)"
proof -
  show "advances d (mark_seen p c s d)"
    by (rule advances_frame) (auto simp: cursor_mark_seen split: if_splits)
  show "advances d (remove_membership p c d)" if "db_wf d"
    using that cursor_remove_membership [of d _ _ p c]
    by (intro advances_frame) (auto simp: remove_membership_def db_wf_def split: if_splits)
  show "advances d (update_principals P f d)"
    by (rule advances_same_members) simp_all
  have top: "sm_seq m \<le> current_channel_seq e d" if "m \<in> set (channel_messages e d)" for m e
    using that coalesce_max_ge by (simp add: current_channel_seq_def)
  show "advances d (add_membership now p c d)"
    unfolding advances_def
  proof (intro conjI allI impI)
    show "prefix (messages d) (messages (add_membership now p c d))" by (simp add: add_membership_def)
    show "task_phase t (add_membership now p c d) = Done" if "task_phase t d = Done" for t
      using that task_phase_cong [of "add_membership now p c d" d t] by (simp add: add_membership_def)
    fix q e y assume "cursor q e (add_membership now p c d) = Some y"
    then show "case cursor q e d of Some x \<Rightarrow> x \<le> y | None \<Rightarrow> \<forall>m \<in> set (channel_messages e d). sm_seq m \<le> y"
      using top by (auto simp: cursor_add_membership split: if_splits option.splits)
  qed
qed

lemma advances_marks: "advances d (mark_connected now p d)" "advances d (mark_disconnected now p d)"
  by (simp_all add: mark_connected_def mark_disconnected_def advances_writes)

lemma advances_append: "advances d (snd (history_append u now ch s b d))"
proof -
  obtain r e where run: "history_append u now ch s b d = (r, e)" by (cases "history_append u now ch s b d")
  have fr: "e = d\<lparr>messages := messages e, messages_seq := messages_seq e\<rparr>" by (rule history_append_frame [OF run])
  have "tasks e = tasks d" "channel_memberships e = channel_memberships d" by (subst fr, simp)+
  then show ?thesis using append_prefix [of d u now ch s b] run by (intro advances_same_members) simp_all
qed

lemma advances_tasks:
  assumes "db_wf d"
  shows "advances d (snd (task_db x d))"
proof -
  have fr: "snd (task_db x d) = d\<lparr>tasks := tasks (snd (task_db x d))\<rparr>"
    by (cases x) (simp, metis tasks_frame prod.collapse)+
  have same: "messages (snd (task_db x d)) = messages d"
    "channel_memberships (snd (task_db x d)) = channel_memberships d" by (subst fr, simp)+
  have "task_phase t (snd (task_db x d)) = Done" if "task_phase t d = Done" for t
    using lease.step_Done [of d t x] assms that by (simp add: db_wf_def task_step_db snd_succeeded)
  then show ?thesis
    using same cursor_cong [OF same(2)] by (auto simp: advances_def split: option.split)
qed

interpretation il: rely sv_wf "\<lambda>s t. advances (sv_db s) (sv_db t)"
  by unfold_locales (auto intro: advances_refl advances_trans simp: sv_wf_def)


subsection \<open>Every handler is safe\<close>

named_theorems safe_rules \<open>rules that show a program respects the invariant and the order\<close>

text \<open>A message of the channel with this number is in the log; it stays there.\<close>

definition logged :: "string \<Rightarrow> int \<Rightarrow> server \<Rightarrow> bool" where
  "logged c n sv \<longleftrightarrow> n \<in> sm_seq ` set (channel_messages c (sv_db sv))"

lemma logged_later: "logged c n s \<Longrightarrow> advances (sv_db s) (sv_db t) \<Longrightarrow> logged c n t"
  using channel_messages_prefix by (fastforce simp: logged_def advances_def)

abbreviation "safe_prog p \<equiv> il.safe p (\<lambda>_ _. True)"

lemma safe_now [safe_rules]:
  "safe_prog (pret x) s" "safe_prog (praise e) s" "safe_prog (plift r) s"
  by (auto simp: pret_def praise_def plift_def split: sum.split)

lemma safe_seq [safe_rules]:
  "safe_prog p s \<Longrightarrow> sv_wf s \<Longrightarrow> (\<And>x t. sv_wf t \<Longrightarrow> advances (sv_db s) (sv_db t) \<Longrightarrow> safe_prog (k x) t) \<Longrightarrow>
   safe_prog (pbind p k) s"
  by (rule il.safe_bind)

lemma safe_alt [safe_rules]:
  "safe_prog p s \<Longrightarrow> sv_wf s \<Longrightarrow> (\<And>x t. sv_wf t \<Longrightarrow> advances (sv_db s) (sv_db t) \<Longrightarrow> safe_prog (k x) t) \<Longrightarrow>
   (\<And>e t. sv_wf t \<Longrightarrow> advances (sv_db s) (sv_db t) \<Longrightarrow> safe_prog (err e) t) \<Longrightarrow>
   safe_prog (pcatch p err k) s"
  by (rule il.safe_catch)

lemma safe_loop [safe_rules]:
  "sv_wf s \<Longrightarrow> (\<And>x t. x \<in> set xs \<Longrightarrow> sv_wf t \<Longrightarrow> advances (sv_db s) (sv_db t) \<Longrightarrow> safe_prog (body x) t) \<Longrightarrow>
   safe_prog (pfor xs body) s"
  by (rule il.safe_for)

lemma safe_split [safe_rules]:
  "(b \<Longrightarrow> safe_prog p s) \<Longrightarrow> (\<not> b \<Longrightarrow> safe_prog q s) \<Longrightarrow> safe_prog (if b then p else q) s"
  "(x = None \<Longrightarrow> safe_prog p s) \<Longrightarrow> (\<And>y. x = Some y \<Longrightarrow> safe_prog (k y) s) \<Longrightarrow>
     safe_prog (case x of None \<Rightarrow> p | Some y \<Rightarrow> k y) s"
  "(\<And>e. z = Inl e \<Longrightarrow> safe_prog (g e) s) \<Longrightarrow> (\<And>w. z = Inr w \<Longrightarrow> safe_prog (h w) s) \<Longrightarrow>
     safe_prog (case z of Inl e \<Rightarrow> g e | Inr w \<Rightarrow> h w) s"
  by (auto split: option.split sum.split)

text \<open>A region that leaves the database alone, and one that writes it.\<close>

lemma safe_off_db:
  assumes "\<And>t. sv_db (snd (m t)) = sv_db t"
  shows "safe_prog (region m) s"
  by (rule il.safe_region) (use assms in \<open>simp_all add: advances_refl sv_wf_def\<close>)

lemma safe_on_db:
  assumes "keeps db_wf m" "\<And>d. db_wf d \<Longrightarrow> advances d (snd (m d))"
  shows "safe_prog (region (on_db m)) s"
proof (rule il.safe_region)
  fix t assume "sv_wf t"
  then show "sv_wf (snd (on_db m t)) \<and> advances (sv_db t) (sv_db (snd (on_db m t)))"
    using assms keepsD [OF keeps_on_db [OF assms(1)]] by (simp add: on_db_def split_def sv_wf_def)
qed simp

lemma safe_write:
  "(\<And>d. db_wf d \<Longrightarrow> db_wf (f d)) \<Longrightarrow> (\<And>d. db_wf d \<Longrightarrow> advances d (f d)) \<Longrightarrow> safe_prog (region (on_db (modify f))) s"
  by (rule safe_on_db) (auto intro: keeps_modify simp: run_modify)

lemma safe_reads [safe_rules]: "safe_prog (region (reads f)) s"
  by (rule safe_off_db) (simp add: run_act)

lemma safe_send [safe_rules]: "safe_prog (region (send_out n line)) s" "safe_prog (p_send se line) s"
  "safe_prog (region (cap se sub caps)) s" "safe_prog (region (task_failed se p v a tid e)) s"
  unfolding p_send_def
  by (rule safe_off_db, simp add: send_out_run session_send_run cap_def task_failed_def Let_def run_act)+

lemma safe_inner [safe_rules]: "safe_prog (region (on_inner f)) s" "safe_prog (region (take_over p se cs)) s"
  "safe_prog (region (count_hit p)) s"
  by (rule safe_off_db,
      simp add: on_inner_run take_over_run count_hit_def split: prod.split sum.split)+

lemma safe_members [safe_rules]:
  "safe_prog (region (on_db (modify (add_membership now p c)))) s"
  "safe_prog (region (on_db (modify (remove_membership p c)))) s"
  "safe_prog (region (on_db (modify (mark_disconnected now p)))) s"
  by (rule safe_write, simp_all add: db_wf_add_membership db_wf_remove_membership db_wf_connect advances_marks
      advances_writes)+

lemma safe_connected [safe_rules]: "safe_prog (region (on_db (mark_connected_and_memberships now p))) s"
  by (rule safe_on_db)
     (auto simp: mark_connected_and_memberships_def and_then_modify run_act advances_marks
       intro!: keeps_rules db_wf_connect)

lemma safe_task_ops [safe_rules]: "safe_prog (region (on_db (task_db x))) s"
  by (rule safe_on_db, cases x) (simp_all add: keeps_db_wf_tasks advances_tasks)

lemmas safe_task_db [safe_rules] = safe_task_ops [of "OpCreate u now ch title" for u now ch title, simplified]
  safe_task_ops [of "OpDone now tid p" for now tid p, simplified]
  safe_task_ops [of "OpRelease now tid p" for now tid p, simplified]

lemma safe_claim [safe_rules]:
  "safe_prog (region (\<lambda>sv. on_db (tasks_claim (sv_lease_seconds sv) now tid p) sv)) s"
proof (rule il.safe_region)
  fix t assume "sv_wf t"
  then show "sv_wf (snd (on_db (tasks_claim (sv_lease_seconds t) now tid p) t))
      \<and> advances (sv_db t) (sv_db (snd (on_db (tasks_claim (sv_lease_seconds t) now tid p) t)))"
    using keepsD [OF keeps_db_wf_tasks(2)] advances_tasks [of "sv_db t" "OpClaim (sv_lease_seconds t) now tid p"]
    by (simp add: on_db_def split_def sv_wf_def)
qed simp

text \<open>A mark needs its message in the log.\<close>

lemma safe_seen:
  assumes "logged c n s"
  shows "safe_prog (region (on_db (modify (mark_seen p c n)))) s"
proof (rule il.safe_region)
  fix t assume t: "sv_wf t" "advances (sv_db s) (sv_db t)"
  then show "sv_wf (snd (on_db (modify (mark_seen p c n)) t))
      \<and> advances (sv_db t) (sv_db (snd (on_db (modify (mark_seen p c n)) t)))"
    using db_wf_mark_seen [of "sv_db t" n c p] logged_later [OF assms t(2)]
    by (simp add: on_db_modify sv_wf_def logged_def advances_writes)
qed simp

lemma safe_broadcast:
  assumes "sv_wf s" "logged c n s"
  shows "safe_prog (p_broadcast_message c line n) s"
  unfolding p_broadcast_message_def p_deliver_def
  using assms by (intro safe_rules safe_seen | blast intro: logged_later advances_trans)+


lemma safe_append:
  "il.safe (region (on_db (history_append u now c se b))) (\<lambda>m. logged c (sm_seq m)) s"
proof (rule il.safe_region)
  fix t assume t: "sv_wf t"
  obtain r d where run: "history_append u now c se b (sv_db t) = (r, d)"
    by (cases "history_append u now c se b (sv_db t)")
  show "sv_wf (snd (on_db (history_append u now c se b) t))
      \<and> advances (sv_db t) (sv_db (snd (on_db (history_append u now c se b) t)))"
    using db_wf_append [OF _ run] advances_append [of "sv_db t" u now c se b] t run
    by (simp add: on_db_def sv_wf_def)
next
  fix t m u' v
  assume t: "sv_wf t" and run: "on_db (history_append u now c se b) t = (Inr m, u')"
    and v: "sv_wf v" "advances (sv_db u') (sv_db v)"
  have "history_append u now c se b (sv_db t) = (Inr m, sv_db u')"
    using run by (auto simp: on_db_def split: prod.splits)
  then have "logged c (sm_seq m) u'"
    using channel_messages_append [of "sv_db t" u now c se b m "sv_db u'" c] t
    by (simp add: logged_def sv_wf_def db_wf_def)
  then show "logged c (sm_seq m) v" using v(2) by (rule logged_later)
qed

lemma safe_post:
  assumes "sv_wf s"
  shows "safe_prog (pbind (region (on_db (history_append u now c se b)))
    (\<lambda>m. p_broadcast_message c (line m) (sm_seq m))) s"
  by (rule il.safe_bind [OF safe_append assms safe_broadcast])

lemma safe_history:
  "il.safe (region (reads (\<lambda>sv. history_after c a l (sv_db sv))))
     (\<lambda>ms t. \<forall>m \<in> set ms. logged c (sm_seq m) t) s"
proof (rule il.safe_region)
  fix t u v :: server and ms
  assume t: "sv_wf t" and run: "reads (\<lambda>sv. history_after c a l (sv_db sv)) t = (Inr ms, u)"
    and v: "advances (sv_db u) (sv_db v)"
  have "\<forall>m \<in> set ms. logged c (sm_seq m) u"
    using run t history_after_facts(2) [of "sv_db t"]
    by (fastforce simp: run_act logged_def sv_wf_def db_wf_def)
  with v show "\<forall>m \<in> set ms. logged c (sm_seq m) v" using logged_later by blast
qed (simp add: run_act advances_refl)

lemma fold_max_logged:
  "\<forall>m \<in> set ms. logged c (sm_seq m) s \<Longrightarrow> a < fold (\<lambda>m x. max x (sm_seq m)) ms a \<Longrightarrow>
   logged c (fold (\<lambda>m x. max x (sm_seq m)) ms a) s"
proof (induction ms arbitrary: a rule: rev_induct)
  case (snoc m ms)
  then show ?case by (auto simp: max_def split: if_splits)
qed simp

lemma safe_replay_channel: "sv_wf s \<Longrightarrow> safe_prog (p_replay_channel se p a l c) s"
  unfolding p_replay_channel_def Let_def
proof (rule il.safe_bind [OF safe_history])
  fix ms :: "stored_message list" and t
  assume t: "sv_wf t" and ms: "\<forall>m \<in> set ms. logged c (sm_seq m) t"
  show "safe_prog (pbind (pfor ms (p_replay_message se))
      (\<lambda>_. if a < fold (\<lambda>m x. max x (sm_seq m)) ms a
           then region (on_db (modify (mark_seen p c (fold (\<lambda>m x. max x (sm_seq m)) ms a)))) else pret ())) t"
  proof (rule il.safe_bind [where P = "\<lambda>_ _. True"])
    show "safe_prog (pfor ms (p_replay_message se)) t"
      unfolding p_replay_message_def using t by (intro safe_rules)
    fix u :: server assume "advances (sv_db t) (sv_db u)"
    then have "\<forall>m \<in> set ms. logged c (sm_seq m) u" using ms logged_later by blast
    then show "safe_prog (if a < fold (\<lambda>m x. max x (sm_seq m)) ms a
           then region (on_db (modify (mark_seen p c (fold (\<lambda>m x. max x (sm_seq m)) ms a)))) else pret ()) u"
      by (intro safe_rules safe_seen fold_max_logged)
  qed (rule t)
qed

lemma safe_replay: "sv_wf s \<Longrightarrow> safe_prog (p_replay_history se cs a l) s"
  unfolding p_replay_history_def by (intro safe_rules safe_replay_channel | assumption)+

lemma safe_try_register: "sv_wf s \<Longrightarrow> safe_prog (p_try_register cr inp se) s"
  unfolding p_try_register_def p_authenticate_def p_register_def Let_def
  by (intro safe_rules safe_replay | assumption)+

lemma safe_posts:
  "sv_wf s \<Longrightarrow> safe_prog (p_broadcast_task_event inp t action status actor b) s"
  "sv_wf s \<Longrightarrow> safe_prog (p_privmsg inp se c b) s"
proof -
  show "sv_wf s \<Longrightarrow> safe_prog (p_broadcast_task_event inp t action status actor b) s"
    unfolding p_broadcast_task_event_def by (rule safe_post)
  assume s: "sv_wf s"
  show "safe_prog (p_privmsg inp se c b) s"
    unfolding p_privmsg_def
    by (rule safe_seq, rule safe_now, rule s, rule safe_seq, rule safe_reads, assumption, rule safe_split,
        rule safe_send, rule safe_post, assumption)
qed

lemma safe_handlers:
  assumes "sv_wf s"
  shows "safe_prog (p_join inp se c) s" "safe_prog (p_part se c) s"
    "safe_prog (p_task_create inp se c b) s" "safe_prog (p_task_claim inp se b) s"
    "safe_prog (p_task_done inp se b) s" "safe_prog (p_task_release inp se b) s" "safe_prog (p_task_list se c) s"
    "safe_prog (p_chathistory se ch a l) s"
  unfolding p_join_def p_part_def p_broadcast_raw_def p_task_create_def p_task_claim_def
    p_task_done_def p_task_release_def p_task_list_def p_chathistory_def
  by (insert assms, (intro safe_rules safe_replay safe_posts | assumption)+)

lemma safe_disconnect: "sv_wf s \<Longrightarrow> safe_prog (p_disconnect inp se) s"
proof -
  have "safe_prog (region (remove_own p se)) t" for p t
    by (rule safe_off_db) (simp add: remove_own_def act_simps and_then_def on_inner_run run_act)
  then show "sv_wf s \<Longrightarrow> safe_prog (p_disconnect inp se) s"
    unfolding p_disconnect_def by (intro safe_rules | assumption)+
qed

lemma safe_if_registered:
  "sv_wf s \<Longrightarrow> (\<And>t. sv_wf t \<Longrightarrow> safe_prog p t) \<Longrightarrow> safe_prog (p_if_registered se p) s"
  unfolding p_if_registered_def p_ensure_registered_def by (intro safe_rules | assumption)+

lemma safe_command: "sv_wf s \<Longrightarrow> safe_prog (p_command cr inp se cmd) s"
  unfolding p_command_def
  by (cases cmd; simp only: command.case)
     (intro safe_rules safe_try_register safe_if_registered safe_handlers safe_posts | assumption)+

subsection \<open>The pool of connections\<close>

fun conn_safe :: "server \<Rightarrow> aconn \<Rightarrow> bool" where
  "conn_safe sv (Busy se p) = safe_prog p sv"
| "conn_safe sv (Closing se p) = safe_prog p sv"
| "conn_safe sv _ = True"

definition pool_ok :: "asystem \<Rightarrow> bool" where
  "pool_ok s \<longleftrightarrow> sv_wf (as_server s) \<and> (\<forall>n. conn_safe (as_server s) (as_conns s n))"

lemma pool_wf: "pool_ok s \<Longrightarrow> sv_wf (as_server s)"
  by (simp add: pool_ok_def)

lemma conn_safe_later:
  assumes "conn_safe s c" "sv_wf s" "sv_wf t" "advances (sv_db s) (sv_db t)"
  shows "conn_safe t c"
  using assms by (cases c) (auto intro: il.safe_later)

lemma pool_move:
  assumes ok: "pool_ok s" and sv: "sv_wf sv" "advances (sv_db (as_server s)) (sv_db sv)" and c: "conn_safe sv c"
  shows "pool_ok (at_conn n sv c s)"
  using assms conn_safe_later [OF _ _ sv] by (auto simp: pool_ok_def)

lemma pool_still:
  assumes "pool_ok s" "sv_db sv = sv_db (as_server s)" "conn_safe sv c"
  shows "pool_ok (at_conn n sv c s)"
  using assms by (intro pool_move) (simp_all add: advances_refl pool_ok_def sv_wf_def)

lemma pool_server:
  assumes "pool_ok s" "sv_db sv = sv_db (as_server s)"
  shows "pool_ok (s\<lparr>as_server := sv\<rparr>)"
proof -
  have "at_conn 0 sv (as_conns s 0) s = s\<lparr>as_server := sv\<rparr>" by (simp add: at_conn_def)
  moreover have "conn_safe sv (as_conns s 0)"
    using assms conn_safe_later [of "as_server s" "as_conns s 0" sv]
    by (simp add: pool_ok_def sv_wf_def advances_refl)
  ultimately show ?thesis using pool_still [OF assms] by metis
qed

lemma region_safe:
  assumes "safe_prog (Region f) sv" "sv_wf sv" "f sv = (sv', p)"
  shows "sv_wf sv' \<and> advances (sv_db sv) (sv_db sv') \<and> safe_prog p sv'"
  using assms by (auto simp: il.safe_Region advances_refl simp del: il.safe.simps(2))

lemma new_stream_db: "sv_db (new_stream n uuid sv) = sv_db sv"
  by (simp add: new_stream_def session_send_run)

lemma safe_shutdown: "sv_wf s \<Longrightarrow> safe_prog (p_shutdown inp se r) s"
  unfolding p_shutdown_def by (intro safe_rules safe_disconnect | assumption)+

lemma astep_ok:
  assumes "astep cr s e t" "pool_ok s"
  shows "pool_ok t \<and> advances (sv_db (as_server s)) (sv_db (as_server t))"
  using assms
proof (induction rule: astep.induct)
  case (busy s n se f sv p)
  then have "conn_safe (as_server s) (Busy se (Region f))" "sv_wf (as_server s)" by (metis pool_ok_def)+
  with region_safe [of f "as_server s" sv p] busy show ?case by (auto intro!: pool_move simp del: il.safe.simps)
next
  case (closing s n se f sv p)
  then have "conn_safe (as_server s) (Closing se (Region f))" "sv_wf (as_server s)" by (metis pool_ok_def)+
  with region_safe [of f "as_server s" sv p] closing show ?case by (auto intro!: pool_move simp del: il.safe.simps)
next
  case (closed s n se r inp)
  then show ?case by (cases r) (auto intro!: pool_still simp: advances_refl)
qed (auto intro!: pool_still pool_server simp: new_stream_db advances_refl pool_wf
       safe_command safe_disconnect safe_shutdown)

definition quiet_start :: "asystem \<Rightarrow> bool" where
  "quiet_start s \<longleftrightarrow> (\<exists>sy. starts sy \<and> s = interleaved sy)"

interpretation pool: transition_system quiet_start "astep cr" pool_ok for cr
  by unfold_locales
     (auto simp: quiet_start_def starts_def sys_start_def server_new_def pool_ok_def sv_wf_def dest: astep_ok)

lemma pool_ok_interleaved: "sys_ok sy \<Longrightarrow> pool_ok (interleaved sy)"
  by (simp add: sys_ok_def pool_ok_def) (metis aconn_of.elims conn_safe.simps(3-5))

lemma run_advances:
  assumes "run (astep cr) s es t" "pool_ok s"
  shows "pool_ok t \<and> advances (sv_db (as_server s)) (sv_db (as_server t))"
  using assms
proof (induction rule: run.induct)
  case (run_nil s)
  then show ?case by (simp add: advances_refl)
next
  case (run_cons s e t es u)
  have t: "pool_ok t" "advances (sv_db (as_server s)) (sv_db (as_server t))"
    using astep_ok [OF run_cons(1,4)] by simp_all
  have u: "pool_ok u" "advances (sv_db (as_server t)) (sv_db (as_server u))"
    using run_cons.IH t(1) by simp_all
  with t advances_trans [of "sv_db (as_server s)" "sv_db (as_server t)" "sv_db (as_server u)"] run_cons.prems
  show ?case by (simp add: pool_ok_def sv_wf_def)
qed

end
