(* ===== verification/Races.thy ===== *)
theory Races
  imports Demo Interleave
begin

section \<open>Interleaved handlers: what holds, and two races\<close>

text \<open>
  The properties of the interleaved step relation: what every schedule respects, that the serial
  schedules are the runs of theory System, and two schedules whose outcome no serial one has. In
  the first a message is stored, then a later one is stored and delivered, and its receiver
  leaves before the earlier one is broadcast: the cursor has passed it. In the second an old
  session parts while the new one is registering.
\<close>

subsection \<open>Every schedule\<close>

text \<open>C34. However the lock regions of the handlers of all connections interleave, from any start on
  a database that is in order: the invariant of the database holds at every moment, also in the
  middle of handlers, and between any two moments the message log only grew at its end, finished
  tasks stayed finished, and no cursor went back (a member that left and joined again starts
  no earlier than the last message there was).\<close>

theorem interleaving_safe:
  assumes "quiet_start s0" and "run (astep cr) s0 es s" and "run (astep cr) s es' t"
  shows "sv_wf (as_server t) \<and> advances (sv_db (as_server s)) (sv_db (as_server t))"
  using run_advances [OF assms(3) pool.reach_inv [OF assms(1,2)]] by (simp add: pool_wf)

theorem interleaving_safe_witness:
  "\<exists>s es t. run (astep demo_crypto) s es t \<and> as_conns t 0 \<noteq> as_conns s 0
    \<and> sv_wf (as_server t) \<and> advances (sv_db (as_server s)) (sv_db (as_server t))"
proof -
  let ?start = "interleaved (sys_start None demo_db)"
  let ?s = "at_conn 0 (new_stream 0 ''u'' (as_server ?start)) (Ready (new_session 0 ''u'')) ?start"
  let ?t = "at_conn 0 (as_server ?s) (Busy (new_session 0 ''u'')
     (p_command demo_crypto demo_inputs (new_session 0 ''u'') (parse_command ''USER a''))) ?s"
  have "quiet_start ?start" using demo_db_wf by (auto simp: quiet_start_def starts_def)
  moreover have "run (astep demo_crypto) ?start [AAccept 0 ''u''] ?s"
    using astep.accept [of ?start 0 "''u''" demo_crypto] by (auto simp: sys_start_def)
  moreover have t: "run (astep demo_crypto) ?s [ALine 0 demo_inputs ''USER a''] ?t"
    using astep.line [of ?s 0 "new_session 0 ''u''" demo_crypto demo_inputs "''USER a''"] by auto
  ultimately have "sv_wf (as_server ?t) \<and> advances (sv_db (as_server ?s)) (sv_db (as_server ?t))"
    by (rule interleaving_safe)
  moreover have "as_conns ?t 0 \<noteq> as_conns ?s 0" by simp
  ultimately show ?thesis using t by blast
qed

text \<open>C35. Treating a handler as one step loses nothing but the interleavings: the runs of theory
  System between two states are exactly the schedules between them in which no other connection
  moves while one is inside a command or leaving.\<close>

theorem serial_is_atomic:
  "(\<exists>evs. run (sys_step cr) sy evs sy') \<longleftrightarrow> (\<exists>es. run (serial_step cr) (interleaved sy) es (interleaved sy'))"
  using run_schedule doing_run [OF _ doing.rests] doing_interleaved by blast

subsection \<open>Moving along a schedule\<close>

text \<open>All the regions of one command, by one connection.\<close>

lemma command_run:
  assumes "as_conns s n = Ready se" "handle_command cr inp se (parse_command l) (as_server s) = (Inr (se', False), sv)"
  shows "\<exists>es. run (astep cr) s es (at_conn n sv (Ready se') s)"
proof -
  let ?b = "at_conn n (as_server s) (Busy se (p_command cr inp se (parse_command l))) s"
  obtain es where es: "run (own_step cr n) ?b es (at_conn n sv (Busy se (Finished (Inr (se', False)))) ?b)"
    using busy_run [of ?b n se "p_command cr inp se (parse_command l)" "Inr (se', False)" sv cr] assms(2)
    by (auto simp: exec_command)
  have "astep cr s (ALine n inp l) ?b" by (rule astep.line) (rule assms(1))
  moreover have "astep cr (at_conn n sv (Busy se (Finished (Inr (se', False)))) s) (AReturn n inp) (at_conn n sv (Ready se') s)"
    using astep.stays [of "at_conn n sv (Busy se (Finished (Inr (se', False)))) s" n se se' cr inp] by simp
  moreover note own_astep [OF es]
  ultimately show ?thesis
    by (intro exI [of _ "ALine n inp l # es @ [AReturn n inp]"]) (auto simp: run_append)
qed

text \<open>The rest of a command of which some regions have run.\<close>

lemma rest_run:
  assumes "as_conns s n = Busy se p" "exec_prog p (as_server s) = (Inr (se', False), sv)"
  shows "\<exists>es. run (astep cr) s es (at_conn n sv (Ready se') s)"
proof -
  obtain es where es: "run (own_step cr n) s es (at_conn n sv (Busy se (Finished (Inr (se', False)))) s)"
    using busy_run [OF assms] by blast
  have "astep cr (at_conn n sv (Busy se (Finished (Inr (se', False)))) s) (AReturn n undefined) (at_conn n sv (Ready se') s)"
    using astep.stays [of "at_conn n sv (Busy se (Finished (Inr (se', False)))) s" n se se' cr] by simp
  with own_astep [OF es] show ?thesis
    by (intro exI [of _ "es @ [AReturn n undefined]"]) (auto simp: run_append)
qed

lemma eof_run:
  assumes "as_conns s n = Ready se"
  shows "\<exists>es. run (astep cr) s es
    (at_conn n (close_out n (close_shut n (snd (disconnect inp se (as_server s))))) (Ended se) s)"
proof -
  let ?c = "at_conn n (as_server s) (Closing se (p_disconnect inp se)) s"
  have "astep cr s (AEof n inp) ?c" by (rule astep.eof) (rule assms)
  moreover obtain es where "run (own_step cr n) ?c es
      (at_conn n (close_out n (close_shut n (snd (disconnect inp se (as_server s))))) (Ended se) s)"
    using leave_run [of ?c n se inp "Inr ()" "snd (disconnect inp se (as_server s))" cr] by (auto simp: disconnect_run)
  ultimately show ?thesis by (metis own_astep run_cons)
qed

lemma own_reach: "\<exists>es. run (own_step cr n) s es t \<Longrightarrow> \<exists>es. run (astep cr) s es t"
  using own_astep by blast

lemma reach_trans:
  "\<exists>es. run step s es t \<Longrightarrow> \<exists>es. run step t es u \<Longrightarrow> \<exists>es. run step s es u"
  using run_append by metis

lemma line_run:
  assumes "as_conns s n = Ready se" "parse_command l = cmd"
  shows "\<exists>es. run (astep cr) s es (at_conn n (as_server s) (Busy se (p_command cr inp se cmd)) s)"
  using astep.line [OF assms(1), of cr inp l] assms(2) by (metis run_simps)

lemma exec_guard:
  assumes "guard_ok se sv"
  shows "exec_prog (p_ensure_registered se) sv = (Inr True, sv)"
  using assms
  by (auto simp: guard_ok_def ensure_registered_def session_principal_def act_simps)

text \<open>A PRIVMSG up to the point where its message is stored.\<close>

definition post_rest :: "session \<Rightarrow> principal \<Rightarrow> string \<Rightarrow> string \<Rightarrow> stored_message \<Rightarrow> (session \<times> bool) handler" where
  "post_rest se p c body m = pbind (p_broadcast_message c (message_line p c body m) (sm_seq m)) (\<lambda>_. pret (se, False))"

lemma bind_then:
  assumes "\<exists>es. run (astep cr) s es (at_conn n sv (Busy se p) s0)" "p = pbind q k"
    and "exec_prog q sv = (Inr x, sv')"
  shows "\<exists>es. run (astep cr) s es (at_conn n sv' (Busy se (k x)) s0)"
proof -
  have "\<exists>es. run (own_step cr n) (at_conn n sv (Busy se p) s0) es
      (at_conn n sv' (Busy se (k x)) (at_conn n sv (Busy se p) s0))"
    by (rule bind_run [where p = q]) (simp_all add: assms(2,3))
  with assms(1) show ?thesis by (auto dest: own_astep intro: reach_trans)
qed

lemma privmsg_stored:
  fixes inp :: inputs
  assumes n: "as_conns s n = Ready se" "parse_command l = Privmsg tgt body" "guard_ok se (as_server s)"
    and p: "s_principal se = Some p" "is_member (pr_id p) (normalize_channel tgt) (sv_db (as_server s))"
    and app: "history_append (i_log_uuid inp) (i_log_now inp) (normalize_channel tgt) (pr_id p) body
      (sv_db (as_server s)) = (Inr m, d)"
  shows "\<exists>es. run (astep cr) s es
    (at_conn n ((as_server s)\<lparr>sv_db := d\<rparr>) (Busy se (post_rest se p (normalize_channel tgt) body m)) s)"
proof -
  let ?c = "normalize_channel tgt" and ?sv = "as_server s"
  let ?append = "region (on_db (history_append (i_log_uuid inp) (i_log_now inp) ?c (pr_id p) body))"
  have "\<exists>es. run (astep cr) s es (at_conn n ?sv (Busy se
      (if True then pbind (p_privmsg inp se ?c body) (\<lambda>_. pret (se, False)) else pret (se, False))) s)"
    by (rule bind_then [OF line_run [OF n(1,2), where inp = inp] _ exec_guard [OF n(3)]])
       (simp add: p_command_def p_if_registered_def)
  then have "\<exists>es. run (astep cr) s es (at_conn n ?sv (Busy se (pbind ?append (post_rest se p ?c body))) s)"
    using bind_then [of cr s n ?sv se _ s "region (reads (\<lambda>sv. is_member (pr_id p) ?c (sv_db sv)))" _ True ?sv] p
    by (fastforce simp: p_privmsg_def session_principal_def bind_simps bind_assoc run_act post_rest_def [abs_def]
         message_line_def)
  then show ?thesis
    by (rule bind_then [OF _ refl]) (simp add: on_db_def app)
qed


text \<open>One member on line, of two whose messages cross.\<close>

definition on_line_member :: "system \<Rightarrow> nat \<Rightarrow> session \<Rightarrow> principal \<Rightarrow> string \<Rightarrow> bool" where
  "on_line_member sy n se p c \<longleftrightarrow> sy_conns sy n = Live se \<and> s_principal se = Some p
     \<and> clients (sv_inner (sy_server sy)) (pr_id p) = Some (handle_of se)
     \<and> is_member (pr_id p) c (sv_db (sy_server sy)) \<and> q_open (outs (sy_server sy) n)"

definition with_db :: "system \<Rightarrow> db \<Rightarrow> system" where
  "with_db sy d = sy\<lparr>sy_server := (sy_server sy)\<lparr>sv_db := d\<rparr>\<rparr>"

lemma with_db_simps [simp]:
  "sy_conns (with_db sy d) = sy_conns sy" "sy_server (with_db sy d) = (sy_server sy)\<lparr>sv_db := d\<rparr>"
  by (simp_all add: with_db_def)

lemma appended_ok:
  assumes ok: "sys_ok sy" and app: "history_append u now c b x (sv_db (sy_server sy)) = (r, d)"
  shows "sys_ok (with_db sy d)"
    and "channel_memberships d = channel_memberships (sv_db (sy_server sy))"
proof -
  have wf: "db_wf (sv_db (sy_server sy))" using ok by (simp add: sys_ok_def sv_wf_def)
  show "channel_memberships d = channel_memberships (sv_db (sy_server sy))"
    by (subst history_append_frame [OF app]) simp
  have "rooms_ok (sv_inner (sy_server sy)) d"
    using rooms_ok_roster [OF same_roster_store(1) [OF app]] sys_okD(6) [OF ok] by simp
  moreover have "linked (sy_server (with_db sy d)) (sy_conns sy)"
    by (rule linked_same [OF sys_okD(7) [OF ok]]) simp_all
  ultimately show "sys_ok (with_db sy d)"
    using db_wf_append [OF wf app] by (simp add: sys_ok_def)
qed

lemma on_line_member_guard:
  assumes "sys_ok sy" "on_line_member sy n se p c"
  shows "guard_ok se (sy_server sy)" "s_tx se = n"
  using guard_ok_handle [OF sys_okD(7) [OF assms(1)], of n se p] linkedD(1) [OF sys_okD(7) [OF assms(1)], of n se]
    assms(2) by (simp_all add: on_line_member_def session_ok_def)

lemma disconnect_left:
  "outs (snd (disconnect inp se sv)) = outs sv" "messages (sv_db (snd (disconnect inp se sv))) = messages (sv_db sv)"
  "cursor p c (sv_db (snd (disconnect inp se sv))) = cursor p c (sv_db sv)"
  by (auto simp: disconnect_run mark_disconnected_def cursor_def split: option.split)

lemma broadcast_left:
  assumes "\<not> q_open (outs sv n)"
  shows "outs (snd (broadcast_message c line k sv)) n = outs sv n"
    and "messages (sv_db (snd (broadcast_message c line k sv))) = messages (sv_db sv)"
    and "cursor p e (sv_db sv) = Some x \<Longrightarrow> \<exists>y. cursor p e (sv_db (snd (broadcast_message c line k sv))) = Some y \<and> x \<le> y"
  using assms by (auto simp: broadcast_message_run deliver_fold cursor_fold_seen send_all_def)


text \<open>C36. The order in which messages are stored and the order in which they are broadcast can
  differ, and then a message is lost for good: wherever two members of a channel are on line, there is
  a schedule in which the first's message is stored, the second posts a later one, gets it and
  disconnects, and only then the first is broadcast. At the end the second is still a member and the
  first message is in the log, but it was never sent to it and is not among what it has missed, so no
  reconnect replays it.\<close>

theorem reordered_loss:
  fixes inp1 inp2 :: inputs
  assumes ok: "sys_ok sy" and one: "on_line_member sy n1 se1 p1 c" and two: "on_line_member sy n2 se2 p2 c"
    and ne: "pr_id p1 \<noteq> pr_id p2" and c: "normalize_channel c = c"
    and l1: "parse_command l1 = Privmsg c b1" and l2: "parse_command l2 = Privmsg c b2"
    and room: "has_room (i_log_uuid inp1) (sv_db (sy_server sy))"
      "has_room (i_log_uuid inp2) (snd (history_append (i_log_uuid inp1) (i_log_now inp1) c (pr_id p1) b1
         (sv_db (sy_server sy))))"
  shows "\<exists>es t m m'. run (astep cr) (interleaved sy) es t \<and> (\<forall>n. between (as_conns t n))
    \<and> m = next_message (i_log_uuid inp1) (i_log_now inp1) c (pr_id p1) b1 (sv_db (sy_server sy))
    \<and> m \<in> set (channel_messages c (sv_db (as_server t)))
    \<and> is_member (pr_id p2) c (sv_db (as_server t))
    \<and> sm_seq m < sm_seq m'
    \<and> q_sent (outs (as_server t) n2) = q_sent (outs (sy_server sy) n2) @ [message_line p2 c b2 m']
    \<and> m \<notin> set (missed (pr_id p2) c (sv_db (as_server t)))"
proof -
  let ?sv = "sy_server sy"
  let ?m = "next_message (i_log_uuid inp1) (i_log_now inp1) c (pr_id p1) b1 (sv_db ?sv)"
  obtain d where app: "history_append (i_log_uuid inp1) (i_log_now inp1) c (pr_id p1) b1 (sv_db ?sv) = (Inr ?m, d)"
    using room(1) by (simp add: history_append_cases [OF sys_okD(1) [OF ok]] has_room_def next_message_def Let_def)
  let ?sy1 = "with_db sy d"
  note ok1 = appended_ok(1) [OF ok app] and mem1 = appended_ok(2) [OF ok app]
  note d = history_append_Inr [OF sys_okD(1) [OF ok] app]
  have member1: "is_member p c d \<longleftrightarrow> is_member p c (sv_db ?sv)" for p
    by (simp add: is_member_in mem1)
  let ?s1 = "at_conn n1 (?sv\<lparr>sv_db := d\<rparr>) (Busy se1 (post_rest se1 p1 c b1 ?m)) (interleaved sy)"
  have one': "sy_conns sy n1 = Live se1" "s_principal se1 = Some p1" "is_member (pr_id p1) c (sv_db ?sv)"
    using one by (simp_all add: on_line_member_def)
  have two': "sy_conns sy n2 = Live se2" "s_principal se2 = Some p2" "is_member (pr_id p2) c d"
      "clients (sv_inner ?sv) (pr_id p2) = Some (handle_of se2)" "q_open (outs ?sv n2)"
    using two by (simp_all add: on_line_member_def member1)
  have n: "n1 \<noteq> n2" using one' two' ne by auto
  have r1: "\<exists>es. run (astep cr) (interleaved sy) es ?s1"
    using privmsg_stored [of "interleaved sy" n1 se1 l1 c b1 p1 inp1 ?m d cr] l1 c one' app
      on_line_member_guard(1) [OF ok one] by simp
  let ?m' = "next_message (i_log_uuid inp2) (i_log_now inp2) c (pr_id p2) b2 d"
  obtain sv2 where priv: "privmsg inp2 se2 c b2 (?sv\<lparr>sv_db := d\<rparr>) = (Inr (), sv2)"
      and post: "posted (message_line p2 c b2 ?m') ?m' (?sv\<lparr>sv_db := d\<rparr>) sv2"
    using privmsg_posted [OF ok1 two'(2), of c inp2 b2] room(2) two'(3) app by auto
  have two1: "on_line_member ?sy1 n2 se2 p2 c" using two by (simp add: on_line_member_def member1)
  note g2 = on_line_member_guard [OF ok1 two1]
  let ?s2 = "at_conn n2 sv2 (Ready se2) ?s1"
  have r2: "\<exists>es. run (astep cr) ?s1 es ?s2"
    using command_run [of ?s1 n2 se2 cr inp2 l2 se2 sv2] n two'(1) priv g2(1)
    by (simp add: l2 c guarded_run and_then_def run_act)
  let ?sv3 = "close_out n2 (close_shut n2 (snd (disconnect inp2 se2 sv2)))"
  let ?s3 = "at_conn n2 ?sv3 (Ended se2) ?s2"
  have r3: "\<exists>es. run (astep cr) ?s2 es ?s3"
    using eof_run [of ?s2 n2 se2 cr inp2] by simp
  let ?sv4 = "snd (broadcast_message c (message_line p1 c b1 ?m) (sm_seq ?m) ?sv3)"
  let ?s4 = "at_conn n1 ?sv4 (Ready se1) ?s3"
  have "exec_prog (post_rest se1 p1 c b1 ?m) ?sv3 = (Inr (se1, False), ?sv4)"
    by (simp add: post_rest_def broadcast_message_run and_then_def run_act)
  then have r4: "\<exists>es. run (astep cr) ?s3 es ?s4"
    using rest_run [of ?s3 n1 se1 "post_rest se1 p1 c b1 ?m" se1 ?sv4 cr] n by simp
  have reach: "\<exists>es. run (astep cr) (interleaved sy) es ?s4"
    by (rule reach_trans [OF r1 reach_trans [OF r2 reach_trans [OF r3 r4]]])
  have between: "between (as_conns ?s4 k)" for k by simp
  have "listens (?sv\<lparr>sv_db := d\<rparr>) c n2" "hears (?sv\<lparr>sv_db := d\<rparr>) c (pr_id p2)"
    using two' g2(2) unfolding listens_def hears_def by (fastforce simp: handle_of_def)+
  then have out2: "q_sent (outs sv2 n2) = q_sent (outs ?sv n2) @ [message_line p2 c b2 ?m']"
      and cur2: "cursor (pr_id p2) c (sv_db sv2) = Some (sm_seq ?m')"
      and ms2: "messages (sv_db sv2) = messages d @ [?m']"
    using post two'(5) by (simp_all add: posted_def send_all_def next_message_def)
  have sv3: "outs ?sv3 n2 = (outs sv2 n2)\<lparr>q_open := False\<rparr>" "messages (sv_db ?sv3) = messages (sv_db sv2)"
      "cursor (pr_id p2) c (sv_db ?sv3) = cursor (pr_id p2) c (sv_db sv2)"
    by (simp_all add: close_out_def disconnect_left) (simp add: close_shut_def disconnect_left)
  have shut3: "\<not> q_open (outs ?sv3 n2)" using sv3(1) by simp
  note left = broadcast_left [OF shut3, where c = c and line = "message_line p1 c b1 ?m" and k = "sm_seq ?m"]
  obtain y where y: "cursor (pr_id p2) c (sv_db ?sv4) = Some y" "sm_seq ?m' \<le> y"
    using left(3) [where p = "pr_id p2" and e = c and x = "sm_seq ?m'"] sv3(3) cur2 by auto
  have lt: "sm_seq ?m < sm_seq ?m'" using d(1) by (simp add: next_message_def)
  have "?m \<in> set (channel_messages c (sv_db ?sv4))"
    using left(2) sv3(2) ms2 d(1) by (simp add: channel_messages_def next_message_def)
  moreover have "is_member (pr_id p2) c (sv_db ?sv4)" using y by (simp add: is_member_cursor)
  moreover have "?m \<notin> set (missed (pr_id p2) c (sv_db ?sv4))" using y lt by (auto simp: missed_def)
  moreover have "q_sent (outs ?sv4 n2) = q_sent (outs ?sv n2) @ [message_line p2 c b2 ?m']"
    using left(1) sv3(1) out2 by simp
  ultimately show ?thesis
    using reach between lt at_conn_simps(1) by metis
qed

lemma demo_crossing: "parse_command ''PRIVMSG #w :one'' = Privmsg ''#w'' ''one''"
  "parse_command ''PRIVMSG #w :two'' = Privmsg ''#w'' ''two''" "parse_command ''PART #w'' = Part ''#w''"
  "normalize_channel ''#w'' = ''#w''"
  by code_simp+

lemma demo_members_on_line:
  "on_line_member demo 0 demo_a (demo_pr ''a'') ''#w''" "on_line_member demo 1 demo_b (demo_pr ''b'') ''#w''"
  by (simp_all add: on_line_member_def demo_members demo_def demo_server_def server_new_def new_mpsc_def)

theorem reordered_loss_witness:
  "\<exists>es t m m'. run (astep demo_crypto) (interleaved demo) es t \<and> sm_body m = ''one''
    \<and> m \<in> set (channel_messages ''#w'' (sv_db (as_server t)))
    \<and> is_member ''b'' ''#w'' (sv_db (as_server t))
    \<and> q_sent (outs (as_server t) 1) = [message_line (demo_pr ''b'') ''#w'' ''two'' m'] \<and> sm_seq m < sm_seq m'
    \<and> m \<notin> set (missed ''b'' ''#w'' (sv_db (as_server t)))"
proof -
  let ?inp2 = "demo_inputs\<lparr>i_log_uuid := ''k''\<rparr>"
  have log: "log_wf demo_db" using demo_db_wf by (simp add: db_wf_def)
  have room: "has_room ''n'' demo_db" "has_room ''k'' (snd (history_append ''n'' 10 ''#w'' ''a'' ''one'' demo_db))"
    using demo_room by (simp_all add: history_append_cases [OF log] has_room_def Let_def)
      (simp add: demo_defs i64_max_def)
  have none: "q_sent (outs (sy_server demo) 1) = []" by (simp add: new_mpsc_def)
  have "\<exists>es t m m'. run (astep demo_crypto) (interleaved demo) es t \<and> (\<forall>n. between (as_conns t n))
    \<and> m = next_message ''n'' 10 ''#w'' ''a'' ''one'' demo_db
    \<and> m \<in> set (channel_messages ''#w'' (sv_db (as_server t)))
    \<and> is_member ''b'' ''#w'' (sv_db (as_server t)) \<and> sm_seq m < sm_seq m'
    \<and> q_sent (outs (as_server t) 1) = q_sent (outs (sy_server demo) 1) @ [message_line (demo_pr ''b'') ''#w'' ''two'' m']
    \<and> m \<notin> set (missed ''b'' ''#w'' (sv_db (as_server t)))"
    using reordered_loss [OF demo_ok demo_members_on_line _ demo_crossing(4,1,2),
        where ?inp1.0 = demo_inputs and ?inp2.0 = ?inp2 and cr = demo_crypto] room by simp
  moreover have "sm_body (next_message ''n'' 10 ''#w'' ''a'' ''one'' demo_db) = ''one''"
    by (simp add: next_message_def)
  ultimately show ?thesis unfolding none append_Nil by blast
qed

subsection \<open>A PART during a registration\<close>

text \<open>What is left of a registration once the memberships are read.\<close>

definition register_rest :: "principal \<Rightarrow> session \<Rightarrow> membership list \<Rightarrow> session handler" where
  "register_rest p se0 ms =
     (let se = registered_session p se0; cs = map mb_channel ms in
        pbind (region (take_over p se cs)) (\<lambda>_.
        pbind (p_send se (welcome_line p)) (\<lambda>_.
        pbind (pfor cs (\<lambda>c. p_send se ('':'' @ pr_nick p @ '' JOIN '' @ c))) (\<lambda>_.
        pbind (if ms \<noteq> [] then
                 pbind (p_send se (replay_notice p (length ms)))
                   (\<lambda>_. pfor ms (\<lambda>mb. p_replay_history se [mb_channel mb] (mb_last_seen_seq mb) 200))
               else pret ())
          (\<lambda>_. pret se)))))"

lemma p_register_rest: "p_register inp p se =
    pbind (region (on_db (mark_connected_and_memberships (i_now inp) (pr_id p)))) (register_rest p se)"
  by (simp add: p_register_def register_rest_def [abs_def] registered_session_def Let_def)

lemma register_rest_run:
  "exec_prog (register_rest p se ms) sv = (Inr (registered_session p se),
    push (s_tx se) (register_lines p ms (sv_db sv))
      ((shut_old p sv)\<lparr>sv_db := register_seen (pr_id p) ms (sv_db sv),
         sv_inner := take_over_inner p se (map mb_channel ms) (sv_inner sv)\<rparr>))"
proof -
  let ?se = "registered_session p se"
  have take: "take_over p ?se cs v = (Inr (), (shut_old p v)\<lparr>sv_inner := take_over_inner p se cs (sv_inner v)\<rparr>)"
    for cs v
    using take_over_run [of p ?se cs v] by (simp add: take_over_inner_def)
  have none: "register_seen (pr_id p) [] d = d" for d by (simp add: register_seen_def)
  show ?thesis
    unfolding register_rest_def Let_def
    by (simp add: and_then_Inr [OF take] replay_missed_def [symmetric, abs_def]
        send_simps run_act and_then_Inr [OF replay_missed_run [where p = p]] none
        register_lines_def o_def and_then_simple and_then_assoc cong: exec_congs)
qed


text \<open>C37. A PART of an old session that falls between the moment a new session of the same principal
  reads its memberships and the moment it takes over leaves the principal in the channel table
  without a membership: it is no member any more, and the channel is still broadcast to its new
  connection.\<close>

theorem stale_room_race:
  fixes inp0 inp :: inputs
  assumes ok: "sys_ok sy" and old: "on_line_member sy n0 se0 p c" and c: "normalize_channel c = c"
    and l0: "parse_command l0 = Part c"
    and new: "sy_conns sy n = Live se" "\<not> s_registered se" "s_pass_token se = Some token" "s_nick se = Some k"
    and auth: "authenticate cr token (sv_db (sy_server sy)) (sv_legacy_hits (sy_server sy)) = (Inr p, hits)"
    and l: "parse_command l = User u"
  shows "\<exists>es t. run (astep cr) (interleaved sy) es t \<and> (\<forall>i. between (as_conns t i))
    \<and> \<not> is_member (pr_id p) c (sv_db (as_server t))
    \<and> (pr_id p, handle_of se) \<in> set (recipients_with_ids c (sv_inner (as_server t)))"
proof -
  let ?sv = "sy_server sy" and ?s = "interleaved sy" and ?K = "\<lambda>s. pret (s, False)"
  let ?ms = "memberships (pr_id p) (sv_db ?sv)"
  let ?sv1 = "?sv\<lparr>sv_legacy_hits := hits\<rparr>"
  let ?sv2 = "?sv1\<lparr>sv_db := mark_connected (i_now inp) (pr_id p) (sv_db ?sv)\<rparr>"
  have o: "sy_conns sy n0 = Live se0" "s_principal se0 = Some p" "is_member (pr_id p) c (sv_db ?sv)"
      "clients (sv_inner ?sv) (pr_id p) = Some (handle_of se0)"
    using old by (simp_all add: on_line_member_def)
  have g0: "guard_ok se0 ?sv" by (rule on_line_member_guard(1) [OF ok old])
  then have ne: "n \<noteq> n0" using o(1) new(1,2) by (auto simp: guard_ok_def)
  have auth_run: "exec_prog (p_authenticate cr token) ?sv = (Inr (Inr p), ?sv1)"
    by (simp add: run_authenticate_def auth)
  have prog: "p_command cr inp se (User u) = pbind (p_authenticate cr token) (\<lambda>r. pbind
      (case r of Inl e \<Rightarrow> pbind (p_send se ('':'' @ SERVER_NAME @ '' 464 * :Password incorrect'')) (\<lambda>_. pret se)
       | Inr p \<Rightarrow> p_register inp p se) ?K)"
    using new by (simp add: p_command_def p_try_register_def bind_assoc cong: sum.case_cong)
  have "\<exists>es. run (astep cr) ?s es (at_conn n ?sv (Busy se (p_command cr inp se (User u))) ?s)"
    using line_run [of ?s n se l "User u" cr inp] new(1) l by simp
  from bind_then [OF this prog auth_run]
  have "\<exists>es. run (astep cr) ?s es (at_conn n ?sv1 (Busy se (pbind (p_register inp p se) ?K)) ?s)" by simp
  then have "\<exists>es. run (astep cr) ?s es (at_conn n ?sv2 (Busy se (pbind (register_rest p se ?ms) ?K)) ?s)"
    by (rule bind_then [where k = "\<lambda>ms. pbind (register_rest p se ms) ?K"
          and q = "region (on_db (mark_connected_and_memberships (i_now inp) (pr_id p)))"])
       (simp_all add: p_register_rest bind_assoc mark_connected_run)
  moreover
  let ?s2 = "at_conn n ?sv2 (Busy se (pbind (register_rest p se ?ms) ?K)) ?s"
  obtain sv3 where part: "part_channel se0 c ?sv2 = (Inr (), sv3)"
      "sv_db sv3 = remove_membership (pr_id p) c (sv_db ?sv2)" "sv_inner sv3 = channel_remove c (pr_id p) (sv_inner ?sv)"
    by (simp add: part_channel_run [OF o(2)] push_fold)
  have g2: "guard_ok se0 ?sv2" using g0 by (simp add: guard_ok_def)
  let ?s3 = "at_conn n0 sv3 (Ready se0) ?s2"
  have "\<exists>es. run (astep cr) ?s2 es ?s3"
    using command_run [of ?s2 n0 se0 cr inp0 l0 se0 sv3] o(1) ne l0 c part(1) g2
    by (simp add: guarded_run and_then_def run_act)
  moreover
  let ?sv4 = "snd (exec_prog (register_rest p se ?ms) sv3)"
  let ?s4 = "at_conn n ?sv4 (Ready (registered_session p se)) ?s3"
  have "\<exists>es. run (astep cr) ?s3 es ?s4"
    using rest_run [of ?s3 n se "pbind (register_rest p se ?ms) ?K" "registered_session p se" ?sv4 cr] ne
    by (simp add: register_rest_run and_then_def run_act)
  ultimately have reach: "\<exists>es. run (astep cr) ?s es ?s4" by (meson reach_trans)
  have "\<not> is_member (pr_id p) c (sv_db sv3)" by (simp add: part(2) is_member_in remove_membership_def delete_where_def member_key_def)
  then have left: "\<not> is_member (pr_id p) c (sv_db ?sv4)"
    by (simp add: register_rest_run same_roster_stable(1) [OF same_roster_folds(3)])
  have "c \<in> set (map mb_channel ?ms)" using o(3) memberships_channels [of "pr_id p" "sv_db ?sv"] by auto
  then have "pr_id p \<in> set (room c (sv_inner ?sv4))"
    by (simp add: register_rest_run take_over_room)
  then have "(pr_id p, handle_of se) \<in> set (recipients_with_ids c (sv_inner ?sv4))"
    by (simp add: recipients_room) (simp add: register_rest_run take_over_clients)
  with reach left have "(\<exists>es. run (astep cr) ?s es ?s4) \<and> (\<forall>i. between (as_conns ?s4 i))
    \<and> \<not> is_member (pr_id p) c (sv_db (as_server ?s4))
    \<and> (pr_id p, handle_of se) \<in> set (recipients_with_ids c (sv_inner (as_server ?s4)))" by simp
  then show ?thesis by blast
qed

theorem stale_room_race_witness:
  "\<exists>es t. run (astep demo_crypto) (interleaved demo) es t \<and> \<not> is_member ''a'' ''#w'' (sv_db (as_server t))
    \<and> (''a'', handle_of demo_a2) \<in> set (recipients_with_ids ''#w'' (sv_inner (as_server t)))"
proof -
  have "\<not> s_registered demo_a2" "s_pass_token demo_a2 = Some ''a-token''" "s_nick demo_a2 = Some ''x''"
    by (simp_all add: demo_a2_def new_session_def)
  from stale_room_race [OF demo_ok demo_members_on_line(1) demo_crossing(4,3), of 3 demo_a2,
      OF _ this _ parse_user, of demo_crypto 1]
  show ?thesis by (simp add: demo_authenticate) blast
qed

end
