(* ===== verification/Answers.thy ===== *)
theory Answers
  imports Demo
begin

section \<open>What a line is answered, and when it costs the connection\<close>

text \<open>
  The properties of single lines: what CHATHISTORY sends and marks, and which lines can end the
  connection they came from.
\<close>

subsection \<open>CHATHISTORY\<close>

lemma history_run:
  assumes g: "guard_ok se sv" and p: "s_principal se = Some p" and cmd: "parse_command l = History (Some ch) a k"
  shows "handle_line cr inp se l sv = (Inr (se, False),
    push (s_tx se) (replay_lines (normalize_channel ch) a k (sv_db sv))
      (sv\<lparr>sv_db := replay_seen (pr_id p) (normalize_channel ch) a k (sv_db sv)\<rparr>))"
  using replay_history_run [OF p, of "[normalize_channel ch]" a k sv]
  by (simp add: handle_line_def cmd guarded_run [OF g] chathistory_def and_then_simple and_then_Inr run_act)

lemma replay_seen_frames [simp]:
  "messages (replay_seen p c a l d) = messages d" "tasks (replay_seen p c a l d) = tasks d"
  by (simp_all add: replay_seen_def Let_def)

lemma skipped:
  assumes log: "log_wf d" and page: "history_after c a k d \<noteq> []" and m: "sm_seq m \<le> a"
  shows "m \<notin> set (history_after c a k d) \<and> m \<notin> set (missed p c (replay_seen p c a k d))"
proof -
  have "last (history_after c a k d) \<in> set (history_after c a k d)" using page by simp
  then have "sm_seq m < sm_seq (last (history_after c a k d))"
    using history_after_facts(2) [OF log] m by fastforce
  with page history_after_facts(2) [OF log, of m c a k] m show ?thesis
    by (cases "cursor p c d") (auto simp: missed_def cursor_replay_seen [OF log])
qed

text \<open>C38. A CHATHISTORY line of a registered session for one channel is answered, on its own
  connection only, with the page of the channel's messages after the given number. Nobody asks whether
  the principal is a member. If it is one and the page is not empty, its cursor moves to the last message
  of the page, whether or not the queue of the connection still takes lines; nothing else changes. So
  a member that asks for a page beyond its cursor loses what lies between: those messages are neither
  in the answer nor, afterwards, among the messages it has missed, and no reconnect replays them.\<close>

theorem history_answers:
  assumes ok: "sys_ok sy" and n: "sy_conns sy n = Live se" "s_principal se = Some p"
    and active: "clients (sv_inner (sy_server sy)) (pr_id p) = Some (handle_of se)"
    and cmd: "parse_command l = History (Some ch) a k"
  defines "d \<equiv> sv_db (sy_server sy)" and "c \<equiv> normalize_channel ch"
  defines "page \<equiv> history_after c a k d"
  shows "\<exists>sv. on_line cr inp n se l sy = sy\<lparr>sy_server := sv\<rparr>
    \<and> (\<forall>m. outs sv m = send_all (if m = n then map (replay_line d) page else []) (outs (sy_server sy) m))
    \<and> (\<forall>q e. cursor q e (sv_db sv) = (if q = pr_id p \<and> e = c \<and> page \<noteq> []
         then map_option (\<lambda>x. max x (sm_seq (last page))) (cursor q e d) else cursor q e d))
    \<and> messages (sv_db sv) = messages d \<and> tasks (sv_db sv) = tasks d
    \<and> sv_inner sv = sv_inner (sy_server sy) \<and> shuts sv = shuts (sy_server sy)
    \<and> (page \<noteq> [] \<longrightarrow> (\<forall>m \<in> set (missed (pr_id p) c d). sm_seq m \<le> a \<longrightarrow>
         m \<notin> set page \<and> m \<notin> set (missed (pr_id p) c (sv_db sv))))"
proof -
  have g: "guard_ok se (sy_server sy)" using guard_ok_handle [OF sys_okD(7) [OF ok] n] active by simp
  have tx: "s_tx se = n" using linkedD(1) [OF sys_okD(7) [OF ok], of n se] n(1) by (simp add: session_ok_def)
  have log: "log_wf d" using sys_okD(1) [OF ok] by (simp add: d_def)
  note run = history_run [OF g n(2) cmd, of cr inp]
  let ?sv = "push n (replay_lines c a k d) ((sy_server sy)\<lparr>sv_db := replay_seen (pr_id p) c a k d\<rparr>)"
  have "m \<notin> set page \<and> m \<notin> set (missed (pr_id p) c (replay_seen (pr_id p) c a k d))"
    if "page \<noteq> []" "sm_seq m \<le> a" for m
    using skipped [OF log, of c a k m] that unfolding page_def by blast
  then show ?thesis
    using on_line_stay [OF run n(1)]
    by (intro exI [of _ ?sv])
       (simp add: tx c_def d_def page_def replay_lines_def push_other cursor_replay_seen [OF sys_okD(1) [OF ok]])
qed

lemma demo_history_lines:
  "parse_command ''CHATHISTORY AFTER #w 0 50'' = History (Some ''#w'') 0 50"
  "parse_command ''CHATHISTORY AFTER #w 200 50'' = History (Some ''#w'') 200 50"
  "parse_command ''CHATHISTORY AFTER #w 0 50'' \<noteq> Quit"
  "normalize_channel ''#w'' = ''#w''"
  by code_simp+

theorem history_answers_witness:
  "\<exists>m sv. m \<in> set (missed ''a'' ''#w'' demo_backlog) \<and> m \<notin> set (missed ''a'' ''#w'' (sv_db sv))
    \<and> on_line demo_crypto demo_inputs 0 demo_a ''CHATHISTORY AFTER #w 200 50'' (demo_on demo_backlog)
      = (demo_on demo_backlog)\<lparr>sy_server := sv\<rparr>
    \<and> outs sv 1 = new_mpsc \<and> replay_line demo_backlog m \<notin> set (q_sent (outs sv 1))"
proof -
  let ?m = "\<lambda>i :: int. demo_message\<lparr>sm_seq := i, sm_msg_id := replicate (nat i) (CHR ''m'')\<rparr>"
  have log: "log_wf demo_backlog" using demo_backlog_wf by (simp add: db_wf_def)
  have cm: "channel_messages ''#w'' demo_backlog = map ?m [1..201]"
    by (simp add: channel_messages_def demo_backlog_def demo_message_def)
  have "cursor ''a'' ''#w'' demo_backlog = Some 1"
    by (simp add: demo_backlog_def cursor_def row_of_def query_row_def member_key_def demo_defs)
  moreover have "?m 2 \<in> ?m ` {1..201}" by (rule imageI) simp
  ultimately have m: "?m 2 \<in> set (missed ''a'' ''#w'' demo_backlog)" by (simp add: missed_def cm)
  have "filter (\<lambda>m. 200 < sm_seq m) (map ?m [1..201]) \<noteq> []"
    by (auto simp: filter_empty_conv intro!: bexI [of _ 201])
  then have page: "history_after ''#w'' 200 50 demo_backlog \<noteq> []"
    by (simp add: history_after_take [OF log] cm clamp_limit_def)
  obtain sv where sv: "on_line demo_crypto demo_inputs 0 demo_a ''CHATHISTORY AFTER #w 200 50'' (demo_on demo_backlog)
        = (demo_on demo_backlog)\<lparr>sy_server := sv\<rparr>"
      "\<forall>k. outs sv k = send_all (if k = 0 then map (replay_line demo_backlog) (history_after ''#w'' 200 50 demo_backlog)
         else []) (outs (sy_server (demo_on demo_backlog)) k)"
      "\<forall>m \<in> set (missed ''a'' ''#w'' demo_backlog). sm_seq m \<le> 200 \<longrightarrow> m \<notin> set (missed ''a'' ''#w'' (sv_db sv))"
    using history_answers [OF demo_backlog_ok _ demo_who(1) _ demo_history_lines(2), of 0 demo_crypto demo_inputs] page
    by (auto simp: demo_history_lines(4))
  then have "?m 2 \<notin> set (missed ''a'' ''#w'' (sv_db sv))" using m by simp
  moreover have "outs sv 1 = new_mpsc" using sv(2) by simp
  ultimately show ?thesis using sv(1) m by (intro exI [of _ "?m 2"] exI [of _ sv]) (simp add: new_mpsc_def)
qed

subsection \<open>When a line costs the connection\<close>

lemma guarded_succeeds:
  assumes "guard_ok se sv \<or> \<not> s_registered se" "guard_ok se sv \<Longrightarrow> \<exists>sv'. m sv = (Inr (), sv')"
  shows "\<exists>sv'. if_registered se m sv = (Inr (se, False), sv')"
  by (rule if_registered_cases [of se m sv])
     (use assms in \<open>auto simp: guard_ok_def and_then_def run_act\<close>)

lemma post_succeeds:
  assumes "log_wf (sv_db sv)" "has_room u (sv_db sv)"
  shows "\<exists>sv'. post u now c s b f sv = (Inr (), sv')"
  using assms by (simp add: post_run history_append_cases has_room_def Let_def)

lemma task_event_succeeds:
  assumes "log_wf (sv_db sv)" "has_room (i_log_uuid inp) (sv_db sv)"
  shows "\<exists>sv'. broadcast_task_event inp t action status actor b sv = (Inr (), sv')"
  unfolding posts by (rule post_succeeds [OF assms])

lemma or_else_succeeds:
  assumes "m sv = (r, sv1)" "\<And>e. r \<noteq> Inl (Panic e)"
    and "\<And>e. \<exists>sv'. err e sv1 = (Inr (), sv')" "\<And>x. r = Inr x \<Longrightarrow> \<exists>sv'. k x sv1 = (Inr (), sv')"
  shows "\<exists>sv'. or_else m err k sv = (Inr (), sv')"
  using assms by (auto simp: or_else_def split: sum.split err.split)

text \<open>What a line needs of the server: a number and an id for what it stores, a lease end in \<open>i64\<close>.\<close>

fun room_for :: "inputs \<Rightarrow> command \<Rightarrow> server \<Rightarrow> bool" where
  "room_for inp (Privmsg tgt body) sv = has_room (i_log_uuid inp) (sv_db sv)"
| "room_for inp (TaskCreate c title) sv =
     (has_room (i_log_uuid inp) (sv_db sv) \<and> ''task_'' @ i_uuid inp \<notin> t_id ` set (tasks (sv_db sv)))"
| "room_for inp (TaskClaim tid) sv =
     (has_room (i_log_uuid inp) (sv_db sv) \<and> is_i64 (i_now inp + sv_lease_seconds sv))"
| "room_for inp (TaskDone tid) sv = has_room (i_log_uuid inp) (sv_db sv)"
| "room_for inp (TaskRelease tid) sv = has_room (i_log_uuid inp) (sv_db sv)"
| "room_for inp (Pass token) sv = (sv_legacy_hits sv \<noteq> - 1)"
| "room_for inp (Nick nick) sv = (sv_legacy_hits sv \<noteq> - 1)"
| "room_for inp (User u) sv = (sv_legacy_hits sv \<noteq> - 1)"
| "room_for inp _ sv = True"

lemma task_db_no_panic:
  "task_db x d = (r, d') \<Longrightarrow> (case x of OpClaim lease now tid p \<Rightarrow> is_i64 (now + lease) | _ \<Rightarrow> True) \<Longrightarrow> r \<noteq> Inl (Panic e)"
  by (cases x)
     (auto simp: tasks_create_def tasks_claim_def tasks_done_def tasks_release_def get_locked_def add_i64_def
       and_then_Inr [OF update_tasks_run] act_simps Let_def split: if_splits option.splits)

lemma task_messages:
  assumes "task_db x d = (r, d')"
  shows "messages d' = messages d \<and> messages_seq d' = messages_seq d"
proof -
  have fr: "d' = d\<lparr>tasks := tasks d'\<rparr>"
    using assms by (cases x) (simp, erule tasks_frame)+
  show ?thesis using arg_cong [OF fr, of messages] arg_cong [OF fr, of messages_seq] by simp
qed

lemma announced_succeeds:
  assumes "on_db (task_db x) sv = (r, sv1)" "log_wf (sv_db sv)" "has_room (i_log_uuid inp) (sv_db sv)"
  shows "\<exists>sv'. broadcast_task_event inp t action status actor b sv1 = (Inr (), sv')"
proof -
  have "task_db x (sv_db sv) = (r, sv_db sv1)" using assms(1) by (auto simp: on_db_def split: prod.splits)
  from task_messages [OF this] assms(2,3) show ?thesis
    by (intro task_event_succeeds) (simp_all add: has_room_def log_wf_cong [of "sv_db sv1" "sv_db sv"])
qed

lemma task_handlers_succeed:
  assumes log: "log_wf (sv_db sv)" and room: "has_room (i_log_uuid inp) (sv_db sv)" and p: "s_principal se = Some p"
  shows "''task_'' @ i_uuid inp \<notin> t_id ` set (tasks (sv_db sv)) \<Longrightarrow>
      \<exists>sv'. task_create inp se c title sv = (Inr (), sv')"
    and "is_i64 (i_now inp + sv_lease_seconds sv) \<Longrightarrow> \<exists>sv'. task_claim inp se tid sv = (Inr (), sv')"
    and "\<exists>sv'. task_done inp se tid sv = (Inr (), sv')"
    and "\<exists>sv'. task_release inp se tid sv = (Inr (), sv')"
proof -
  note event = announced_succeeds [OF _ log room]
  have fail: "\<exists>sv'. task_failed se p v a tid e sv1 = (Inr (), sv')" for v a tid e sv1
    by (simp add: task_failed_def session_send_run)
  have op: "\<exists>sv'. or_else (on_db (task_db x)) (task_failed se p v a tid)
      (\<lambda>t. broadcast_task_event inp t act status actor (b t)) sv = (Inr (), sv')"
    if "case x of OpClaim lease now tid p \<Rightarrow> is_i64 (now + lease) | _ \<Rightarrow> True" for x v a tid act status actor b
  proof -
    obtain r sv1 where run: "on_db (task_db x) sv = (r, sv1)" by (cases "on_db (task_db x) sv")
    then have "task_db x (sv_db sv) = (r, sv_db sv1)" by (auto simp: on_db_def split: prod.splits)
    from task_db_no_panic [OF this that] have "\<And>e. r \<noteq> Inl (Panic e)" .
    then show ?thesis
      by (rule or_else_succeeds [where m = "on_db (task_db x)" and ?sv1.0 = sv1, OF run]) (rule fail event [OF run])+
  qed
  show "\<exists>sv'. task_create inp se c title sv = (Inr (), sv')"
    if new: "''task_'' @ i_uuid inp \<notin> t_id ` set (tasks (sv_db sv))"
  proof (cases "trim title = []")
    case True
    then show ?thesis
      by (simp add: task_create_def session_principal_def p and_then_simple session_send_run)
  next
    case False
    let ?x = "OpCreate (i_uuid inp) (i_now inp) c (trim title)"
    obtain r sv1 where run: "on_db (task_db ?x) sv = (r, sv1)" by (cases "on_db (task_db ?x) sv")
    moreover from this new obtain t where "r = Inr t"
      by (auto simp: on_db_def tasks_create_def act_simps Let_def split: prod.splits)
    ultimately show ?thesis
      using False event [OF run] by (simp add: task_create_def session_principal_def p and_then_simple and_then_Inr)
  qed
  show "\<exists>sv'. task_claim inp se tid sv = (Inr (), sv')" if "is_i64 (i_now inp + sv_lease_seconds sv)"
    using op [of "OpClaim (sv_lease_seconds sv) (i_now inp) tid (pr_id p)"] that
    by (simp add: task_claim_def session_principal_def p and_then_simple)
  show "\<exists>sv'. task_done inp se tid sv = (Inr (), sv')"
    using op [of "OpDone (i_now inp) tid (pr_id p)"] by (simp add: task_done_def session_principal_def p and_then_simple)
  show "\<exists>sv'. task_release inp se tid sv = (Inr (), sv')"
    using op [of "OpRelease (i_now inp) tid (pr_id p)"]
    by (simp add: task_release_def session_principal_def p and_then_simple)
qed

lemma register_succeeds:
  assumes "sv_legacy_hits sv \<noteq> - 1"
  shows "\<exists>se' sv'. try_register cr inp se sv = (Inr se', sv')"
proof -
  have no_panic: "fst (authenticate cr token (sv_db sv) (sv_legacy_hits sv)) \<noteq> Inl (Panic m)" for token m
    using assms
    by (auto simp: authenticate_def authenticate_legacy_def legacy_hit_def authenticate_new_def token_verify_def Let_def
        split: option.splits sum.splits bool.splits pw_outcome.splits)
  have auth: "\<exists>r sv1. run_authenticate cr token sv = (Inr r, sv1)" for token
  proof -
    obtain r hits where r: "authenticate cr token (sv_db sv) (sv_legacy_hits sv) = (r, hits)"
      by (cases "authenticate cr token (sv_db sv) (sv_legacy_hits sv)")
    with no_panic [of token] have "\<And>m. r \<noteq> Inl (Panic m)" by simp
    with r show ?thesis by (cases r; cases "projl r") (simp_all add: run_authenticate_def)
  qed
  show ?thesis
  proof (cases "s_registered se \<or> s_pass_token se = None \<or> s_nick se = None")
    case True
    then show ?thesis by (auto simp: try_register_def run_act split: option.split)
  next
    case False
    then obtain token k where t: "s_pass_token se = Some token" "s_nick se = Some k" "\<not> s_registered se" by auto
    obtain r sv1 where "run_authenticate cr token sv = (Inr r, sv1)" using auth by blast
    with t show ?thesis
      by (cases r) (simp_all add: try_register_def and_then_Inr and_then_send run_act register_run)
  qed
qed

lemma command_succeeds:
  assumes log: "log_wf (sv_db sv)" and who: "guard_ok se sv \<or> \<not> s_registered se"
    and room: "room_for inp cmd sv"
  shows "\<exists>se' sv'. handle_command cr inp se cmd sv = (Inr (se', cmd = Quit), sv')"
proof -
  have p: "\<exists>p. s_principal se = Some p" if "guard_ok se sv" using that by (auto simp: guard_ok_def)
  have g: "\<exists>se' sv'. if_registered se m sv = (Inr (se', False), sv')"
    if "\<And>p. guard_ok se sv \<Longrightarrow> s_principal se = Some p \<Longrightarrow> \<exists>sv'. m sv = (Inr (), sv')" for m
    using guarded_succeeds [OF who, of m] that p by blast
  have reg: "\<exists>se' sv'. and_then (try_register cr inp se0) (\<lambda>s. ret (s, False)) sv = (Inr (se', False), sv')"
    if "sv_legacy_hits sv \<noteq> - 1" for se0
    using register_succeeds [OF that, of cr inp se0] by (auto simp: and_then_Inr run_act)
  show ?thesis
  proof (cases cmd)
    case (Privmsg tgt body)
    with room have r: "has_room (i_log_uuid inp) (sv_db sv)" by simp
    have "\<exists>sv'. privmsg inp se (normalize_channel tgt) body sv = (Inr (), sv')" if "s_principal se = Some q" for q
      using post_succeeds [OF log r] that
      by (simp add: posts session_principal_def and_then_simple session_send_run)
    with g Privmsg show ?thesis by simp
  next
    case (History ch a k)
    have "\<exists>sv'. chathistory se ch a k sv = (Inr (), sv')" if "s_principal se = Some q" for q
      using that
      by (cases ch) (simp_all add: chathistory_def session_principal_def and_then_simple and_then_assoc replay_history_run)
    with g History show ?thesis by simp
  next
    case (TaskList c)
    have "\<exists>sv'. task_list se (normalize_channel c) sv = (Inr (), sv')" if "s_principal se = Some q" for q
      using that by (simp add: task_list_def session_principal_def and_then_simple session_send_run sends_run)
    with g TaskList show ?thesis by simp
  next
    case (Cap sub caps)
    then show ?thesis by (simp add: cap_def Let_def run_act and_then_def session_send_run)
  qed (use room task_handlers_succeed [OF log] in \<open>auto intro!: g reg
      simp: join_channel_run part_channel_run and_then_send run_act\<close>)
qed

text \<open>C40. A line costs its sender the connection only by QUIT, by the session having been replaced, or
  for want of room: as long as the log takes another message, the new ids are new, a lease end is
  in \<open>i64\<close> and the counter of legacy hits is not at its maximum, the connection is still there after
  every other line, whatever it says.\<close>

theorem line_keeps_connection:
  assumes ok: "sys_ok sy" and n: "sy_conns sy n = Live se"
    and active: "\<And>p. s_principal se = Some p \<Longrightarrow> clients (sv_inner (sy_server sy)) (pr_id p) = Some (handle_of se)"
    and room: "room_for inp (parse_command l) (sy_server sy)"
  shows "\<exists>se'. sy_conns (on_line cr inp n se l sy) n = (if parse_command l = Quit then Gone se' else Live se')"
proof -
  have reg: "s_registered se \<longleftrightarrow> s_principal se \<noteq> None"
    using linkedD(1) [OF sys_okD(7) [OF ok], of n se] n by (simp add: session_ok_def)
  then have "guard_ok se (sy_server sy) \<or> \<not> s_registered se"
    using active guard_ok_handle [OF sys_okD(7) [OF ok] n] by auto
  from command_succeeds [OF sys_okD(1) [OF ok] this room, of cr] show ?thesis
    by (auto simp: on_line_def handle_line_def leave_loop_conns)
qed

theorem line_keeps_connection_witness:
  "\<exists>se'. sy_conns (on_line demo_crypto demo_inputs 1 demo_b ''TASK CLAIM task_o'' demo) 1 = Live se'"
proof -
  have "parse_command ''TASK CLAIM task_o'' = TaskClaim ''task_o''" by code_simp
  moreover have "room_for demo_inputs (TaskClaim ''task_o'') (sy_server demo)"
    using demo_room by (simp add: is_i64_def i64_min_def i64_max_def)
  ultimately show ?thesis
    using line_keeps_connection [OF demo_ok, of 1 demo_b demo_inputs "''TASK CLAIM task_o''" demo_crypto] by auto
qed

end
