(* ===== verification/Listeners.thy ===== *)
theory Listeners
  imports Parts
begin

section \<open>The listeners (\<open>listen\<close> and \<open>listen_tls\<close> of src/src/server.rs)\<close>

text \<open>
  The process after \<open>main_start\<close>: its listeners, each binding its address and then accepting
  streams, and the connections they spawned. \<open>main\<close> waits for the listeners with
  \<open>try_join!\<close>, so the first that returns an error ends the process with it, and with the process
  every connection. A stream whose TLS handshake fails is dropped before \<open>handle_stream\<close>. What
  the connections do is the step relation of theory System.
\<close>

subsection \<open>The process\<close>

datatype listening = Binding | Accepting

record 'cfg process =
  pr_listeners :: "('cfg listener \<times> listening) list"
  pr_system :: system
  pr_exit :: "err option"

datatype net_event =
    Bind nat bool
  | Stream nat bool nat string
  | AcceptError nat string
  | Serve event

fun bind_address :: "'cfg listener \<Rightarrow> string" where
  "bind_address (Listen bind_addr) = bind_addr"
| "bind_address (ListenTls bind_addr acceptor) = bind_addr"

text \<open>Whether the stream reaches \<open>handle_stream\<close>: a plain one always, a TLS one after the handshake.\<close>

fun served :: "'cfg listener \<Rightarrow> bool \<Rightarrow> bool" where
  "served (Listen bind_addr) handshake = True"
| "served (ListenTls bind_addr acceptor) handshake = handshake"

definition process_start :: "server \<Rightarrow> 'cfg listener list \<Rightarrow> 'cfg process" where
  "process_start sv ls =
     \<lparr>pr_listeners = map (\<lambda>l. (l, Binding)) ls,
      pr_system = \<lparr>sy_server = sv, sy_conns = (\<lambda>_. Idle)\<rparr>, pr_exit = None\<rparr>"

fun accepting :: "event \<Rightarrow> bool" where
  "accepting (Accept n uuid) = True"
| "accepting _ = False"

inductive process_step :: "crypto \<Rightarrow> 'cfg process \<Rightarrow> net_event \<Rightarrow> 'cfg process \<Rightarrow> bool" for cr where
  bound: "pr_exit s = None \<Longrightarrow> i < length (pr_listeners s) \<Longrightarrow> pr_listeners s ! i = (l, Binding) \<Longrightarrow>
     process_step cr s (Bind i True) (s\<lparr>pr_listeners := (pr_listeners s)[i := (l, Accepting)]\<rparr>)"
| not_bound: "pr_exit s = None \<Longrightarrow> i < length (pr_listeners s) \<Longrightarrow> pr_listeners s ! i = (l, Binding) \<Longrightarrow>
     process_step cr s (Bind i False) (s\<lparr>pr_exit := Some (Anyhow (''bind '' @ bind_address l))\<rparr>)"
| stream: "pr_exit s = None \<Longrightarrow> i < length (pr_listeners s) \<Longrightarrow> pr_listeners s ! i = (l, Accepting) \<Longrightarrow>
     served l handshake \<Longrightarrow> sys_step cr (pr_system s) (Accept n uuid) sy \<Longrightarrow>
     process_step cr s (Stream i handshake n uuid) (s\<lparr>pr_system := sy\<rparr>)"
| no_handshake: "pr_exit s = None \<Longrightarrow> i < length (pr_listeners s) \<Longrightarrow> pr_listeners s ! i = (l, Accepting) \<Longrightarrow>
     \<not> served l handshake \<Longrightarrow> process_step cr s (Stream i handshake n uuid) s"
| accept_error: "pr_exit s = None \<Longrightarrow> i < length (pr_listeners s) \<Longrightarrow> pr_listeners s ! i = (l, Accepting) \<Longrightarrow>
     process_step cr s (AcceptError i e) (s\<lparr>pr_exit := Some (Anyhow e)\<rparr>)"
| serve: "pr_exit s = None \<Longrightarrow> \<not> accepting ev \<Longrightarrow> sys_step cr (pr_system s) ev sy \<Longrightarrow>
     process_step cr s (Serve ev) (s\<lparr>pr_system := sy\<rparr>)"

inductive_cases process_step_exited: "process_step cr s e t"

subsection \<open>What a process does is a run of the system\<close>

lemma step_system:
  "process_step cr s e t \<Longrightarrow> pr_system t = pr_system s \<or> (\<exists>ev. sys_step cr (pr_system s) ev (pr_system t))"
  by (induction rule: process_step.induct) auto

lemma process_run_system:
  "run (process_step cr) s es t \<Longrightarrow> \<exists>evs. run (sys_step cr) (pr_system s) evs (pr_system t)"
proof (induction rule: run.induct)
  case (run_nil s)
  show ?case by (metis run.run_nil)
next
  case (run_cons s e t es u)
  with step_system [OF run_cons(1)] show ?case by (metis run.run_cons)
qed

text \<open>No stream reaches the server before a listener has bound its address.\<close>

lemma no_stream_unbound:
  assumes "run (process_step cr) s es t" "\<forall>x \<in> set (pr_listeners s). snd x = Binding"
    and "\<And>n. sy_conns (pr_system s) n = Idle" "\<And>i. Bind i True \<notin> set es"
  shows "pr_system t = pr_system s"
proof -
  have idle: "\<not> sys_step cr sy ev sy'" if "\<And>n. sy_conns sy n = Idle" "\<not> accepting ev" for sy ev sy'
    using that by (auto elim!: sys_stepE)
  have "pr_system t = pr_system s \<and> pr_listeners t = pr_listeners s"
    using assms
  proof (induction rule: run.induct)
    case (run_nil s)
    show ?case by simp
  next
    case (run_cons s e t es u)
    have "pr_system t = pr_system s \<and> pr_listeners t = pr_listeners s"
      using run_cons(1)
    proof cases
      case (stream i l handshake n uuid sy)
      then have "(l, Accepting) \<in> set (pr_listeners s)" by (metis nth_mem)
      with run_cons.prems(1) show ?thesis by fastforce
    qed (use run_cons.prems idle in auto)
    with run_cons show ?case by simp
  qed
  then show ?thesis by simp
qed

text \<open>A failed \<open>accept\<close> or \<open>bind\<close> ends the process: nothing happens any more.\<close>

fun fatal :: "net_event \<Rightarrow> bool" where
  "fatal (Bind i ok) = (\<not> ok)"
| "fatal (AcceptError i e) = True"
| "fatal _ = False"

lemma exited_stuck:
  assumes "pr_exit s \<noteq> None" "run (process_step cr) s es t"
  shows "t = s \<and> es = []"
  using assms(2,1) by (cases rule: run.cases) (auto elim!: process_step_exited)

lemma step_exit:
  assumes "process_step cr s e t"
  shows "pr_exit s = None" "pr_exit t \<noteq> None \<longleftrightarrow> fatal e"
  using assms by (induction rule: process_step.induct) auto

lemma run_exit:
  "run (process_step cr) s es t \<Longrightarrow> pr_exit s = None \<Longrightarrow>
   (\<forall>x \<in> set (butlast es). \<not> fatal x) \<and> (pr_exit t \<noteq> None \<longleftrightarrow> es \<noteq> [] \<and> fatal (last es))"
proof (induction rule: run.induct)
  case (run_cons s e t es u)
  show ?case
  proof (cases "fatal e")
    case True
    then have "u = t" "es = []" using exited_stuck [of t cr es u] run_cons(2) step_exit(2) [OF run_cons(1)] by auto
    with True step_exit(2) [OF run_cons(1)] show ?thesis by simp
  next
    case False
    then have "pr_exit t = None" using step_exit(2) [OF run_cons(1)] by simp
    with False run_cons.IH step_exit(2) [OF run_cons(1)] run_cons(2) show ?thesis by (cases es) auto
  qed
qed simp

text \<open>From a successful start on, the server of the process keeps every invariant of a run.\<close>

lemma process_run_ok:
  assumes "db_wf d" "sv = server_new lease d" "run (process_step cr) (process_start sv ls) es t"
  shows "sys_ok (pr_system t)"
proof -
  have "starts (pr_system (process_start sv ls))"
    using assms(1,2) by (auto simp: starts_def sys_start_def process_start_def)
  with process_run_system [OF assms(3)] show ?thesis using sys.reach_inv by blast
qed

text \<open>C39. The life of the process after a successful start: whatever the listeners accept and the
  connections do, the server stays within the system invariant; and the first failed \<open>bind\<close> or \<open>accept\<close>,
  of either listener, is the last thing that happens, with every connection there was at the time.\<close>

theorem process_lifetime:
  assumes start: "main_start lib open_file cr ws env d = (Inr (sv, ls), d')" and wf: "db_wf d"
    and run: "run (process_step cr') (process_start sv ls) es t"
  shows "sys_ok (pr_system t) \<and> (\<forall>x \<in> set (butlast es). \<not> fatal x)
    \<and> (pr_exit t \<noteq> None \<longleftrightarrow> es \<noteq> [] \<and> fatal (last es))"
proof -
  obtain path where "store_open open_file cr ws path d = (Inr (), d')"
      and sv: "sv = server_new (env ''AIRCD_TASK_LEASE_SECONDS'') d'"
    using main_start_Inr [OF start] by blast
  then have "db_wf d'" using keepsD_eq [OF keeps_db_wf_init wf store_open_Inr] by blast
  with process_run_ok [OF _ sv run] run_exit [OF run] show ?thesis by (simp add: process_start_def)
qed

theorem process_lifetime_witness:
  "\<exists>sv ls es t. run (process_step demo_crypto) (process_start sv (ls :: unit listener list)) es t
    \<and> length es = 2 \<and> sys_ok (pr_system t) \<and> pr_exit t \<noteq> None"
proof -
  obtain d' where d': "main_start demo_lib (\<lambda>_. Inr ()) demo_crypto demo_draws demo_env empty_db
    = (Inr (server_new None d', [Listen ''127.0.0.1:6667'', ListenTls ''127.0.0.1:6697'' ()]), d')"
    using demo_start by blast
  let ?sv = "server_new None d'" and ?ls = "[Listen ''127.0.0.1:6667'', ListenTls ''127.0.0.1:6697'' ()]"
  let ?s = "process_start ?sv ?ls"
  let ?t = "?s\<lparr>pr_listeners := (pr_listeners ?s)[0 := (Listen ''127.0.0.1:6667'', Accepting)]\<rparr>"
  let ?es = "[Bind 0 True, AcceptError 0 ''Too many open files'']"
  have "process_step demo_crypto ?s (Bind 0 True) ?t"
    by (rule process_step.bound) (simp_all add: process_start_def)
  moreover have "process_step demo_crypto ?t (AcceptError 0 ''Too many open files'')
      (?t\<lparr>pr_exit := Some (Anyhow ''Too many open files'')\<rparr>)"
    by (rule process_step.accept_error) (simp_all add: process_start_def)
  ultimately have r: "run (process_step demo_crypto) ?s ?es (?t\<lparr>pr_exit := Some (Anyhow ''Too many open files'')\<rparr>)"
    unfolding run_simps by blast
  let ?u = "?t\<lparr>pr_exit := Some (Anyhow ''Too many open files'')\<rparr>"
  have "sys_ok (pr_system ?u) \<and> pr_exit ?u \<noteq> None" using process_lifetime [OF d' db_wf_empty r] by simp
  moreover have "length ?es = 2" by simp
  ultimately show ?thesis using r by blast
qed

end
