(* ===== verification/Lines.thy ===== *)
theory Lines
  imports Client System
begin

section \<open>The type of a line\<close>

text \<open>
  A queue carries \<open>String\<close>s, but the socket carries lines: what the writer task sends of one
  queue entry must be one line, and one that the client's parser accepts. \<open>server_line\<close> is
  that type. \<open>yields\<close> is its typing judgement for operations: from a state whose texts are
  in order an operation goes to such a state and returns a value, or an error message, in order.
  Every handler has its rule, so every step of the system preserves the type.
\<close>

named_theorems yield_rules \<open>typing rules for operations\<close>

subsection \<open>Texts without a line feed\<close>

definition one_line :: "string \<Rightarrow> bool" where
  "one_line s \<longleftrightarrow> CHR 0x0A \<notin> set s"

lemma one_line_simps [simp]:
  "one_line []"
  "one_line (c # s) \<longleftrightarrow> c \<noteq> CHR 0x0A \<and> one_line s"
  "one_line (s @ t) \<longleftrightarrow> one_line s \<and> one_line t"
  by (auto simp: one_line_def)

lemma one_line_sub: "one_line t \<Longrightarrow> set s \<subseteq> set t \<Longrightarrow> one_line s"
  by (auto simp: one_line_def)

lemma one_line_show_int [simp]: "one_line (show_int i)"
proof -
  have "one_line (show_nat n)" for n
    using show_nat_digits [of "CHR 0x0A" n] by (auto simp: one_line_def is_digit_def less_eq_char_def)
  then show ?thesis by (simp add: show_int_def)
qed

lemma one_line_join: "one_line sep \<Longrightarrow> \<forall>w \<in> set ws. one_line w \<Longrightarrow> one_line (join sep ws)"
  using set_join [of sep ws] by (auto simp: one_line_def)

lemma to_upper_lf: "to_upper_char c = CHR 0x0A \<longleftrightarrow> c = CHR 0x0A"
proof -
  have "char_of (n - 32) \<noteq> CHR 0x0A" if "97 \<le> n" "n \<le> 122" for n :: nat
  proof
    assume "char_of (n - 32) = CHR 0x0A"
    then have "of_char (char_of (n - 32) :: char) = (of_char (CHR 0x0A) :: nat)" by simp
    with that show False by simp
  qed
  then show ?thesis by (auto simp: to_upper_char_def less_eq_char_def)
qed

lemma one_line_upper [simp]: "one_line (to_ascii_uppercase s) = one_line s"
  by (induction s) (simp_all add: to_ascii_uppercase_def to_upper_lf)

lemma one_line_trim: "one_line s \<Longrightarrow> one_line (trim s)"
  unfolding trim_def trim_end_def trim_start_def
  by (erule one_line_sub) (auto dest!: set_dropWhileD)

lemma one_line_split_once: "split_once pat s = Some (a, b) \<Longrightarrow> one_line s \<Longrightarrow> one_line a \<and> one_line b"
  by (drule split_once_Some) simp

lemma set_split_whitespace: "w \<in> set (split_whitespace s) \<Longrightarrow> set w \<subseteq> set s"
proof (induction s rule: split_whitespace.induct)
  case 1
  then show ?case by simp
next
  case (2 c cs)
  then show ?case by (auto split: if_splits dest: set_takeWhileD set_dropWhileD)
qed

lemma one_line_words: "one_line s \<Longrightarrow> w \<in> set (split_whitespace s) \<Longrightarrow> one_line w"
  using set_split_whitespace one_line_sub by blast

lemma one_line_normalize: "one_line c \<Longrightarrow> one_line (normalize_channel c)"
  by (simp add: normalize_channel_def one_line_trim Let_def)

subsection \<open>Commands\<close>

fun command_texts :: "command \<Rightarrow> string list" where
  "command_texts (Pass t) = [t]"
| "command_texts (Nick t) = [t]"
| "command_texts (User t) = [t]"
| "command_texts (Join t) = [t]"
| "command_texts (Part t) = [t]"
| "command_texts (Privmsg t b) = [t, b]"
| "command_texts (Ping t) = [t]"
| "command_texts Pong = []"
| "command_texts Quit = []"
| "command_texts (Cap t cs) = t # cs"
| "command_texts (History c a l) = (case c of None \<Rightarrow> [] | Some t \<Rightarrow> [t])"
| "command_texts (TaskCreate t b) = [t, b]"
| "command_texts (TaskClaim t) = [t]"
| "command_texts (TaskDone t) = [t]"
| "command_texts (TaskRelease t) = [t]"
| "command_texts (TaskList t) = [t]"
| "command_texts (Unknown t) = [t]"

lemma one_line_part_or: "one_line d \<Longrightarrow> \<forall>w \<in> set parts. one_line w \<Longrightarrow> one_line (part_or d i parts)"
  by (simp add: part_or_def)

lemma one_line_rest:
  "\<forall>w \<in> set parts. one_line w \<Longrightarrow> one_line (join '' '' (drop k parts))"
  by (intro one_line_join) (auto dest: in_set_dropD)

lemma one_line_trailing:
  "\<forall>w \<in> set parts. one_line w \<Longrightarrow> pred_option one_line trailing \<Longrightarrow>
   one_line (case trailing of Some t \<Rightarrow> t | None \<Rightarrow> join '' '' (drop k parts))"
  by (cases trailing) (simp_all add: one_line_rest)

lemma parse_task_texts:
  assumes "\<forall>w \<in> set parts. one_line w" "pred_option one_line trailing" "t \<in> set (command_texts (parse_task parts trailing))"
  shows "one_line t"
proof (cases parts)
  case Nil
  with assms(3) show ?thesis by (simp add: parse_task_def)
next
  case (Cons first ws)
  have "one_line (part_or [] 1 parts)" using assms(1) by (simp add: one_line_part_or)
  with assms(1,3) one_line_trailing [OF assms(1,2), of 2, unfolded Cons] show ?thesis
    by (auto simp: Cons parse_task_def Let_def split: if_splits)
qed

lemma parse_chathistory_texts:
  assumes "\<forall>w \<in> set parts. one_line w" "t \<in> set (command_texts (parse_chathistory parts))"
  shows "one_line t"
proof -
  have "one_line (parts ! k)" if "k < length parts" for k using assms(1) that by simp
  with assms(2) show ?thesis by (auto simp: parse_chathistory_def split: if_splits)
qed

lemma parse_verb_texts:
  assumes "one_line verb" "\<forall>w \<in> set parts. one_line w" "pred_option one_line trailing"
    and "t \<in> set (command_texts (parse_verb verb parts trailing))"
  shows "one_line t"
proof -
  note rest = one_line_trailing [OF assms(2,3)]
  have part: "one_line (part_or [] k parts)" for k using assms(2) by (simp add: one_line_part_or)
  have all: "one_line (join '' '' parts)" using one_line_rest [OF assms(2), of 0] by simp
  show ?thesis
    using assms(1,4) rest part all one_line_words [OF rest] parse_task_texts [OF assms(2,3)]
      parse_chathistory_texts [OF assms(2)]
    unfolding parse_verb_def Let_def by (auto split: if_splits)
qed

lemma parse_command_texts:
  assumes "one_line line" "t \<in> set (command_texts (parse_command line))"
  shows "one_line t"
proof -
  have "one_line (strip_tags_and_prefix (trim line))"
    using one_line_trim [OF assms(1)]
    by (auto simp: strip_tags_and_prefix_def Let_def dest: one_line_split_once split: option.splits)
  then obtain head trailing where h: "split_trailing (strip_tags_and_prefix (trim line)) = (head, trailing)"
      "one_line head" "pred_option one_line trailing"
    by (cases "split_trailing (strip_tags_and_prefix (trim line))")
       (auto simp: split_trailing_def dest: one_line_split_once split: option.splits)
  have ws: "\<forall>w \<in> set (split_whitespace head). one_line w" using one_line_words [OF h(2)] by blast
  then have "one_line (to_ascii_uppercase (part_or [] 0 (split_whitespace head)))" by (simp add: one_line_part_or)
  moreover have "\<forall>w \<in> set (drop 1 (split_whitespace head)). one_line w" using ws by (meson in_set_dropD)
  moreover have "t \<in> set (command_texts (parse_verb (to_ascii_uppercase (part_or [] 0 (split_whitespace head)))
      (drop 1 (split_whitespace head)) trailing))"
    using assms(2) by (simp add: parse_command_def h(1) Let_def)
  ultimately show ?thesis using parse_verb_texts h(3) by blast
qed

subsection \<open>Lines a client can parse\<close>

text \<open>A prefix with a space behind it, perhaps after a tag section that has no space of its own.\<close>

fun framed :: "string \<Rightarrow> bool" where
  "framed [] \<longleftrightarrow> False"
| "framed (c # s) \<longleftrightarrow>
     (if c = CHR '':'' then CHR '' '' \<in> set s
      else c = CHR ''@'' \<and>
        (case split_once '' '' s of
           None \<Rightarrow> False
         | Some (_, r) \<Rightarrow> starts_with r '':'' \<and> CHR '' '' \<in> set r))"

definition server_line :: "string \<Rightarrow> bool" where
  "server_line l \<longleftrightarrow> one_line l \<and> framed l"

lemma server_line_prefixed [simp]: "server_line (CHR '':'' # s) \<longleftrightarrow> one_line s \<and> CHR '' '' \<in> set s"
  by (simp add: server_line_def)

lemma framed_tagged: "CHR '' '' \<notin> set t \<Longrightarrow> CHR '' '' \<in> set r \<Longrightarrow> framed (CHR ''@'' # t @ CHR '' '' # CHR '':'' # r)"
  by (simp add: split_once_char starts_with_def)

text \<open>The reader of the Python client never meets its \<open>ValueError\<close> on such a line.\<close>

lemma framed_parses:
  assumes "framed l"
  shows "parse_irc_line l \<noteq> None"
proof -
  have pre: "take_prefix (CHR '':'' # s) \<noteq> None" if "CHR '' '' \<in> set s" for s
    using that split_once_char_None [of "CHR '' ''" "CHR '':'' # s"]
    by (auto simp: take_prefix_def starts_with_def split: option.split)
  obtain c s where l: "l = c # s" using assms by (cases l) auto
  show ?thesis
  proof (cases "c = CHR '':''")
    case True
    then have "read_tags l = Some (Map.empty, l)" by (simp add: l read_tags_def starts_with_def)
    with pre [of s] True assms show ?thesis
      by (auto simp: parse_irc_line_def l split: option.splits prod.splits)
  next
    case False
    with assms obtain a r where r: "c = CHR ''@''" "split_once '' '' s = Some (a, r)" "starts_with r '':''" "CHR '' '' \<in> set r"
      by (auto simp: l split: if_splits option.splits)
    then have "split_once '' '' l = Some (c # a, r)" by (simp add: l)
    then have "\<exists>m. read_tags l = Some (m, r)" using r(1) by (simp add: l read_tags_def starts_with_def)
    moreover obtain r' where "r = CHR '':'' # r'" using r(3) by (cases r) (auto simp: starts_with_def)
    moreover from this have "CHR '' '' \<in> set r'" using r(4) by simp
    ultimately show ?thesis using pre [of r']
      by (auto simp: parse_irc_line_def split: option.splits prod.splits)
  qed
qed

lemma server_line_tags:
  assumes "\<forall>kv \<in> set tags. tag_key (fst kv)" "one_line s" "CHR '' '' \<in> set s"
  shows "server_line (format_message_tags tags @ '' :'' @ s)"
proof -
  have safe: "CHR '' '' \<notin> set (join '';'' (map format_tag tags)) \<and> CHR 0x0A \<notin> set (join '';'' (map format_tag tags))"
  proof -
    have "\<forall>w \<in> set (map format_tag tags). CHR '' '' \<notin> set w \<and> CHR 0x0A \<notin> set w"
      using assms(1) tag_safe_format_tag by (auto simp: tag_safe_def)
    then show ?thesis using set_join [of "'';''" "map format_tag tags"] by auto
  qed
  then show ?thesis
    using assms(2,3) framed_tagged [of "join '';'' (map format_tag tags)" s]
    by (simp add: server_line_def format_message_tags_def one_line_def)
qed

subsection \<open>States whose texts are in order\<close>

definition db_lines :: "db \<Rightarrow> bool" where
  "db_lines d \<longleftrightarrow>
     (\<forall>p \<in> set (principals d). one_line (p_id p) \<and> one_line (p_nick p) \<and> pred_option one_line (p_team p))
     \<and> (\<forall>m \<in> set (channel_memberships d). one_line (m_channel m))
     \<and> (\<forall>m \<in> set (messages d). one_line (sm_msg_id m) \<and> one_line (sm_channel m) \<and> one_line (sm_sender_id m)
          \<and> one_line (sm_body m))
     \<and> (\<forall>t \<in> set (tasks d). one_line (t_id t) \<and> one_line (t_channel t) \<and> one_line (t_title t) \<and> one_line (t_status t)
          \<and> pred_option one_line (t_claimed_by t))"

definition sv_lines :: "server \<Rightarrow> bool" where
  "sv_lines sv \<longleftrightarrow> db_lines (sv_db sv) \<and> (\<forall>n. list_all server_line (q_sent (outs sv n)))
     \<and> (\<forall>n. list_all one_line (q_sent (shuts sv n)))"

definition principal_lines :: "principal \<Rightarrow> bool" where
  "principal_lines p \<longleftrightarrow> one_line (pr_id p) \<and> one_line (pr_nick p) \<and> pred_option one_line (pr_team p)"

definition session_lines :: "session \<Rightarrow> bool" where
  "session_lines se \<longleftrightarrow> pred_option principal_lines (s_principal se) \<and> pred_option one_line (s_nick se)"

definition message_lines :: "stored_message \<Rightarrow> bool" where
  "message_lines m \<longleftrightarrow> one_line (sm_msg_id m) \<and> one_line (sm_channel m) \<and> one_line (sm_sender_id m) \<and> one_line (sm_body m)"

definition task_lines :: "'a task_scheme \<Rightarrow> bool" where
  "task_lines t \<longleftrightarrow> one_line (t_id t) \<and> one_line (t_channel t) \<and> one_line (t_title t) \<and> one_line (t_status t)
     \<and> pred_option one_line (t_claimed_by t)"

definition inputs_lines :: "inputs \<Rightarrow> bool" where
  "inputs_lines inp \<longleftrightarrow> one_line (i_uuid inp) \<and> one_line (i_log_uuid inp)"

lemma sv_lines_simps [simp]:
  "sv_lines (sv\<lparr>sv_inner := i\<rparr>) = sv_lines sv"
  "sv_lines (sv\<lparr>sv_legacy_hits := h\<rparr>) = sv_lines sv"
  "sv_lines (sv\<lparr>sv_db := d\<rparr>) \<longleftrightarrow> db_lines d \<and> sv_lines (sv\<lparr>sv_db := empty_db\<rparr>)"
  by (auto simp: sv_lines_def db_lines_def empty_db_def)

subsection \<open>The typing judgement\<close>

fun good :: "('a \<Rightarrow> bool) \<Rightarrow> err + 'a \<Rightarrow> bool" where
  "good P (Inr x) = P x"
| "good P (Inl (Anyhow e)) = one_line e"
| "good P (Inl (Panic e)) = True"

definition yields :: "('s \<Rightarrow> bool) \<Rightarrow> ('a \<Rightarrow> bool) \<Rightarrow> ('s, 'a) act \<Rightarrow> bool" where
  "yields I P m \<longleftrightarrow> (\<forall>s r t. I s \<longrightarrow> m s = (r, t) \<longrightarrow> I t \<and> good P r)"

abbreviation any :: "'a \<Rightarrow> bool" where "any \<equiv> \<lambda>_. True"

lemma yieldsI: "(\<And>s r t. I s \<Longrightarrow> m s = (r, t) \<Longrightarrow> I t \<and> good P r) \<Longrightarrow> yields I P m"
  by (simp add: yields_def)

lemma yieldsD: "yields I P m \<Longrightarrow> I s \<Longrightarrow> m s = (r, t) \<Longrightarrow> I t \<and> good P r"
  by (simp add: yields_def)

lemma yields_basic [yield_rules]:
  "P x \<Longrightarrow> yields I P (ret x)"
  "one_line e \<Longrightarrow> yields I P (raise (Anyhow e))"
  "(\<And>s. I s \<Longrightarrow> P (f s)) \<Longrightarrow> yields I P (reads f)"
  "good P r \<Longrightarrow> yields I P (lift_res r)"
  by (simp_all add: yields_def run_act)

lemma yields_modify [yield_rules]: "(\<And>s. I s \<Longrightarrow> I (g s)) \<Longrightarrow> P () \<Longrightarrow> yields I P (modify g)"
  by (simp add: yields_def run_modify)

lemma yields_and_then:
  assumes m: "yields I Q m" and k: "\<And>x. Q x \<Longrightarrow> yields I P (k x)"
  shows "yields I P (and_then m k)"
proof (rule yieldsI)
  fix s r t assume s: "I s" and run: "and_then m k s = (r, t)"
  obtain r1 t1 where m1: "m s = (r1, t1)" by (cases "m s")
  from yieldsD [OF m s m1] have D: "I t1" "good Q r1" by simp_all
  show "I t \<and> good P r"
  proof (cases r1)
    case (Inl e)
    with run m1 D show ?thesis by (cases e) (auto simp: and_then_def)
  next
    case (Inr x)
    with run m1 D k show ?thesis by (auto simp: and_then_def dest: yieldsD)
  qed
qed

lemma yields_or_else:
  assumes m: "yields I Q m" and e: "\<And>e. one_line e \<Longrightarrow> yields I P (err e)" and k: "\<And>x. Q x \<Longrightarrow> yields I P (k x)"
  shows "yields I P (or_else m err k)"
proof (rule yieldsI)
  fix s r t assume s: "I s" and run: "or_else m err k s = (r, t)"
  obtain r1 t1 where m1: "m s = (r1, t1)" by (cases "m s")
  from yieldsD [OF m s m1] have D: "I t1" "good Q r1" by simp_all
  show "I t \<and> good P r"
  proof (cases r1)
    case (Inl x)
    with run m1 D e show ?thesis by (cases x) (auto simp: or_else_def dest: yieldsD)
  next
    case (Inr x)
    with run m1 D k show ?thesis by (auto simp: or_else_def dest: yieldsD)
  qed
qed

lemma yields_for_each [yield_rules]:
  "(\<And>x. x \<in> set xs \<Longrightarrow> yields I any (body x)) \<Longrightarrow> yields I any (for_each xs body)"
  by (induction xs) (auto intro!: yields_basic yields_and_then [where Q = any])

lemma yields_if [yield_rules]:
  "(c \<Longrightarrow> yields I P m) \<Longrightarrow> (\<not> c \<Longrightarrow> yields I P n) \<Longrightarrow> yields I P (if c then m else n)"
  by simp

lemma yields_option [yield_rules]:
  "(x = None \<Longrightarrow> yields I P m) \<Longrightarrow> (\<And>y. x = Some y \<Longrightarrow> yields I P (k y)) \<Longrightarrow>
   yields I P (case x of None \<Rightarrow> m | Some y \<Rightarrow> k y)"
  by (cases x) auto

lemma good_mono: "good P r \<Longrightarrow> (\<And>x. P x \<Longrightarrow> Q x) \<Longrightarrow> good Q r"
  by (induction P r rule: good.induct) simp_all

lemma yields_mono: "yields I P m \<Longrightarrow> (\<And>x. P x \<Longrightarrow> Q x) \<Longrightarrow> yields I Q m"
  unfolding yields_def using good_mono [of P _ Q] by blast

text \<open>Operations on the database.\<close>

lemma yields_on_db:
  assumes "yields db_lines P m"
  shows "yields sv_lines P (on_db m)"
proof (rule yieldsI)
  fix sv r t assume s: "sv_lines sv" and run: "on_db m sv = (r, t)"
  obtain r1 d1 where m: "m (sv_db sv) = (r1, d1)" by (cases "m (sv_db sv)")
  have "db_lines (sv_db sv)" using s by (simp add: sv_lines_def)
  from yieldsD [OF assms this m] run m s show "sv_lines t \<and> good P r"
    by (simp add: on_db_def) (auto simp: sv_lines_def)
qed

lemma db_lines_members:
  "db_lines d \<Longrightarrow> db_lines (mark_seen p c s d)"
  "db_lines d \<Longrightarrow> db_lines (mark_connected now p d)"
  "db_lines d \<Longrightarrow> db_lines (mark_disconnected now p d)"
  "db_lines d \<Longrightarrow> one_line c \<Longrightarrow> db_lines (add_membership now p c d)"
  "db_lines d \<Longrightarrow> db_lines (remove_membership p c d)"
  by (auto simp: db_lines_def mark_seen_def mark_connected_def mark_disconnected_def update_members_def
      update_principals_def update_where_def add_membership_def remove_membership_def delete_where_def)

lemma yields_history_append:
  assumes "one_line u" "one_line ch" "one_line s" "one_line b"
  shows "yields db_lines message_lines (history_append u now ch s b)"
  unfolding history_append_def Let_def
  by (intro yields_and_then [where Q = any] yield_rules)
     (use assms in \<open>auto simp: db_lines_def message_lines_def\<close>)

lemma row_of_in: "row_of key rows k = Some r \<Longrightarrow> r \<in> set rows"
  by (auto simp: row_of_def query_row_def dest: filter_eq_first split: list.splits)

lemma db_lines_tasks: "db_lines (d\<lparr>tasks := ts\<rparr>) \<longleftrightarrow> db_lines (d\<lparr>tasks := []\<rparr>) \<and> (\<forall>t \<in> set ts. task_lines t)"
  by (auto simp: db_lines_def task_lines_def)

lemma db_lines_tasksD: "db_lines d \<Longrightarrow> t \<in> set (tasks d) \<Longrightarrow> task_lines t" "db_lines d \<Longrightarrow> db_lines (d\<lparr>tasks := []\<rparr>)"
  by (auto simp: db_lines_def task_lines_def)

lemma task_lines_row: "task_lines (task_from_row r) = task_lines r"
  by (simp add: task_lines_def task_from_row_def task.defs)

lemma yields_get_locked: "yields db_lines task_lines (get_locked i)"
proof -
  have "yields db_lines (pred_option task_lines) (reads (\<lambda>d. row_of t_id (tasks d) i))"
    by (rule yield_rules) (auto simp: pred_option_def dest: db_lines_tasksD row_of_in)
  then show ?thesis unfolding get_locked_def
    by (rule yields_and_then) (intro yield_rules, simp_all add: task_lines_row)
qed

lemma yields_update_tasks:
  assumes "\<And>r. task_lines r \<Longrightarrow> P r \<Longrightarrow> task_lines (f r)"
  shows "yields db_lines any (update_tasks P f)"
proof -
  have "db_lines (d\<lparr>tasks := snd (update_where P f (tasks d))\<rparr>)" if "db_lines d" for d
    by (rule db_lines_tasks [THEN iffD2]) (use that assms in \<open>auto simp: update_where_def dest: db_lines_tasksD\<close>)
  then show ?thesis unfolding update_tasks_def
    by (intro yields_and_then [where Q = any] yield_rules) simp_all
qed

lemma yields_tasks_create:
  assumes "one_line u" "one_line c" "one_line t"
  shows "yields db_lines task_lines (tasks_create u now c t)"
proof -
  have new: "task_lines \<lparr>t_id = ''task_'' @ u, t_channel = c, t_title = t, t_status = ''open'', t_claimed_by = None,
      t_lease_expires_at = None, t_created_at = x, t_updated_at = y\<rparr>" for x y
    using assms by (simp add: task_lines_def)
  have "db_lines (d\<lparr>tasks := tasks d @ [r]\<rparr>)" if "db_lines d" "task_lines r" for d r
    by (rule db_lines_tasks [THEN iffD2]) (use that in \<open>auto dest: db_lines_tasksD\<close>)
  with new show ?thesis
    unfolding tasks_create_def Let_def
    by (intro yields_and_then [where Q = any] yield_rules) (simp_all add: task_lines_row)
qed

lemma yields_tasks:
  "one_line p \<Longrightarrow> yields db_lines task_lines (tasks_claim l now i p)"
  "yields db_lines task_lines (tasks_done now i p)"
  "yields db_lines task_lines (tasks_release now i p)"
  unfolding tasks_claim_def tasks_done_def tasks_release_def
  by (intro yields_and_then [where Q = any] yields_basic yields_if yields_update_tasks yields_get_locked;
      auto simp: add_i64_def task_lines_def)+

subsection \<open>Handlers\<close>

lemma sv_lines_push: "sv_lines sv \<Longrightarrow> list_all server_line ls \<Longrightarrow> sv_lines (push n ls sv)"
  by (auto simp: sv_lines_def send_all_def)

lemma yields_send:
  "server_line l \<Longrightarrow> yields sv_lines any (session_send se l)"
  "server_line l \<Longrightarrow> yields sv_lines any (send_out n l)"
  "one_line r \<Longrightarrow> yields sv_lines any (send_shutdown n r)"
  "yields sv_lines any (on_inner f)"
  by (auto simp: yields_def session_send_run send_out_run send_shutdown_run on_inner_run intro!: sv_lines_push)
     (auto simp: sv_lines_def send_all_def)

lemma one_line_server [simp]: "one_line SERVER_NAME"
  by (simp add: SERVER_NAME_def)

lemma yields_principal: "session_lines se \<Longrightarrow> yields sv_lines principal_lines (lift_res (session_principal se))"
  by (rule yields_basic) (auto simp: session_principal_def session_lines_def split: option.split)

lemma yields_seen: "yields sv_lines any (on_db (modify (mark_seen p c s)))"
  by (intro yields_on_db yield_rules) (simp_all add: db_lines_members)

lemma yields_broadcasts:
  assumes "server_line l"
  shows "yields sv_lines any (broadcast_raw c l)" "yields sv_lines any (broadcast_message c l s)"
  unfolding broadcast_raw_def broadcast_message_def deliver_def
  by (intro yields_and_then [where Q = any] yield_rules yields_send yields_seen assms TrueI)+

lemma server_line_privmsg:
  assumes "one_line sender" "one_line c" "one_line b"
  shows "server_line (privmsg_line (metadata_tags s i t r) sender c b)"
proof -
  have "\<forall>kv \<in> set ([(''seq'', show_int s), (''msg-id'', i), (''time'', show_int t)] @ (if r then [(''replay'', ''1'')] else [])).
      tag_key (fst kv)"
    by (simp add: tag_key_def tag_safe_def)
  from server_line_tags [OF this, of "sender @ '' PRIVMSG '' @ c @ '' :'' @ b"] assms
  show ?thesis by (simp add: privmsg_line_def metadata_tags_def)
qed

lemma server_line_event:
  assumes "task_lines t" "one_line b"
  shows "server_line (format_message_tags (task_event_tags m t action status actor)
    @ '' :'' @ SERVER_NAME @ '' NOTICE '' @ t_channel t @ '' :'' @ b)"
proof -
  have "\<forall>kv \<in> set (task_event_tags m t action status actor). tag_key (fst kv)"
    by (auto simp: task_event_tags_def tag_key_def tag_safe_def)
  from server_line_tags [OF this, of "SERVER_NAME @ '' NOTICE '' @ t_channel t @ '' :'' @ b"] assms
  show ?thesis by (simp add: task_lines_def)
qed

lemma yields_task_event:
  assumes "inputs_lines inp" "task_lines t" "one_line b"
  shows "yields sv_lines any (broadcast_task_event inp t action status actor b)"
  unfolding broadcast_task_event_def
  by (intro yields_and_then [where Q = message_lines] yields_on_db yields_history_append yields_broadcasts server_line_event)
     (use assms in \<open>simp_all add: inputs_lines_def task_lines_def\<close>)

lemma yields_privmsg:
  assumes "session_lines se" "inputs_lines inp" "one_line c" "one_line b"
  shows "yields sv_lines any (privmsg inp se c b)"
  unfolding privmsg_def
proof (rule yields_and_then [OF yields_principal [OF assms(1)]])
  fix p assume p: "principal_lines p"
  show "yields sv_lines any (and_then (reads (\<lambda>sv. is_member (pr_id p) c (sv_db sv))) (\<lambda>member.
       if \<not> member then
         session_send se ('':'' @ SERVER_NAME @ '' 442 '' @ pr_nick p @ '' '' @ c
           @ '' :You'' @ [CHR 0x27] @ ''re not on that channel'')
       else
         and_then (on_db (history_append (i_log_uuid inp) (i_log_now inp) c (pr_id p) b))
           (\<lambda>m. broadcast_message c
              (privmsg_line (metadata_tags (sm_seq m) (sm_msg_id m) (sm_created_at m) False)
                 (pr_nick p) c b)
              (sm_seq m))))"
    by (intro yields_and_then [where Q = any and m = "reads _"] yields_and_then [where Q = message_lines and m = "on_db _"]
        yields_basic yields_if yields_send yields_on_db yields_history_append yields_broadcasts server_line_privmsg)
       (use p assms in \<open>simp_all add: principal_lines_def inputs_lines_def\<close>)
qed

lemma inputs_linesD [simp]: "inputs_lines inp \<Longrightarrow> one_line (i_uuid inp)" "inputs_lines inp \<Longrightarrow> one_line (i_log_uuid inp)"
  by (simp_all add: inputs_lines_def)

lemma principal_linesD [simp]:
  "principal_lines p \<Longrightarrow> one_line (pr_id p)" "principal_lines p \<Longrightarrow> one_line (pr_nick p)"
  "principal_lines p \<Longrightarrow> pred_option one_line (pr_team p)"
  by (simp_all add: principal_lines_def)

lemma task_linesD [simp]:
  "task_lines t \<Longrightarrow> one_line (t_id t)" "task_lines t \<Longrightarrow> one_line (t_channel t)" "task_lines t \<Longrightarrow> one_line (t_title t)"
  "task_lines t \<Longrightarrow> one_line (t_status t)" "task_lines t \<Longrightarrow> pred_option one_line (t_claimed_by t)"
  by (simp_all add: task_lines_def)

lemma db_lines_empty [simp]: "db_lines empty_db"
  by (simp add: db_lines_def empty_db_def)

lemma yields_db_modify: "(\<And>d. db_lines d \<Longrightarrow> db_lines (f d)) \<Longrightarrow> yields sv_lines any (on_db (modify f))"
  by (intro yields_on_db yield_rules) simp_all

lemma yields_channels:
  assumes "session_lines se" "one_line c"
  shows "yields sv_lines any (join_channel inp se c)" "yields sv_lines any (part_channel se c)"
  unfolding join_channel_def part_channel_def
  by (intro yields_and_then [OF yields_principal [OF assms(1)]] yields_and_then [where Q = any] yields_db_modify yields_send
      yields_broadcasts; use assms(2) in \<open>simp add: db_lines_members\<close>)+

lemma yields_task_failed:
  assumes "principal_lines p" "one_line i" "one_line e" "one_line verb"
  shows "yields sv_lines any (task_failed se p verb action i e)"
proof -
  have "\<forall>kv \<in> set [(''task-id'', i), (''task-action'', action), (''task-status'', ''failed''), (''task-actor'', pr_nick p)]. tag_key (fst kv)"
    by (simp add: tag_key_def tag_safe_def)
  from server_line_tags [OF this, of "SERVER_NAME @ '' NOTICE '' @ pr_nick p @ '' :TASK '' @ verb @ '' '' @ i @ '' failed: '' @ e"] assms
  show ?thesis unfolding task_failed_def by (intro yields_send) (simp add: task_failure_tags_def)
qed

lemma yields_task_create:
  assumes "session_lines se" "inputs_lines inp" "one_line c" "one_line t"
  shows "yields sv_lines any (task_create inp se c t)"
  unfolding task_create_def
  by (intro yields_and_then [OF yields_principal [OF assms(1)]] yields_if yields_and_then [where Q = task_lines and m = "on_db _"]
      yields_on_db yields_tasks_create yields_send yields_task_event; use assms one_line_trim in simp)

lemma yields_task_moves:
  assumes "session_lines se" "inputs_lines inp" "one_line i"
  shows "yields sv_lines any (task_claim inp se i)" "yields sv_lines any (task_done inp se i)"
    "yields sv_lines any (task_release inp se i)"
  unfolding task_claim_def task_done_def task_release_def
  by (intro yields_and_then [OF yields_principal [OF assms(1)]] yields_and_then [where Q = any and m = "reads _"]
      yields_basic yields_or_else [where Q = task_lines] yields_on_db yields_tasks yields_task_failed yields_task_event;
      use assms in simp)+

lemma server_line_task:
  assumes "principal_lines p" "task_lines t"
  shows "server_line (task_line p t)"
proof -
  have "pred_option one_line (t_claimed_by t)" using assms(2) by simp
  with assms show ?thesis by (cases "t_claimed_by t") (simp_all add: task_line_def split: option.split)
qed

lemma tasks_list_lines: "db_lines d \<Longrightarrow> t \<in> set (tasks_list c d) \<Longrightarrow> task_lines t"
  by (auto simp: tasks_list_def task_lines_row dest: db_lines_tasksD)

lemma yields_task_list:
  assumes "session_lines se" "one_line c"
  shows "yields sv_lines any (task_list se c)"
  unfolding task_list_def
proof (intro yields_and_then [OF yields_principal [OF assms(1)]] yields_and_then [where Q = "list_all task_lines" and m = "reads _"])
  show "yields sv_lines (list_all task_lines) (reads (\<lambda>sv. tasks_list c (sv_db sv)))"
    by (rule yields_basic) (auto simp: sv_lines_def list_all_iff dest: tasks_list_lines)
next
  fix p and ts :: "task list" assume "principal_lines p" "list_all task_lines ts"
  with assms(2) show "yields sv_lines any (if ts = [] then session_send se ('':'' @ SERVER_NAME @ '' NOTICE '' @ pr_nick p
           @ '' :No open tasks in '' @ c) else for_each ts (\<lambda>t. session_send se (task_line p t)))"
    by (intro yields_if yields_send yields_for_each server_line_task) (auto simp: list_all_iff)
qed

lemma yields_cap:
  assumes "session_lines se" "one_line sub" "\<forall>w \<in> set ws. one_line w"
  shows "yields sv_lines any (cap se sub ws)"
proof -
  have "one_line (case s_nick se of Some n \<Rightarrow> n | None \<Rightarrow> ''*'')"
    using assms(1) by (auto simp: session_lines_def split: option.split)
  moreover have "one_line (join '' '' METADATA_CAPABILITIES)" by (simp add: METADATA_CAPABILITIES_def)
  moreover have "one_line (join '' '' ws)" using assms(3) by (simp add: one_line_join)
  ultimately show ?thesis
    unfolding cap_def Let_def using assms(2) by (intro yields_if yields_send yields_basic) simp_all
qed


lemma one_line_display_name: "db_lines d \<Longrightarrow> one_line i \<Longrightarrow> one_line (display_name SERVER_NAME i d)"
  by (auto simp: display_name_def db_lines_def split: option.split dest: row_of_in)

lemma history_after_lines: "db_lines d \<Longrightarrow> m \<in> set (history_after c a l d) \<Longrightarrow> message_lines m"
  by (auto simp: history_after_def db_lines_def message_lines_def dest!: in_set_takeD)

lemma memberships_lines: "db_lines d \<Longrightarrow> mb \<in> set (memberships p d) \<Longrightarrow> one_line (mb_channel mb)"
  by (auto simp: memberships_def db_lines_def)

lemma sv_lines_db: "sv_lines sv \<Longrightarrow> db_lines (sv_db sv)"
  by (simp add: sv_lines_def)

lemma yields_replay_message:
  assumes "message_lines m"
  shows "yields sv_lines any (replay_message se m)"
proof -
  have "yields sv_lines one_line (reads (\<lambda>sv. display_name SERVER_NAME (sm_sender_id m) (sv_db sv)))"
    using assms by (intro yields_basic one_line_display_name sv_lines_db) (simp_all add: message_lines_def)
  then show ?thesis unfolding replay_message_def
    by (rule yields_and_then) (use assms in \<open>intro yields_send server_line_privmsg; simp add: message_lines_def\<close>)
qed

lemma yields_replay_channel: "yields sv_lines any (replay_channel se pid a l c)"
proof -
  have "yields sv_lines (list_all message_lines) (reads (\<lambda>sv. history_after c a l (sv_db sv)))"
    by (rule yields_basic) (auto simp: list_all_iff dest: sv_lines_db history_after_lines)
  then show ?thesis unfolding replay_channel_def Let_def
    by (rule yields_and_then)
       (intro yields_and_then [where Q = any] yields_for_each yields_if yields_seen yields_basic yields_replay_message;
        simp add: list_all_iff)
qed

lemma yields_replay_history: "session_lines se \<Longrightarrow> yields sv_lines any (replay_history se cs a l)"
  unfolding replay_history_def
  by (rule yields_and_then [OF yields_principal], assumption) (intro yields_for_each yields_replay_channel)

lemma yields_chathistory:
  assumes "session_lines se"
  shows "yields sv_lines any (chathistory se c a l)"
  unfolding chathistory_def
  by (intro yields_and_then [where Q = any and m = "case c of _ \<Rightarrow> _"] yields_option yields_replay_history assms
      yields_and_then [OF yields_principal [OF assms]] yields_basic TrueI)

lemma authenticate_lines:
  assumes "db_lines d" "authenticate cr token d hits = (Inr p, h)"
  shows "principal_lines p"
proof -
  have row: "principal_lines (principal_of_row r)" if "r \<in> set (principals d)" for r
    using assms(1) that by (auto simp: db_lines_def principal_lines_def principal_of_row_def)
  with authenticate_sound [OF assms(2)] show ?thesis by blast
qed

lemma yields_authenticate: "yields sv_lines (case_sum any principal_lines) (run_authenticate cr token)"
proof (rule yieldsI)
  fix sv r t assume s: "sv_lines sv" and run: "run_authenticate cr token sv = (r, t)"
  obtain a h where a: "authenticate cr token (sv_db sv) (sv_legacy_hits sv) = (a, h)" by fastforce
  with run authenticate_lines [OF sv_lines_db [OF s], of cr token] s
  show "sv_lines t \<and> good (case_sum any principal_lines) r"
    by (auto simp: run_authenticate_def split: sum.splits err.splits)
qed

lemma yields_take_over:
  assumes "principal_lines p"
  shows "yields sv_lines any (take_over p se cs)"
  unfolding take_over_def
  by (intro yields_and_then [where Q = any] yields_send yields_option yields_for_each yields_basic)
     (use assms in \<open>simp_all add: replaced_reason_def\<close>)

lemma server_line_welcome: "principal_lines p \<Longrightarrow> server_line (welcome_line p)"
  using principal_linesD(3) [of p] by (cases "pr_team p") (simp_all add: welcome_line_def)

lemma yields_connected: "yields sv_lines (list_all (\<lambda>mb. one_line (mb_channel mb))) (on_db (mark_connected_and_memberships now pid))"
  unfolding mark_connected_and_memberships_def
  by (intro yields_on_db yields_and_then [where Q = any] yields_modify yields_basic)
     (auto simp: db_lines_members list_all_iff dest: memberships_lines)

lemma yields_register:
  assumes p: "principal_lines p" and se: "session_lines se"
  shows "yields sv_lines session_lines (register inp p se)"
proof -
  have new: "session_lines (se\<lparr>s_nick := Some (pr_nick p), s_principal := Some p, s_registered := True\<rparr>)"
    using p by (simp add: session_lines_def)
  show ?thesis
    unfolding register_def Let_def
    by (intro yields_and_then [OF yields_connected] yields_and_then [where Q = any] yields_take_over yields_send yields_for_each
        yields_if yields_basic server_line_welcome p new)
       (use p new in \<open>auto simp: replay_missed_def replay_notice_def list_all_iff intro!: yields_replay_history\<close>)
qed

lemma yields_try_register:
  assumes "session_lines se"
  shows "yields sv_lines session_lines (try_register cr inp se)"
  unfolding try_register_def
  by (intro yields_if yields_option yields_and_then [OF yields_authenticate] yields_basic assms)
     (use assms in \<open>auto split: sum.split intro!: yields_register yields_and_then [where Q = any] yields_send yields_basic\<close>)

lemma yields_disconnect: "yields sv_lines any (disconnect inp se)"
  unfolding disconnect_def
  by (intro yields_option yields_and_then [where Q = any] yields_if yields_send yields_db_modify yields_basic)
     (simp_all add: db_lines_members)

lemma yields_if_registered:
  assumes "session_lines se" "yields sv_lines any m"
  shows "yields sv_lines (session_lines \<circ> fst) (if_registered se m)"
  unfolding if_registered_def ensure_registered_def
  by (intro yields_and_then [where Q = any] yields_and_then [OF yields_principal [OF assms(1)]] yields_if yields_send yields_basic)
     (use assms in simp_all)

subsection \<open>Every command\<close>

lemma yields_handle_command:
  assumes se: "session_lines se" and inp: "inputs_lines inp" and c: "\<forall>t \<in> set (command_texts cmd). one_line t"
  shows "yields sv_lines (session_lines \<circ> fst) (handle_command cr inp se cmd)"
proof -
  have reg: "yields sv_lines (session_lines \<circ> fst) (and_then (try_register cr inp s) (\<lambda>s. ret (s, False)))" if "session_lines s" for s
    using that by (intro yields_and_then [OF yields_try_register] yields_basic) simp_all
  have out: "yields sv_lines (session_lines \<circ> fst) (and_then m (\<lambda>_. ret (se, False)))" if "yields sv_lines any m" for m :: "(server, unit) act"
    using that se by (intro yields_and_then [OF that] yields_basic) simp_all
  note regd = yields_if_registered [OF se]
  show ?thesis
    using c se inp
    by (cases cmd) (auto intro!: reg out regd yields_basic yields_send yields_cap yields_channels yields_privmsg yields_chathistory
        yields_task_create yields_task_moves yields_task_list simp: one_line_normalize session_lines_def)
qed

lemma yields_handle_line:
  assumes "session_lines se" "inputs_lines inp" "one_line l"
  shows "yields sv_lines (session_lines \<circ> fst) (handle_line cr inp se l)"
  unfolding handle_line_def
  by (intro yields_handle_command assms) (use assms(3) parse_command_texts in blast)

subsection \<open>Every step of the system\<close>

text \<open>
  \<open>next_line\<close> of tokio yields what stands before a line feed, and a UUID is hexadecimal
  digits: neither has a line feed.
\<close>

fun event_lines :: "event \<Rightarrow> bool" where
  "event_lines (Line n inp l) \<longleftrightarrow> inputs_lines inp \<and> one_line l"
| "event_lines _ \<longleftrightarrow> True"

definition sys_lines :: "system \<Rightarrow> bool" where
  "sys_lines sy \<longleftrightarrow> sv_lines (sy_server sy) \<and> (\<forall>n se. sess sy n = Some se \<longrightarrow> session_lines se)"

lemma sys_linesD:
  "sys_lines sy \<Longrightarrow> sv_lines (sy_server sy)"
  "sys_lines sy \<Longrightarrow> sy_conns sy n = Live se \<Longrightarrow> session_lines se"
  by (simp_all add: sys_lines_def sess_def) (metis conn_session.simps(2))

lemma sys_lines_conn:
  assumes "sys_lines sy" "sv_lines sv" "session_lines se" "conn_session c = Some se"
  shows "sys_lines \<lparr>sy_server = sv, sy_conns = (sy_conns sy)(n := c)\<rparr>"
  using assms by (auto simp: sys_lines_def sess_def)

lemma sv_lines_queues [simp]:
  "sv_lines (close_out n sv) = sv_lines sv" "sv_lines (close_shut n sv) = sv_lines sv" "sv_lines (take_out n sv) = sv_lines sv"
  by (auto simp: sv_lines_def close_out_def close_shut_def take_out_def)

lemma sys_lines_accept: "sys_lines sy \<Longrightarrow> sys_lines (accept_conn n u sy)"
  unfolding accept_conn_def Let_def
  by (rule sys_lines_conn)
     (auto simp: session_send_run session_lines_def new_session_def new_mpsc_def send_all_def sv_lines_def sys_lines_def)

lemma sys_lines_drop: "sys_lines sy \<Longrightarrow> sv_lines sv \<Longrightarrow> session_lines se \<Longrightarrow> sys_lines (drop_conn n se sv sy)"
  unfolding drop_conn_def by (rule sys_lines_conn) simp_all

lemma sys_lines_leave:
  assumes "sys_lines sy" "sv_lines sv" "session_lines se"
  shows "sys_lines (leave_loop inp n se sv sy)"
proof -
  obtain r sv' where d: "disconnect inp se sv = (r, sv')" by (cases "disconnect inp se sv")
  with yieldsD [OF yields_disconnect assms(2) d] show ?thesis
    unfolding leave_loop_def d by (cases r) (auto intro!: sys_lines_conn assms)
qed

lemma sys_lines_line:
  assumes ok: "sys_lines sy" and n: "sy_conns sy n = Live se" and l: "inputs_lines inp" "one_line l"
  shows "sys_lines (on_line cr inp n se l sy)"
proof -
  obtain r sv where run: "handle_line cr inp se l (sy_server sy) = (r, sv)" by (cases "handle_line cr inp se l (sy_server sy)")
  from yieldsD [OF yields_handle_line [OF sys_linesD(2) [OF ok n] l] sys_linesD(1) [OF ok] run]
  have sv: "sv_lines sv" and r: "good (session_lines \<circ> fst) r" by simp_all
  show ?thesis
  proof (cases r)
    case (Inl e)
    then show ?thesis using sys_lines_drop [OF ok sv sys_linesD(2) [OF ok n]] by (simp add: on_line_def run)
  next
    case (Inr x)
    obtain se' b where x: "x = (se', b)" by (cases x)
    then have "session_lines se'" using r Inr by simp
    then show ?thesis
      using sys_lines_leave [OF ok sv] sys_lines_conn [OF ok sv] by (simp add: on_line_def run Inr x)
  qed
qed

lemma sys_lines_shutdown:
  assumes ok: "sys_lines sy" and n: "sy_conns sy n = Live se"
    and q: "q_taken (shuts (sy_server sy) n) < length (q_sent (shuts (sy_server sy) n))"
  shows "sys_lines (on_shutdown inp n se sy)"
proof -
  have "list_all one_line (q_sent (shuts (sy_server sy) n))" using ok by (simp add: sys_lines_def sv_lines_def)
  then have "one_line (q_sent (shuts (sy_server sy) n) ! q_taken (shuts (sy_server sy) n))"
    using q by (simp add: list_all_length)
  then show ?thesis unfolding on_shutdown_def Let_def
    by (intro sys_lines_leave ok sys_linesD(2) [OF ok n])
       (auto simp: session_send_run intro!: sv_lines_push sys_linesD(1) [OF ok])
qed

lemma sys_lines_step:
  assumes "sys_step cr sy ev sy'" "event_lines ev" "sys_lines sy"
  shows "sys_lines sy'"
  using assms
proof (induction rule: sys_step.induct)
  case (accept sy n uuid)
  then show ?case by (simp add: sys_lines_accept)
next
  case (line sy n se inp l)
  then show ?case by (simp add: sys_lines_line)
next
  case (eof sy n se inp)
  then show ?case by (simp add: sys_lines_leave sys_linesD)
next
  case (read_error sy n se)
  then show ?case by (simp add: sys_lines_drop sys_linesD)
next
  case (shut sy n se inp)
  then show ?case by (simp add: sys_lines_shutdown)
next
  case (written sy n)
  then show ?case by (simp add: sys_lines_def sess_def)
next
  case (write_error sy n)
  then show ?case by (simp add: sys_lines_def sess_def)
qed

definition line_starts :: "system \<Rightarrow> bool" where
  "line_starts sy \<longleftrightarrow> (\<exists>env d. db_lines d \<and> sy = sys_start env d)"

interpretation typed: transition_system line_starts "\<lambda>sy ev sy'. sys_step cr sy ev sy' \<and> event_lines ev" sys_lines for cr
proof
  show "sys_lines sy" if "line_starts sy" for sy
    using that by (auto simp: line_starts_def sys_start_def sys_lines_def sess_def server_new_def sv_lines_def new_mpsc_def)
qed (auto intro: sys_lines_step)

lemma run_lines:
  assumes "db_lines d" "run (sys_step cr) (sys_start env d) evs sy" "\<forall>ev \<in> set evs. event_lines ev"
  shows "list_all server_line (q_sent (outs (sy_server sy) n))"
proof -
  have "sys_lines sy"
    using typed.reach_inv [OF _ run_with [OF assms(2,3)]] assms(1) by (auto simp: line_starts_def)
  then show ?thesis by (simp add: sys_lines_def sv_lines_def)
qed

end
