(* ===== verification/Streams.thy ===== *)
theory Streams
  imports Lines Demo
begin

section \<open>The two ends of the socket (server.rs, clients/python/aircd/client.py)\<close>

text \<open>
  What the writer task of \<open>handle_stream\<close> puts on the socket, and what \<open>_reader_loop\<close>
  of the Python client makes of it: \<open>StreamReader.readline\<close> of asyncio with its limit of
  64 KiB (the client opens its connection without setting one), \<open>_readline\<close>, one
  \<open>read_event\<close> per line. A stream is its characters, the limit counts their UTF-8 bytes;
  it ends where the client sees the connection end. With the type of lines of theory Lines the
  reader gets every line the server wrote, up to the first that is too long for it.
\<close>

subsection \<open>Writing\<close>

definition crlf :: "string \<Rightarrow> string" where
  "crlf l = l @ [CHR 0x0D, CHR 0x0A]"

definition written :: "mpsc \<Rightarrow> string" where
  "written q = concat (map crlf (take (q_taken q) (q_sent q)))"

subsection \<open>Reading\<close>

definition utf8_length :: "string \<Rightarrow> nat" where
  "utf8_length s = sum_list (map (\<lambda>c. if (of_char c :: nat) < 128 then 1 else 2) s)"

text \<open>\<open>rstrip("\r\n")\<close>.\<close>

definition rstrip_newline :: "string \<Rightarrow> string" where
  "rstrip_newline s = rev (dropWhile (\<lambda>c. c \<in> {CHR 0x0D, CHR 0x0A}) (rev s))"

text \<open>
  \<open>_readline\<close> on the rest of the stream. \<open>Too_long\<close> is the \<open>ValueError\<close> of
  \<open>readline\<close>; what stands between the last line feed and the end of the stream is a line.
\<close>

datatype reading = Too_long | At_end | Got string string

definition read_line :: "nat \<Rightarrow> string \<Rightarrow> reading" where
  "read_line limit s =
     (let l = takeWhile (\<lambda>c. c \<noteq> CHR 0x0A) s in
      if s = [] then At_end
      else if utf8_length l > limit then Too_long
      else Got (rstrip_newline l) (drop (Suc (length l)) s))"

text \<open>
  The loop on one connection. It ends with \<open>ConnectionError\<close> at the end of the stream, which
  the loop handles, or with a \<open>ValueError\<close>, which it does not: the task dies.
\<close>

datatype ending = Lost | Crashed

function reader_loop :: "nat \<Rightarrow> string \<Rightarrow> client_event list \<times> ending" where
  "reader_loop limit s =
     (case read_line limit s of
        At_end \<Rightarrow> ([], Lost)
      | Too_long \<Rightarrow> ([], Crashed)
      | Got l rest \<Rightarrow>
          (case read_event l of
             None \<Rightarrow> ([], Crashed)
           | Some e \<Rightarrow> (case reader_loop limit rest of (es, r) \<Rightarrow> (e # es, r))))"
  by auto
termination
  by (relation "measure (length \<circ> snd)") (auto simp: read_line_def Let_def split: if_splits)

declare reader_loop.simps [simp del]

definition STREAM_LIMIT :: nat where
  "STREAM_LIMIT = 65536"

subsection \<open>One line after the other\<close>

lemma take_one_line: "one_line l \<Longrightarrow> takeWhile (\<lambda>c. c \<noteq> CHR 0x0A) (l @ CHR 0x0A # s) = l"
  by (auto simp: one_line_def takeWhile_tail)

lemma rstrip_crlf: "rstrip_newline (l @ [CHR 0x0D]) = rstrip_newline l"
  by (simp add: rstrip_newline_def)

definition fits :: "nat \<Rightarrow> string \<Rightarrow> bool" where
  "fits limit l \<longleftrightarrow> utf8_length l < limit"

lemma read_line_crlf:
  assumes "one_line l"
  shows "read_line limit (crlf l @ s) = (if fits limit l then Got (rstrip_newline l) s else Too_long)"
proof -
  have "takeWhile (\<lambda>c. c \<noteq> CHR 0x0A) (crlf l @ s) = l @ [CHR 0x0D]"
    using take_one_line [of "l @ [CHR 0x0D]" s] assms by (simp add: crlf_def)
  moreover have "utf8_length (l @ [CHR 0x0D]) = Suc (utf8_length l)" by (simp add: utf8_length_def)
  ultimately show ?thesis by (auto simp: read_line_def Let_def rstrip_crlf fits_def crlf_def)
qed

lemma read_line_part:
  assumes "one_line l" "l \<noteq> []"
  shows "read_line limit l = (if utf8_length l \<le> limit then Got (rstrip_newline l) [] else Too_long)"
proof -
  have tw: "takeWhile (\<lambda>c. c \<noteq> CHR 0x0A) l = l" using assms(1) by (auto simp: one_line_def takeWhile_eq_all_conv)
  from assms(2) show ?thesis unfolding read_line_def Let_def tw by simp
qed

lemma rstrip_keep: "c \<notin> {CHR 0x0D, CHR 0x0A} \<Longrightarrow> rstrip_newline (s @ c # t) = s @ c # rstrip_newline t"
  by (simp add: rstrip_newline_def dropWhile_append)

lemma split_once_first: "split_once [c] s = Some (a, b) \<Longrightarrow> c \<notin> set a"
  by (induction s arbitrary: a) (auto split: if_splits option.splits)

lemma framed_rstrip:
  assumes "framed l"
  shows "framed (rstrip_newline l)"
proof -
  have space: "CHR '' '' \<in> set (rstrip_newline s)" if sp: "CHR '' '' \<in> set s" for s
  proof -
    obtain a b where "s = a @ CHR '' '' # b" using sp by (meson split_list)
    then show ?thesis using rstrip_keep [of "CHR '' ''" a b] by simp
  qed
  obtain c s where l: "l = c # s" using assms by (cases l) auto
  show ?thesis
  proof (cases "c = CHR '':''")
    case True
    with assms space [of s] rstrip_keep [of c "[]" s] show ?thesis by (simp add: l)
  next
    case False
    with assms obtain a r where r: "c = CHR ''@''" "split_once '' '' s = Some (a, r)" "starts_with r '':''" "CHR '' '' \<in> set r"
      by (auto simp: l split: if_splits option.splits)
    obtain r' where r': "r = CHR '':'' # r'" using r(3) by (cases r) (auto simp: starts_with_def)
    have s: "s = a @ CHR '' '' # r" "CHR '' '' \<notin> set a"
      using r(2) split_once_Some [OF r(2)] split_once_first [of "CHR '' ''" s] by auto
    have "rstrip_newline l = CHR ''@'' # a @ CHR '' '' # CHR '':'' # rstrip_newline r'"
      using rstrip_keep [of "CHR ''@''" "[]" s] rstrip_keep [of "CHR '':''" "a @ [CHR '' '']" r'] r(1) by (simp add: l s(1) r')
    then show ?thesis
      using space [of r'] r(4) s(2) by (simp add: r' split_once_char starts_with_def)
  qed
qed

text \<open>What the reader delivers of a list of lines, and how it ends.\<close>

definition heard :: "nat \<Rightarrow> string list \<Rightarrow> client_event list" where
  "heard limit ls = map (\<lambda>l. the (read_event (rstrip_newline l))) (takeWhile (fits limit) ls)"

lemma server_line_read: "server_line l \<Longrightarrow> \<exists>e. read_event (rstrip_newline l) = Some e"
  using framed_parses [OF framed_rstrip, of l] by (auto simp: server_line_def read_event_def split: option.split)

lemma reader_loop_lines:
  assumes "list_all server_line ls"
  shows "reader_loop limit (concat (map crlf ls) @ s) =
    (if list_all (fits limit) ls then (case reader_loop limit s of (es, r) \<Rightarrow> (heard limit ls @ es, r))
     else (heard limit ls, Crashed))"
  using assms
proof (induction ls)
  case Nil
  then show ?case by (simp add: heard_def)
next
  case (Cons l ls)
  then obtain e where "read_event (rstrip_newline l) = Some e" "one_line l"
    using server_line_read [of l] by (auto simp: server_line_def)
  with Cons show ?case
    by (subst reader_loop.simps) (simp add: read_line_crlf heard_def split: prod.split)
qed

lemma reader_loop_end: "reader_loop limit [] = ([], Lost)"
  by (subst reader_loop.simps) (simp add: read_line_def)

lemma reader_loop_part:
  assumes "one_line l" "l \<noteq> []" "utf8_length l \<le> limit"
  shows "reader_loop limit l =
    (case read_event (rstrip_newline l) of None \<Rightarrow> ([], Crashed) | Some e \<Rightarrow> ([e], Lost))"
  by (subst reader_loop.simps) (simp add: read_line_part [OF assms(1,2)] assms(3) reader_loop_end split: option.split)


lemma reader_written:
  assumes "list_all server_line (q_sent q)"
  shows "reader_loop limit (written q) = (let ls = take (q_taken q) (q_sent q) in
    (heard limit ls, if list_all (fits limit) ls then Lost else Crashed))"
proof -
  have "list_all server_line (take (q_taken q) (q_sent q))" using assms by (auto simp: list_all_iff dest: in_set_takeD)
  from reader_loop_lines [OF this, of limit "[]"] show ?thesis by (simp add: written_def Let_def reader_loop_end)
qed

text \<open>A message of 64 KiB or more does not fit.\<close>

lemma utf8_length_append: "utf8_length (s @ t) = utf8_length s + utf8_length t"
  by (simp add: utf8_length_def)

lemma length_le_utf8: "length s \<le> utf8_length s"
  by (induction s) (auto simp: utf8_length_def)

lemma long_message: "limit \<le> utf8_length body \<Longrightarrow> \<not> fits limit (message_line p c body m)"
proof -
  obtain a where "message_line p c body m = a @ body"
    by (simp add: message_line_def privmsg_line_def del: append_assoc add: append_assoc [symmetric])
  then show "limit \<le> utf8_length body \<Longrightarrow> \<not> fits limit (message_line p c body m)"
    by (simp add: fits_def utf8_length_append)
qed

subsection \<open>From the queue to the client\<close>

text \<open>C7. Whatever the clients send and however the steps of the server follow each other, every
  entry of every queue is one line that the parser of the Python client accepts. So the reader of a
  connection gets exactly the lines that the writer task has put on the socket, in order, one event
  per line; its loop ends with the lost connection it is made to handle if all of them fit its
  buffer, and dies of the first line that does not.\<close>

theorem client_hears_server:
  assumes "db_lines d" and "run (sys_step cr) (sys_start env d) evs sy" and "\<forall>ev \<in> set evs. event_lines ev"
  shows "list_all server_line (q_sent (outs (sy_server sy) n))
    \<and> (\<forall>l \<in> set (q_sent (outs (sy_server sy) n)). read_event (rstrip_newline l) \<noteq> None)
    \<and> reader_loop STREAM_LIMIT (written (outs (sy_server sy) n)) =
        (let ls = take (q_taken (outs (sy_server sy) n)) (q_sent (outs (sy_server sy) n)) in
         (heard STREAM_LIMIT ls, if list_all (fits STREAM_LIMIT) ls then Lost else Crashed))"
  using run_lines [OF assms, of n] reader_written [of "outs (sy_server sy) n" STREAM_LIMIT]
  by (auto simp: list_all_iff dest: server_line_read)

text \<open>A client that connects, pings and reads both answers.\<close>

definition ping_events :: "event list" where
  "ping_events = [Accept 4 ''u'', Line 4 demo_inputs ''PING :x'', Written 4, Written 4]"

lemma ping_run:
  fixes d
  defines "s0 \<equiv> sys_start None d"
  shows "\<exists>sy. run (sys_step cr) s0 ping_events sy
    \<and> outs (sy_server sy) 4 = \<lparr>q_sent = ['':aircd NOTICE * :Welcome to aircd prototype'', '':aircd PONG aircd :x''],
        q_taken = 2, q_open = True\<rparr>"
proof -
  let ?se = "new_session 4 ''u''" and ?s1 = "accept_conn 4 ''u'' s0"
  let ?s2 = "on_line cr demo_inputs 4 ?se ''PING :x'' ?s1"
  let ?s3 = "?s2\<lparr>sy_server := take_out 4 (sy_server ?s2)\<rparr>"
  let ?s4 = "?s3\<lparr>sy_server := take_out 4 (sy_server ?s3)\<rparr>"
  have p: "parse_command ''PING :x'' = Ping ''x''" by code_simp
  have c1: "sy_conns ?s1 4 = Live ?se" by (simp add: accept_conn_def Let_def)
  have q1: "outs (sy_server ?s1) 4 = \<lparr>q_sent = ['':aircd NOTICE * :Welcome to aircd prototype''], q_taken = 0, q_open = True\<rparr>"
    by (simp add: accept_conn_def Let_def session_send_run send_all_def new_mpsc_def new_session_def SERVER_NAME_def)
  have s2: "?s2 = \<lparr>sy_server = push 4 ['':aircd PONG aircd :x''] (sy_server ?s1), sy_conns = (sy_conns ?s1)(4 := Live ?se)\<rparr>"
    by (simp add: on_line_def handle_line_def p act_simps session_send_run new_session_def SERVER_NAME_def)
  have q2: "outs (sy_server ?s2) 4 = \<lparr>q_sent = ['':aircd NOTICE * :Welcome to aircd prototype'', '':aircd PONG aircd :x''],
      q_taken = 0, q_open = True\<rparr>"
    by (simp add: s2 q1 send_all_def)
  have "sys_step cr s0 (Accept 4 ''u'') ?s1"
    by (rule sys_step.accept) (simp_all add: s0_def sys_start_def sess_def)
  moreover have "sys_step cr ?s1 (Line 4 demo_inputs ''PING :x'') ?s2" by (rule sys_step.line [OF c1])
  moreover have "sys_step cr ?s2 (Written 4) ?s3" by (rule sys_step.written) (simp_all add: q2, simp add: s2)
  moreover have "sys_step cr ?s3 (Written 4) ?s4"
    by (rule sys_step.written) (simp_all add: take_out_def q2, simp add: s2)
  moreover have "outs (sy_server ?s4) 4 = \<lparr>q_sent = ['':aircd NOTICE * :Welcome to aircd prototype'', '':aircd PONG aircd :x''],
      q_taken = 2, q_open = True\<rparr>"
    by (simp add: take_out_def q2)
  ultimately show ?thesis unfolding ping_events_def run_simps by blast
qed

lemma ping_fits: "list_all (fits STREAM_LIMIT) ['':aircd NOTICE * :Welcome to aircd prototype'', '':aircd PONG aircd :x'']"
  by (simp add: fits_def utf8_length_def STREAM_LIMIT_def SERVER_NAME_def)

lemma demo_lines: "db_lines demo_db"
  by (simp add: db_lines_def demo_db_def demo_principal_def demo_member_def demo_message_def demo_task_def empty_db_def)

theorem client_hears_server_witness:
  "\<exists>sy. run (sys_step demo_crypto) (sys_start None demo_db) ping_events sy
    \<and> list_all server_line (q_sent (outs (sy_server sy) 4))
    \<and> reader_loop STREAM_LIMIT (written (outs (sy_server sy) 4)) =
        (heard STREAM_LIMIT ['':aircd NOTICE * :Welcome to aircd prototype'', '':aircd PONG aircd :x''], Lost)"
proof -
  obtain sy where run: "run (sys_step demo_crypto) (sys_start None demo_db) ping_events sy"
      and q: "outs (sy_server sy) 4 = \<lparr>q_sent = ['':aircd NOTICE * :Welcome to aircd prototype'', '':aircd PONG aircd :x''],
        q_taken = 2, q_open = True\<rparr>"
    using ping_run by blast
  have "\<forall>ev \<in> set ping_events. event_lines ev" by (simp add: ping_events_def inputs_lines_def demo_inputs_def)
  from client_hears_server [OF demo_lines run this, of 4] run ping_fits show ?thesis
    by (auto simp: q Let_def)
qed

text \<open>
  What comes after the last line feed is read as a line too: when the connection ends inside a
  line, the client takes the part it got for the whole, and if the cut is inside the tags or the
  prefix its loop dies instead of reconnecting.
\<close>

lemma cut_line:
  assumes "list_all server_line ls" "list_all (fits limit) ls" "one_line part" "part \<noteq> []" "utf8_length part \<le> limit"
  shows "reader_loop limit (concat (map crlf ls) @ part) =
    (case read_event (rstrip_newline part) of
       None \<Rightarrow> (heard limit ls, Crashed)
     | Some e \<Rightarrow> (heard limit ls @ [e], Lost))"
  using reader_loop_lines [OF assms(1), of limit part] reader_loop_part [OF assms(3-5)] assms(2)
  by (simp split: option.split)

lemma cut_in_prefix: "reader_loop STREAM_LIMIT '':air'' = ([], Crashed)"
  using cut_line [of "[]" STREAM_LIMIT "'':air''"]
  by (simp add: heard_def utf8_length_def STREAM_LIMIT_def rstrip_newline_def read_event_def parse_irc_line_def
      read_tags_def take_prefix_def starts_with_def)

end
