(* ===== verification/Handshake.thy ===== *)
theory Handshake
  imports Streams
begin

section \<open>The handshake of the Python client (src/clients/python/aircd/client.py)\<close>

text \<open>
  \<open>_do_connect\<close>: the lines the client sends on a new connection, its wait for the numeric
  001 (or a refusal), and the lines after that. Composed with the server this gives what a
  reconnecting agent ends up with: a registered session on the server and the messages it missed
  in its message queue.
\<close>

subsection \<open>What the client sends and what it waits for\<close>

definition hello_lines :: "string \<Rightarrow> string \<Rightarrow> string list" where
  "hello_lines token nick =
     [''CAP LS 302'', ''CAP REQ :message-tags'', ''PASS '' @ token, ''NICK '' @ nick,
      ''USER '' @ nick @ '' 0 * :aircd agent'', ''CAP END'']"

text \<open>
  The wait: \<open>Welcomed\<close> with the nick the server gave and what is left of the stream,
  \<open>Refused\<close> and \<open>Closed\<close> are the two \<open>ConnectionError\<close>s, \<open>Broken\<close> is a
  \<open>ValueError\<close>. The list holds the answers to PINGs on the way.
\<close>

datatype greeting = Welcomed "string option" string | Refused string | Closed | Broken

function await_welcome :: "nat \<Rightarrow> string \<Rightarrow> string list \<times> greeting" where
  "await_welcome limit s =
     (case read_line limit s of
        At_end \<Rightarrow> ([], Closed)
      | Too_long \<Rightarrow> ([], Broken)
      | Got l rest \<Rightarrow>
          (case parse_irc_line l of
             None \<Rightarrow> ([], Broken)
           | Some (pre, command, params, tags) \<Rightarrow>
               if command = ''001'' then
                 ([], Welcomed (case params of [] \<Rightarrow> None | k # _ \<Rightarrow> Some k) rest)
               else if command = ''PING'' then
                 (case await_welcome limit rest of (pongs, g) \<Rightarrow>
                    ((''PONG :'' @ (if params = [] then [] else last params)) # pongs, g))
               else if command \<in> {''432'', ''433'', ''461'', ''462'', ''464''} then ([], Refused l)
               else await_welcome limit rest))"
  by auto
termination
  by (relation "measure (length \<circ> snd)") (auto simp: read_line_def Let_def split: if_splits)

declare await_welcome.simps [simp del]

text \<open>After the wait: the channels are joined again and the reader takes over the stream.\<close>

definition rejoin_lines :: "string list \<Rightarrow> string list" where
  "rejoin_lines cs = map ((@) ''JOIN '') cs"

subsection \<open>The server's side\<close>

definition caps_lines :: "string list" where
  "caps_lines = ['':aircd NOTICE * :Welcome to aircd prototype'', '':aircd CAP * LS :message-tags'',
     '':aircd CAP * ACK :message-tags'']"

definition refused_line :: string where
  "refused_line = '':aircd 464 * :Password incorrect''"

definition numbered :: "nat \<Rightarrow> (nat \<Rightarrow> inputs) \<Rightarrow> string list \<Rightarrow> event list" where
  "numbered n inp ls = map (\<lambda>(i, l). Line n (inp i) l) (enumerate 0 ls)"

lemma parse_hello:
  assumes "is_param token" "is_param nick"
  shows "parse_command ''CAP LS 302'' = Cap ''LS'' [''302'']"
    "parse_command ''CAP REQ :message-tags'' = Cap ''REQ'' [''message-tags'']"
    "parse_command ''CAP END'' = Cap ''END'' []"
    "parse_command (''PASS '' @ token) = Pass token" "parse_command (''NICK '' @ nick) = Nick nick"
    "parse_command (''USER '' @ nick @ '' 0 * :aircd agent'') = User nick"
proof -
  show "parse_command ''CAP LS 302'' = Cap ''LS'' [''302'']" by code_simp
  show "parse_command ''CAP REQ :message-tags'' = Cap ''REQ'' [''message-tags'']" by code_simp
  show "parse_command ''CAP END'' = Cap ''END'' []" by code_simp
qed (use assms parse_client_line [of "Pass token"] parse_client_line [of "Nick nick"] parse_client_line [of "User nick"]
      in simp_all)

lemma step_line:
  "handle_line cr inp se l sv = (Inr (se', False), sv') \<Longrightarrow>
   sys_step cr \<lparr>sy_server = sv, sy_conns = cs(n := Live se)\<rparr> (Line n inp l)
     \<lparr>sy_server = sv', sy_conns = cs(n := Live se')\<rparr>"
  using sys_step.line [where cr = cr and inp = inp and l = l and sy = "\<lparr>sy_server = sv, sy_conns = cs(n := Live se)\<rparr>" and n = n]
  by (simp add: on_line_def)

text \<open>The session before the registration is attempted.\<close>

definition knocking :: "nat \<Rightarrow> string \<Rightarrow> string \<Rightarrow> string \<Rightarrow> session" where
  "knocking n uuid token nick = (new_session n uuid)\<lparr>s_pass_token := Some token, s_nick := Some nick\<rparr>"

definition opened :: "nat \<Rightarrow> server \<Rightarrow> server" where
  "opened n sv = push n caps_lines (sv\<lparr>outs := (outs sv)(n := new_mpsc), shuts := (shuts sv)(n := new_mpsc)\<rparr>)"

lemma hello_run:
  assumes "sy_conns sy n = Idle" "\<forall>m se. sess sy m = Some se \<longrightarrow> s_session_id se \<noteq> ''sess_'' @ uuid"
    and w: "is_param token" "is_param nick"
    and nick: "try_register cr (inp 3) (knocking n uuid token nick) (opened n (sy_server sy)) = (Inr se1, sv1)"
    and user: "try_register cr (inp 4) se1 sv1 = (Inr se2, sv2)"
  shows "run (sys_step cr) sy (Accept n uuid # numbered n inp (hello_lines token nick))
    \<lparr>sy_server = sv2, sy_conns = (sy_conns sy)(n := Live se2)\<rparr>"
proof -
  let ?s1 = "accept_conn n uuid sy" and ?se = "new_session n uuid" and ?cs = "sy_conns sy"
  note p = parse_hello [OF w] parse_hello [OF w, simplified]
  have s1: "sys_step cr sy (Accept n uuid) ?s1" by (rule sys_step.accept) (use assms(1,2) in auto)
  let ?sv0 = "(sy_server sy)\<lparr>outs := (outs (sy_server sy))(n := new_mpsc), shuts := (shuts (sy_server sy))(n := new_mpsc)\<rparr>"
  have a: "?s1 = \<lparr>sy_server = push n (take 1 caps_lines) ?sv0, sy_conns = ?cs(n := Live ?se)\<rparr>"
    by (simp add: accept_conn_def Let_def session_send_run new_session_def caps_lines_def SERVER_NAME_def)
  have tx: "s_tx ?se = n" "s_nick ?se = None" "s_registered ?se = False" "s_pass_token ?se = None"
    by (simp_all add: new_session_def)
  have "handle_line cr (inp 0) ?se ''CAP LS 302'' (push n (take 1 caps_lines) ?sv0) = (Inr (?se, False), push n (take 2 caps_lines) ?sv0)"
    by (simp add: handle_line_def p cap_def act_simps session_send_run tx caps_lines_def METADATA_CAPABILITIES_def SERVER_NAME_def)
  note s2 = step_line [OF this, where cs = ?cs and n = n]
  have "handle_line cr (inp 1) ?se ''CAP REQ :message-tags'' (push n (take 2 caps_lines) ?sv0) = (Inr (?se, False), opened n (sy_server sy))"
    by (simp add: handle_line_def p cap_def act_simps session_send_run tx caps_lines_def METADATA_CAPABILITIES_def SERVER_NAME_def
        opened_def)
  note s3 = step_line [OF this, where cs = ?cs and n = n]
  have "handle_line cr (inp 2) ?se (''PASS '' @ token) (opened n (sy_server sy)) = (Inr (?se\<lparr>s_pass_token := Some token\<rparr>, False), opened n (sy_server sy))"
    by (simp add: handle_line_def p try_register_def act_simps tx)
  note s4 = step_line [OF this, where cs = ?cs and n = n]
  have "handle_line cr (inp 3) (?se\<lparr>s_pass_token := Some token\<rparr>) (''NICK '' @ nick) (opened n (sy_server sy)) = (Inr (se1, False), sv1)"
    using nick by (simp add: handle_line_def p knocking_def and_then_Inr act_simps)
  note s5 = step_line [OF this, where cs = ?cs and n = n]
  have "handle_line cr (inp 4) se1 (''USER '' @ nick @ '' 0 * :aircd agent'') sv1 = (Inr (se2, False), sv2)"
    using user by (simp add: handle_line_def p and_then_Inr act_simps)
  note s6 = step_line [OF this, where cs = ?cs and n = n]
  have "handle_line cr (inp 5) se2 ''CAP END'' sv2 = (Inr (se2, False), sv2)"
    by (simp add: handle_line_def p cap_def act_simps)
  note s7 = step_line [OF this, where cs = ?cs and n = n]
  have "numbered n inp (hello_lines token nick) = [Line n (inp 0) ''CAP LS 302'', Line n (inp 1) ''CAP REQ :message-tags'',
      Line n (inp 2) (''PASS '' @ token), Line n (inp 3) (''NICK '' @ nick),
      Line n (inp 4) (''USER '' @ nick @ '' 0 * :aircd agent''), Line n (inp 5) ''CAP END'']"
    by (simp add: numbered_def hello_lines_def eval_nat_numeral)
  then show ?thesis
    unfolding run_simps
    by (simp only: run_simps) (intro exI conjI, rule s1 [unfolded a], rule s2, rule s3, rule s4, rule s5, rule s6, rule s7, rule refl)
qed

text \<open>The two outcomes of the NICK line, and the USER line after it.\<close>

lemma hello_accepted:
  assumes "sy_conns sy n = Idle" "\<forall>m se. sess sy m = Some se \<longrightarrow> s_session_id se \<noteq> ''sess_'' @ uuid"
    and w: "is_param token" "is_param nick"
    and auth: "authenticate cr token (sv_db (sy_server sy)) (sv_legacy_hits (sy_server sy)) = (Inr p, hits)"
  shows "\<exists>sy'. run (sys_step cr) sy (Accept n uuid # numbered n inp (hello_lines token nick)) sy'
    \<and> sy_conns sy' n = Live (registered_session p (knocking n uuid token nick))
    \<and> registers (inp 3) p (knocking n uuid token nick) (opened n (sy_server sy)) (sy_server sy')
    \<and> outs (sy_server sy') n = \<lparr>q_sent = caps_lines @ register_lines p (memberships (pr_id p) (sv_db (sy_server sy))) (sv_db (sy_server sy)),
        q_taken = 0, q_open = True\<rparr>"
proof -
  let ?se = "knocking n uuid token nick" and ?sv = "opened n (sy_server sy)"
  obtain sv1 where reg: "register (inp 3) p ?se (?sv\<lparr>sv_legacy_hits := hits\<rparr>) = (Inr (registered_session p ?se), sv1)"
      and out: "outs sv1 n = send_all (register_lines p (memberships (pr_id p) (sv_db ?sv)) (sv_db ?sv)) (outs ?sv n)"
    by (simp add: register_run knocking_def new_session_def)
  have nick: "try_register cr (inp 3) ?se ?sv = (Inr (registered_session p ?se), sv1)"
    using auth reg by (simp add: try_register_def run_authenticate_def and_then_def knocking_def new_session_def opened_def)
  have user: "try_register cr (inp 4) (registered_session p ?se) sv1 = (Inr (registered_session p ?se), sv1)"
    by (simp add: try_register_def run_act)
  have "outs sv1 n = \<lparr>q_sent = caps_lines @ register_lines p (memberships (pr_id p) (sv_db (sy_server sy))) (sv_db (sy_server sy)),
      q_taken = 0, q_open = True\<rparr>"
    using out by (simp add: opened_def send_all_def new_mpsc_def)
  moreover have "pr_id p \<in> p_id ` set (principals (sv_db ?sv))"
    using authenticate_sound [OF auth] by (auto simp: principal_of_row_def opened_def)
  then have "registers (inp 3) p ?se ?sv sv1" using reg unfolding registers_def by blast
  ultimately show ?thesis
    using hello_run [where inp = inp, OF assms(1,2) w nick user] by auto
qed

lemma hello_refused:
  assumes "sy_conns sy n = Idle" "\<forall>m se. sess sy m = Some se \<longrightarrow> s_session_id se \<noteq> ''sess_'' @ uuid"
    and w: "is_param token" "is_param nick"
    and auth: "authenticate cr token (sv_db (sy_server sy)) (sv_legacy_hits (sy_server sy)) = (Inl (Anyhow e), hits)"
  shows "\<exists>sy'. run (sys_step cr) sy (Accept n uuid # numbered n inp (hello_lines token nick)) sy'
    \<and> sy_conns sy' n = Live (knocking n uuid token nick)
    \<and> outs (sy_server sy') n = \<lparr>q_sent = caps_lines @ [refused_line, refused_line], q_taken = 0, q_open = True\<rparr>"
proof -
  let ?se = "knocking n uuid token nick" and ?sv = "opened n (sy_server sy)"
  have "hits = sv_legacy_hits (sy_server sy)"
    using auth by (auto simp: authenticate_def authenticate_legacy_def legacy_hit_def Let_def split: option.splits sum.splits if_splits prod.splits)
  then have again: "try_register cr i ?se (push n ls ?sv) = (Inr ?se, push n (ls @ [refused_line]) ?sv)" for i ls
    using auth by (simp add: try_register_def run_authenticate_def and_then_def knocking_def new_session_def opened_def
        session_send_run run_act refused_line_def SERVER_NAME_def push_def)
  have "outs (push n [refused_line, refused_line] ?sv) n = \<lparr>q_sent = caps_lines @ [refused_line, refused_line], q_taken = 0, q_open = True\<rparr>"
    by (simp add: opened_def send_all_def new_mpsc_def)
  with hello_run [where inp = inp, OF assms(1,2) w again [of _ "[]", simplified] again] show ?thesis by auto
qed

subsection \<open>The client's side\<close>

lemma await_crlf:
  assumes "one_line l" "fits limit l"
  shows "await_welcome limit (crlf l @ s) =
    (case parse_irc_line (rstrip_newline l) of
       None \<Rightarrow> ([], Broken)
     | Some (pre, command, params, tags) \<Rightarrow>
         if command = ''001'' then ([], Welcomed (case params of [] \<Rightarrow> None | k # _ \<Rightarrow> Some k) s)
         else if command = ''PING'' then
           (case await_welcome limit s of (pongs, g) \<Rightarrow> ((''PONG :'' @ (if params = [] then [] else last params)) # pongs, g))
         else if command \<in> {''432'', ''433'', ''461'', ''462'', ''464''} then ([], Refused (rstrip_newline l))
         else await_welcome limit s)"
  by (subst await_welcome.simps) (simp only: read_line_crlf [OF assms(1)] assms(2) if_True reading.case)

text \<open>A line with a prefix, a command, one parameter and a text.\<close>

lemma parse_numeric:
  assumes "py_word src" "py_word v" "py_word k" "hd k \<noteq> CHR '':''" "hd src \<noteq> CHR ''@''"
  shows "parse_irc_line (CHR '':'' # src @ '' '' @ v @ '' '' @ k @ '' :'' @ body)
    = Some (src, py_upper v, k # (if body \<noteq> [] then [body] else []), Map.empty)"
proof -
  have "CHR '' '' \<notin> set src" using assms(1) by (auto simp: py_word_def)
  then have "split_once '' '' (CHR '':'' # src @ CHR '' '' # v @ '' '' @ k @ '' :'' @ body) = Some (CHR '':'' # src, v @ '' '' @ k @ '' :'' @ body)"
    using split_once_char [of "CHR '' ''" "CHR '':'' # src"] by simp
  then have "take_prefix (CHR '':'' # src @ '' '' @ v @ '' '' @ k @ '' :'' @ body) = Some (src, v @ '' '' @ k @ '' :'' @ body)"
    by (simp add: take_prefix_def starts_with_def)
  moreover have "read_tags (CHR '':'' # r) = Some (Map.empty, CHR '':'' # r)" for r
    by (simp add: read_tags_def starts_with_def)
  ultimately show ?thesis
    using split_params_body [OF assms(2-4), of body] by (simp add: parse_irc_line_def)
qed

lemma rstrip_word: "py_word w \<Longrightarrow> rstrip_newline (s @ w) = s @ w"
proof -
  assume w: "py_word w"
  then obtain v c where "w = v @ [c]" "\<not> py_whitespace c" by (cases w rule: rev_cases) (auto simp: py_word_def)
  then show ?thesis using rstrip_keep [of c "s @ v" "[]"] by (auto simp: py_whitespace_def is_whitespace_def rstrip_newline_def)
qed

lemma rstrip_text: "rstrip_newline (a @ CHR '':'' # b) = a @ CHR '':'' # rstrip_newline b"
  by (rule rstrip_keep) simp

lemma py_numerics [simp]:
  "py_word ''001''" "py_word ''aircd''" "py_word ''JOIN''" "py_upper ''001'' = ''001''" "py_upper ''JOIN'' = ''JOIN''"
  by (simp_all add: py_word_def py_whitespace_def is_whitespace_def py_upper_def py_upper_char_def upper_simps less_eq_char_def)

lemma await_welcome_line:
  assumes "py_word (pr_nick p)" "hd (pr_nick p) \<noteq> CHR '':''" "one_line (welcome_line p)" "fits limit (welcome_line p)"
  shows "await_welcome limit (crlf (welcome_line p) @ s) = ([], Welcomed (Some (pr_nick p)) s)"
proof -
  obtain t where "welcome_line p = (CHR '':'' # ''aircd'' @ '' '' @ ''001'' @ '' '' @ pr_nick p @ '' '') @ CHR '':'' # t"
    by (simp add: welcome_line_def SERVER_NAME_def)
  then have "rstrip_newline (welcome_line p) = CHR '':'' # ''aircd'' @ '' '' @ ''001'' @ '' '' @ pr_nick p @ '' :'' @ rstrip_newline t"
    using rstrip_text [of "CHR '':'' # ''aircd'' @ '' '' @ ''001'' @ '' '' @ pr_nick p @ '' ''" t] by simp
  then have "parse_irc_line (rstrip_newline (welcome_line p)) = Some (''aircd'', ''001'', pr_nick p # (if rstrip_newline t \<noteq> [] then [rstrip_newline t] else []), Map.empty)"
    using parse_numeric [of "''aircd''" "''001''" "pr_nick p" "rstrip_newline t"] assms(1,2) by simp
  then show ?thesis by (simp add: await_crlf [OF assms(3,4)])
qed

lemma caps_read:
  "list_all (\<lambda>l. one_line l \<and> rstrip_newline l = l \<and> (case parse_irc_line l of None \<Rightarrow> False
     | Some (_, command, _) \<Rightarrow> command \<in> {''NOTICE'', ''CAP''})) caps_lines"
  by code_simp

lemma await_caps:
  assumes "list_all (fits limit) caps_lines"
  shows "await_welcome limit (concat (map crlf caps_lines) @ s) = await_welcome limit s"
proof -
  have "await_welcome limit (concat (map crlf ls) @ s) = await_welcome limit s"
    if "list_all (fits limit) ls" "list_all (\<lambda>l. one_line l \<and> rstrip_newline l = l \<and> (case parse_irc_line l of None \<Rightarrow> False
       | Some (_, command, _) \<Rightarrow> command \<in> {''NOTICE'', ''CAP''})) ls" for ls
    using that by (induction ls) (auto simp: await_crlf split: option.splits)
  from this [OF assms caps_read] show ?thesis .
qed

lemma await_refused:
  assumes "list_all (fits limit) (refused_line # caps_lines)"
  shows "await_welcome limit (concat (map crlf (caps_lines @ refused_line # ls))) = ([], Refused refused_line)"
proof -
  have "one_line refused_line \<and> rstrip_newline refused_line = refused_line
      \<and> parse_irc_line refused_line = Some (''aircd'', ''464'', [''*'', ''Password incorrect''], Map.empty)"
    using parse_numeric [of "''aircd''" "''464''" "''*''" "''Password incorrect''"]
    by (simp add: refused_line_def rstrip_newline_def py_word_def py_whitespace_def is_whitespace_def py_upper_def py_upper_char_def upper_simps less_eq_char_def)
  then show ?thesis using assms by (simp add: await_caps await_crlf)
qed

subsection \<open>The replay in the message queue\<close>

definition replays :: "client_event list \<Rightarrow> message list" where
  "replays es = [g. Deliver g \<leftarrow> es, g_is_replay g]"

lemma replays_append: "replays (xs @ ys) = replays xs @ replays ys"
  by (simp add: replays_def)

text \<open>Names and texts that survive the client's reader.\<close>

definition legible :: "principal \<Rightarrow> db \<Rightarrow> bool" where
  "legible p d \<longleftrightarrow> py_word (pr_nick p) \<and> hd (pr_nick p) \<notin> {CHR '':'', CHR ''@''}
     \<and> (\<forall>mb \<in> set (memberships (pr_id p) d). plain_channel (mb_channel mb)
         \<and> (\<forall>m \<in> set (missed (pr_id p) (mb_channel mb) d). plain_nick (display_name SERVER_NAME (sm_sender_id m) d)
              \<and> sm_body m \<noteq> [] \<and> rstrip_newline (sm_body m) = sm_body m))"

lemma read_join_line:
  assumes "py_word k" "py_word c" "hd c \<noteq> CHR '':''"
  shows "read_event (rstrip_newline ('':'' @ k @ '' JOIN '' @ c)) = Some Ignore"
proof -
  have nosp: "CHR '' '' \<notin> set w" if "py_word w" for w using that by (auto simp: py_word_def)
  have "split_once '' :'' (''JOIN'' @ CHR '' '' # c) = None"
    using colon_free_step colon_free_no_space nosp assms(2,3) unfolding colon_free_def [symmetric]
    by (metis list.distinct(1) nosp py_numerics(3))
  moreover have "py_split (''JOIN'' @ CHR '' '' # c) = [''JOIN'', c]" using assms(2) by (simp add: py_split_two py_split_word del: append.simps)
  ultimately have "split_params (''JOIN'' @ CHR '' '' # c) = (''JOIN'', [c])" by (simp add: split_params_def)
  moreover have "split_once '' '' (CHR '':'' # k @ CHR '' '' # (''JOIN'' @ CHR '' '' # c)) = Some (CHR '':'' # k, ''JOIN'' @ CHR '' '' # c)"
    using split_once_char [of "CHR '' ''" "CHR '':'' # k"] nosp [OF assms(1)] by simp
  moreover have "rstrip_newline ('':'' @ k @ '' JOIN '' @ c) = '':'' @ k @ '' JOIN '' @ c"
    using rstrip_word [OF assms(2), of "'':'' @ k @ '' JOIN ''"] by simp
  ultimately show ?thesis
    by (simp add: read_event_def parse_irc_line_def read_tags_def take_prefix_def starts_with_def)
qed

lemma read_notice_line:
  assumes "py_word k" "hd k \<noteq> CHR '':''"
  shows "\<exists>e. read_event (rstrip_newline ('':aircd NOTICE '' @ k @ '' :'' @ t)) = Some e \<and> replays [e] = []"
proof -
  have "rstrip_newline ('':aircd NOTICE '' @ k @ '' :'' @ t) = CHR '':'' # ''aircd'' @ '' '' @ ''NOTICE'' @ '' '' @ k @ '' :'' @ rstrip_newline t"
    using rstrip_text [of "'':aircd NOTICE '' @ k @ '' ''" t] by simp
  then show ?thesis
    using parse_numeric [of "''aircd''" "''NOTICE''" k "rstrip_newline t"] assms
    by (simp add: read_event_def replays_def)
qed

definition replayed :: "string \<Rightarrow> db \<Rightarrow> membership \<Rightarrow> stored_message list" where
  "replayed pid d mb = take 200 (missed pid (mb_channel mb) d)"

lemma replay_lines_missed:
  assumes "log_wf d" "members_wf d" "mb \<in> set (memberships pid d)"
  shows "replay_lines (mb_channel mb) (mb_last_seen_seq mb) 200 d = map (replay_line d) (replayed pid d mb)"
proof -
  have "mb \<in> set (filter (\<lambda>m. mb_channel m = mb_channel mb) (memberships pid d))" using assms(3) by simp
  then have "cursor pid (mb_channel mb) d = Some (mb_last_seen_seq mb)"
    unfolding memberships_facts(2) [OF assms(2)] by (cases "cursor pid (mb_channel mb) d") (simp_all, metis membership.select_convs(2))
  then show ?thesis
    by (simp add: replay_lines_def replayed_def missed_def history_after_take [OF assms(1)] clamp_limit_def)
qed

text \<open>What the queue of the client shows of a stored message.\<close>

definition shown :: "message \<Rightarrow> int option \<times> string \<times> string" where
  "shown g = (g_seq g, g_channel g, g_content g)"

definition stored :: "stored_message \<Rightarrow> int option \<times> string \<times> string" where
  "stored m = (Some (sm_seq m), sm_channel m, sm_body m)"

lemma read_replay:
  assumes "plain_nick (display_name SERVER_NAME (sm_sender_id m) d)" "plain_channel (sm_channel m)" "sm_body m \<noteq> []"
    "rstrip_newline (sm_body m) = sm_body m"
  shows "\<exists>g. read_event (rstrip_newline (replay_line d m)) = Some (Deliver g) \<and> g_is_replay g \<and> shown g = stored m"
proof -
  obtain a where a: "replay_line d m = a @ CHR '':'' # sm_body m"
    by (simp add: replay_line_def privmsg_line_def del: append_assoc add: append_assoc [symmetric])
  then have "rstrip_newline (replay_line d m) = replay_line d m" using assms(4) by (simp add: rstrip_text)
  with read_replay_line [OF assms(1-3)] show ?thesis by (auto simp: shown_def stored_def)
qed

lemma heard_replays:
  assumes "list_all (fits limit) (map (replay_line d) ms)"
    and "\<forall>m \<in> set ms. plain_nick (display_name SERVER_NAME (sm_sender_id m) d) \<and> plain_channel (sm_channel m)
       \<and> sm_body m \<noteq> [] \<and> rstrip_newline (sm_body m) = sm_body m"
  shows "map shown (replays (heard limit (map (replay_line d) ms))) = map stored ms"
  using assms
proof (induction ms)
  case Nil
  then show ?case by (simp add: heard_def replays_def)
next
  case (Cons m ms)
  then obtain g where "read_event (rstrip_newline (replay_line d m)) = Some (Deliver g)" "g_is_replay g" "shown g = stored m"
    using read_replay [of m d] by auto
  with Cons show ?case by (simp add: heard_def replays_def)
qed

lemma heard_append: "list_all (fits limit) xs \<Longrightarrow> heard limit (xs @ ys) = heard limit xs @ heard limit ys"
  by (induction xs) (simp_all add: heard_def)

lemma replays_none:
  "\<forall>l \<in> set ls. \<exists>e. read_event (rstrip_newline l) = Some e \<and> replays [e] = [] \<Longrightarrow> replays (heard limit ls) = []"
  by (induction ls) (auto simp: heard_def replays_def)

text \<open>The lines of a registration after the welcome.\<close>

definition after_welcome :: "principal \<Rightarrow> db \<Rightarrow> string list" where
  "after_welcome p d = tl (register_lines p (memberships (pr_id p) d) d)"

lemma register_lines_split: "register_lines p (memberships (pr_id p) d) d = welcome_line p # after_welcome p d"
  by (simp add: after_welcome_def register_lines_def)

lemma replays_heard:
  assumes wf: "log_wf d" "members_wf d" and ok: "legible p d" and fit: "list_all (fits limit) (after_welcome p d)"
  shows "map shown (replays (heard limit (after_welcome p d)))
    = map stored (concat (map (replayed (pr_id p) d) (memberships (pr_id p) d)))"
proof -
  let ?ms = "memberships (pr_id p) d"
  let ?joins = "map (\<lambda>m. '':'' @ pr_nick p @ '' JOIN '' @ mb_channel m) ?ms"
  let ?replays = "map (\<lambda>m. map (replay_line d) (replayed (pr_id p) d m)) ?ms"
  have nick: "py_word (pr_nick p)" "hd (pr_nick p) \<noteq> CHR '':''" using ok by (auto simp: legible_def)
  have ch: "plain_channel (mb_channel m)" if "m \<in> set ?ms" for m using ok that by (auto simp: legible_def)
  have "py_word (mb_channel m) \<and> hd (mb_channel m) \<noteq> CHR '':''" if "m \<in> set ?ms" for m
    using ch [OF that] by (auto simp: plain_channel_def)
  then have joins: "replays (heard limit ?joins) = []"
    by (intro replays_none) (auto simp: read_join_line [OF nick(1), simplified] replays_def)
  have "replays (heard limit [replay_notice p k]) = []" for k
    using read_notice_line [OF nick] by (intro replays_none) (simp add: replay_notice_def SERVER_NAME_def)
  moreover have after: "after_welcome p d = ?joins @ (if ?ms = [] then [] else replay_notice p (length ?ms) # concat ?replays)"
    using replay_lines_missed [OF wf] by (simp add: after_welcome_def register_lines_def cong: map_cong)
  moreover have "map shown (replays (heard limit (concat ?replays))) = map stored (concat (map (replayed (pr_id p) d) ?ms))"
    if "list_all (fits limit) (concat ?replays)"
  proof -
    have "map shown (replays (heard limit (map (replay_line d) ms))) = map stored ms"
      if "ms = concat (map (replayed (pr_id p) d) ?ms)" "list_all (fits limit) (map (replay_line d) ms)" for ms
      using that ok by (intro heard_replays)
        (auto simp: legible_def replayed_def missed_def channel_messages_def split: option.splits dest!: in_set_takeD)
    from this [OF refl] that show ?thesis by (simp add: map_concat o_def)
  qed
  ultimately show ?thesis
    using fit joins heard_append [of limit "?joins @ [replay_notice p (length ?ms)]" "concat ?replays"]
      heard_append [of limit ?joins "[replay_notice p (length ?ms)]"]
    by (cases "?ms = []") (simp_all add: replays_append)
qed

lemma hello_one_line:
  assumes "is_param token" "is_param nick" "\<forall>i. inputs_lines (inp i)"
  shows "\<forall>ev \<in> set (Accept n uuid # numbered n inp (hello_lines token nick)). event_lines ev"
proof -
  have "one_line w" if "is_param w" for w
    using that by (auto simp: one_line_def is_param_def is_word_def no_ws_def is_whitespace_def)
  then have "\<forall>l \<in> set (hello_lines token nick). one_line l" using assms(1,2) by (simp add: hello_lines_def)
  then show ?thesis using assms(3) by (auto simp: numbered_def in_set_enumerate_eq)
qed

lemma fits_short: "2 * length l < limit \<Longrightarrow> fits limit l"
proof -
  have "utf8_length l \<le> 2 * length l" by (induction l) (simp_all add: utf8_length_def)
  then show "2 * length l < limit \<Longrightarrow> fits limit l" by (simp add: fits_def)
qed

lemma caps_fit: "list_all (fits STREAM_LIMIT) (refused_line # caps_lines)"
  by (simp add: fits_def utf8_length_def STREAM_LIMIT_def caps_lines_def refused_line_def)

subsection \<open>Coming back\<close>

text \<open>C6. A Python client that opens a connection with a token the server accepts ends up
  registered on both sides: the server holds a registered session of the token's principal for the
  connection, the client's wait ends with the nick the server gave it, and its reader, on the rest
  of what the server wrote, puts into the message queue as replays exactly the first 200 messages
  the principal missed in each of its channels, channel by channel in the order of the log, with
  their numbers and texts. This holds from every reachable state, whichever clock values and UUIDs
  the server draws, as long as names and texts are legible and the lines fit the client's buffer.\<close>

theorem client_comes_back:
  fixes sy :: system
  defines "d \<equiv> sv_db (sy_server sy)"
  assumes ok: "sys_ok sy" "sys_lines sy"
    and new: "sy_conns sy n = Idle" "\<forall>m se. sess sy m = Some se \<longrightarrow> s_session_id se \<noteq> ''sess_'' @ uuid"
    and w: "is_param token" "is_param nick" "\<forall>i. inputs_lines (inp i)"
    and auth: "authenticate cr token d (sv_legacy_hits (sy_server sy)) = (Inr p, hits)"
    and leg: "legible p d"
    and fit: "list_all (fits STREAM_LIMIT) (register_lines p (memberships (pr_id p) d) d)"
  shows "\<exists>sy' se rest es. run (sys_step cr) sy (Accept n uuid # numbered n inp (hello_lines token nick)) sy'
    \<and> sy_conns sy' n = Live se \<and> s_registered se \<and> s_principal se = Some p
    \<and> await_welcome STREAM_LIMIT (concat (map crlf (q_sent (outs (sy_server sy') n)))) = ([], Welcomed (Some (pr_nick p)) rest)
    \<and> reader_loop STREAM_LIMIT rest = (es, Lost)
    \<and> map shown (replays es) = map stored (concat (map (replayed (pr_id p) d) (memberships (pr_id p) d)))"
proof -
  obtain sy' where run: "run (sys_step cr) sy (Accept n uuid # numbered n inp (hello_lines token nick)) sy'"
      and se: "sy_conns sy' n = Live (registered_session p (knocking n uuid token nick))"
      and q: "q_sent (outs (sy_server sy') n) = caps_lines @ welcome_line p # after_welcome p d"
    using hello_accepted [where inp = inp, OF new w(1,2) auth [unfolded d_def]]
    unfolding d_def [symmetric] register_lines_split by (metis mpsc.select_convs(1))
  have "sys_lines sy'" using typed.run_inv [OF run_with [OF run hello_one_line [OF w]] ok(2)] .
  then have lines: "list_all server_line (caps_lines @ welcome_line p # after_welcome p d)"
    unfolding q [symmetric] by (simp add: sys_lines_def sv_lines_def)
  have fits: "fits STREAM_LIMIT (welcome_line p)" "list_all (fits STREAM_LIMIT) (after_welcome p d)"
    using fit by (simp_all add: register_lines_split)
  have wf: "log_wf d" "members_wf d" using ok(1) by (simp_all add: d_def sys_ok_def sv_wf_def db_wf_def)
  have "await_welcome STREAM_LIMIT (concat (map crlf (q_sent (outs (sy_server sy') n))))
      = ([], Welcomed (Some (pr_nick p)) (concat (map crlf (after_welcome p d))))"
    using leg lines fits(1) caps_fit by (simp add: q await_caps await_welcome_line legible_def server_line_def)
  moreover have "reader_loop STREAM_LIMIT (concat (map crlf (after_welcome p d))) = (heard STREAM_LIMIT (after_welcome p d), Lost)"
    using reader_loop_lines [of "after_welcome p d" STREAM_LIMIT "[]"] lines fits(2) by (simp add: reader_loop_end)
  moreover note replays_heard [OF wf leg fits(2)]
  ultimately show ?thesis using run se by fastforce
qed

lemma demo_sys_lines: "sys_lines demo"
proof -
  have "session_lines se" if "sess demo n = Some se" for n se
    using demo_conns_cases [of n se] that
    by (auto simp: demo_def demo_on_def sess_def session_lines_def principal_lines_def demo_a_def demo_b_def demo_c_def demo_a2_def
        demo_session_def demo_pr_def new_session_def)
  moreover have "sv_lines (sy_server demo)"
    using demo_lines by (simp add: sv_lines_def new_mpsc_def)
  ultimately show ?thesis by (simp add: sys_lines_def)
qed

lemma demo_missed_c: "memberships ''c'' demo_db = [\<lparr>mb_channel = ''#w'', mb_last_seen_seq = 0\<rparr>]"
  "missed ''c'' ''#w'' demo_db = [demo_message]"
  by (simp_all add: memberships_def missed_def cursor_def row_of_def query_row_def member_key_def channel_messages_def demo_defs)

lemma demo_register_fits:
  "list_all (fits STREAM_LIMIT) (register_lines (demo_pr ''c'') (memberships ''c'' demo_db) demo_db)"
proof -
  have "map length (register_lines (demo_pr ''c'') (memberships ''c'' demo_db) demo_db) = [33, 10, 59, 54]" by code_simp
  then have "l \<in> set (register_lines (demo_pr ''c'') (memberships ''c'' demo_db) demo_db) \<Longrightarrow> length l \<in> set [33, 10, 59, 54]" for l
    by (metis image_eqI set_map)
  then have "\<forall>l \<in> set (register_lines (demo_pr ''c'') (memberships ''c'' demo_db) demo_db). length l \<le> 59" by fastforce
  then show ?thesis using fits_short by (auto simp: list_all_iff STREAM_LIMIT_def)
qed

theorem client_comes_back_witness:
  "\<exists>sy' rest es. run (sys_step demo_crypto) demo (Accept 4 ''v'' # numbered 4 (\<lambda>_. demo_inputs) (hello_lines ''c-token'' ''c'')) sy'
    \<and> await_welcome STREAM_LIMIT (concat (map crlf (q_sent (outs (sy_server sy') 4)))) = ([], Welcomed (Some ''c'') rest)
    \<and> reader_loop STREAM_LIMIT rest = (es, Lost) \<and> map shown (replays es) = [(Some 1, ''#w'', ''old'')]"
proof -
  have new: "sy_conns demo 4 = Idle" "\<forall>m se. sess demo m = Some se \<longrightarrow> s_session_id se \<noteq> ''sess_'' @ ''v''"
    using demo_conns_cases
    by (simp add: demo_def demo_on_def demo_conns_def)
       (auto simp: sess_def demo_def demo_on_def demo_a_def demo_b_def demo_c_def demo_a2_def demo_session_def new_session_def
         dest!: demo_conns_cases)
  have w: "is_param ''c-token''" "is_param ''c''" "\<forall>i :: nat. inputs_lines demo_inputs"
    by (simp_all add: is_param_def is_word_def no_ws_def is_whitespace_def inputs_lines_def)
  have "legible (demo_pr ''c'') demo_db"
    by (simp add: legible_def demo_missed_c plain_channel_def plain_nick_def py_word_def py_whitespace_def is_whitespace_def
        display_name_def row_of_def query_row_def rstrip_newline_def demo_message_def SERVER_NAME_def)
       (simp add: demo_defs)
  from client_comes_back [OF demo_ok demo_sys_lines new w, of demo_crypto "demo_pr ''c''" 1] this demo_register_fits
  show ?thesis
    by (auto simp: demo_authenticate demo_missed_c replayed_def stored_def demo_message_def)
qed

theorem client_is_refused:
  assumes "sy_conns sy n = Idle" "\<forall>m se. sess sy m = Some se \<longrightarrow> s_session_id se \<noteq> ''sess_'' @ uuid"
    and "is_param token" "is_param nick"
    and "authenticate cr token (sv_db (sy_server sy)) (sv_legacy_hits (sy_server sy)) = (Inl (Anyhow e), hits)"
  shows "\<exists>sy' se. run (sys_step cr) sy (Accept n uuid # numbered n inp (hello_lines token nick)) sy'
    \<and> sy_conns sy' n = Live se \<and> \<not> s_registered se
    \<and> await_welcome STREAM_LIMIT (concat (map crlf (q_sent (outs (sy_server sy') n)))) = ([], Refused refused_line)"
  using hello_refused [where inp = inp, OF assms] await_refused [OF caps_fit, of "[refused_line]"]
  by (auto simp: knocking_def new_session_def)

end
