(* ===== verification/Order.thy ===== *)
theory Order
  imports Handshake
begin

section \<open>Messages arrive once and in the order of the log\<close>

text \<open>
  A line is live when it carries a sequence number and is not marked as a replay. Along a run of
  \<open>sys_step\<close>, where a handler is one step, the live lines of every queue are numbered in strictly
  increasing order by messages of the log: nothing is delivered twice, out of order, or without
  being stored. \<open>Races.reordered_loss\<close> shows that this is lost when the handlers of two
  connections interleave.
\<close>

named_theorems order_rules \<open>operations that keep the queues in order\<close>

subsection \<open>Live lines\<close>

definition line_seq :: "string \<Rightarrow> int option" where
  "line_seq l =
     (case read_tags l of
        None \<Rightarrow> None
      | Some (t, _) \<Rightarrow> if t ''replay'' = Some ''1'' then None else Option.bind (t ''seq'') py_int)"

definition live :: "string list \<Rightarrow> int list" where
  "live = List.map_filter line_seq"

lemma live_simps [simp]:
  "live [] = []" "live (l # ls) = (case line_seq l of None \<Rightarrow> live ls | Some s \<Rightarrow> s # live ls)"
  "live (xs @ ys) = live xs @ live ys"
  by (auto simp: live_def List.map_filter_def split: option.split)

lemma live_silent: "\<forall>l \<in> set ls. line_seq l = None \<Longrightarrow> live ls = []"
  by (induction ls) simp_all

lemma line_seq_prefixed [simp]: "line_seq (CHR '':'' # s) = None"
  by (simp add: line_seq_def read_tags_def starts_with_def)

lemma line_seq_tags:
  "\<forall>kv \<in> set tags. tag_key (fst kv) \<Longrightarrow> tags \<noteq> [] \<Longrightarrow> distinct (map fst tags) \<Longrightarrow>
   line_seq (format_message_tags tags @ CHR '' '' # rest) =
     (if map_of tags ''replay'' = Some ''1'' then None else Option.bind (map_of tags ''seq'') py_int)"
  using read_tags_format [of tags rest] by (simp add: line_seq_def)

lemma line_seq_lines:
  "line_seq (replay_line d m) = None"
  "line_seq (message_line p c body m) = Some (sm_seq m)"
  "line_seq (task_event_line t action status actor body m) = Some (sm_seq m)"
  "line_seq (task_failure_tags action i actor @ CHR '' '' # rest) = None"
proof -
  show "line_seq (replay_line d m) = None" unfolding replay_line_tags
    by (simp add: line_seq_tags tag_key_def tag_safe_def)
  show "line_seq (message_line p c body m) = Some (sm_seq m)" unfolding message_line_tags
    by (simp add: line_seq_tags tag_key_def tag_safe_def py_int_show_int)
  show "line_seq (task_failure_tags action i actor @ CHR '' '' # rest) = None"
    by (simp add: task_failure_tags_def line_seq_tags tag_key_def tag_safe_def)
  have "map_of (task_event_tags m t action status actor) ''seq'' = Some (show_int (sm_seq m))"
      "map_of (task_event_tags m t action status actor) ''replay'' = None"
    by (simp_all add: task_event_tags_def)
  then show "line_seq (task_event_line t action status actor body m) = Some (sm_seq m)"
    using line_seq_tags [OF task_event_tags_ok, of m t action status actor]
    unfolding task_event_line_tags by (simp add: py_int_show_int)
qed

subsection \<open>Queues in order\<close>

definition queue_ok :: "db \<Rightarrow> mpsc \<Rightarrow> bool" where
  "queue_ok d q \<longleftrightarrow> sorted_wrt (<) (live (q_sent q)) \<and> set (live (q_sent q)) \<subseteq> sm_seq ` set (messages d)"

definition in_order :: "server \<Rightarrow> bool" where
  "in_order sv \<longleftrightarrow> (\<forall>n. queue_ok (sv_db sv) (outs sv n))"

lemma queue_ok_send:
  "queue_ok d q \<Longrightarrow> live ls = [] \<Longrightarrow> queue_ok d (send_all ls q)"
  by (simp add: queue_ok_def send_all_def)

lemma in_order_push: "in_order sv \<Longrightarrow> live ls = [] \<Longrightarrow> in_order (push n ls sv)"
  by (simp add: in_order_def queue_ok_send)

lemma in_order_same [simp]:
  "in_order (sv\<lparr>sv_inner := i\<rparr>) = in_order sv" "in_order (sv\<lparr>sv_legacy_hits := h\<rparr>) = in_order sv"
  "in_order (sv\<lparr>shuts := s\<rparr>) = in_order sv"
  by (simp_all add: in_order_def)

lemma in_order_db: "in_order sv \<Longrightarrow> messages d = messages (sv_db sv) \<Longrightarrow> in_order (sv\<lparr>sv_db := d\<rparr>)"
  by (simp add: in_order_def queue_ok_def)

lemma keeps_order_db:
  assumes "\<And>d r d'. m d = (r, d') \<Longrightarrow> messages d' = messages d"
  shows "keeps in_order (on_db m)"
  using assms by (auto simp: keeps_def on_db_def intro!: in_order_db split: prod.split)

lemma keeps_order_basic [order_rules]:
  "line_seq l = None \<Longrightarrow> keeps in_order (session_send se l)"
  "keeps in_order (send_shutdown n r)"
  "keeps in_order (on_inner f)"
  "line_seq l = None \<Longrightarrow> keeps in_order (broadcast_raw c l)"
  "keeps in_order (on_db (modify (mark_seen p c s)))"
  "keeps in_order (on_db (modify (mark_disconnected now p)))"
  "keeps in_order (on_db (modify (add_membership now p c)))"
  "keeps in_order (on_db (modify (remove_membership p c)))"
  "keeps in_order (on_db (mark_connected_and_memberships now p))"
proof -
  show "line_seq l = None \<Longrightarrow> keeps in_order (broadcast_raw c l)"
  proof (rule keepsI)
    fix sv assume l: "line_seq l = None" and sv: "in_order sv"
    have "in_order (fold (\<lambda>h. push (h_tx h) [l]) hs sv)" for hs
      using sv l by (induction hs arbitrary: sv) (simp_all add: in_order_push)
    then show "in_order (snd (broadcast_raw c l sv))" by (simp add: broadcast_raw_run)
  qed
qed (auto simp: keeps_def session_send_run send_shutdown_run on_inner_run on_db_modify mark_connected_run in_order_push
      add_membership_def remove_membership_def mark_disconnected_def mark_connected_def intro!: in_order_db)

lemma keeps_order_tasks [order_rules]:
  "keeps in_order (on_db (tasks_create u now ch t))"
  "keeps in_order (on_db (tasks_claim l now tid p))"
  "keeps in_order (on_db (tasks_done now tid p))"
  "keeps in_order (on_db (tasks_release now tid p))"
proof -
  have fr: "messages d' = messages d" if "d' = d\<lparr>tasks := tasks d'\<rparr>" for d d' :: db
    using arg_cong [OF that, of messages] by simp
  show "keeps in_order (on_db (tasks_create u now ch t))" "keeps in_order (on_db (tasks_claim l now tid p))"
    "keeps in_order (on_db (tasks_done now tid p))" "keeps in_order (on_db (tasks_release now tid p))"
    by (rule keeps_order_db, rule fr, erule tasks_frame)+
qed

lemma keeps_order_replay [order_rules]: "keeps in_order (replay_history se cs a l)"
proof -
  have "keeps in_order (replay_message se m)" for m
  proof (rule keepsI)
    fix sv assume "in_order sv"
    then show "in_order (snd (replay_message se m sv))"
      using line_seq_lines(1) [of "sv_db sv" m]
      by (simp add: replay_message_def act_simps session_send_run in_order_push replay_line_def)
  qed
  then show ?thesis
    unfolding replay_history_def replay_channel_def Let_def by (intro keeps_rules order_rules) auto
qed

subsection \<open>A message that is posted\<close>

definition may_post :: "server \<Rightarrow> bool" where
  "may_post sv \<longleftrightarrow> in_order sv \<and> log_wf (sv_db sv)
     \<and> (\<forall>n c. times_sent n (recipients_with_ids c (sv_inner sv)) \<le> 1)"

lemma live_replicate: "live (replicate k l) = (case line_seq l of None \<Rightarrow> [] | Some s \<Rightarrow> replicate k s)"
  by (induction k) (auto split: option.split)

lemma keeps_may_post [order_rules]:
  assumes l: "\<And>m. line_seq (f m) = Some (sm_seq m)"
  shows "keeps may_post (post u now ch s b f)"
proof (rule keepsI)
  fix sv assume ok: "may_post sv"
  then have log: "log_wf (sv_db sv)" and ord: "in_order sv" by (simp_all add: may_post_def)
  obtain r d where run: "history_append u now ch s b (sv_db sv) = (r, d)"
    by (cases "history_append u now ch s b (sv_db sv)")
  show "may_post (snd (post u now ch s b f sv))"
  proof (cases r)
    case (Inl e)
    then have "d = sv_db sv" using run by (auto simp: history_append_cases [OF log] Let_def split: if_splits)
    with run Inl ok show ?thesis by (simp add: post_run)
  next
    case (Inr m)
    note m = history_append_Inr [OF log run [unfolded Inr]]
    let ?rs = "recipients_with_ids ch (sv_inner sv)"
    let ?sv' = "fold (deliver_to ch (f m) (sm_seq m)) ?rs (sv\<lparr>sv_db := d\<rparr>)"
    have msgs: "messages (fold (\<lambda>p. mark_seen p ch k) ps e) = messages e \<and> messages_seq (fold (\<lambda>p. mark_seen p ch k) ps e) = messages_seq e" for ps e k
      by (induction ps arbitrary: e) simp_all
    have new: "x < sm_seq m" if "x \<in> sm_seq ` set (messages (sv_db sv))" for x
      using that log m(2) by (auto simp: log_wf_def)
    have "queue_ok (sv_db ?sv') (outs ?sv' n)" for n
    proof -
      have q: "queue_ok (sv_db sv) (outs sv n)" using ord by (simp add: in_order_def)
      have k: "times_sent n ?rs = 0 \<or> times_sent n ?rs = 1" using ok by (simp add: may_post_def le_Suc_eq)
      show ?thesis
        using q k new unfolding queue_ok_def deliver_fold
        by (auto simp: msgs m(1) send_all_def live_replicate l sorted_wrt_append)
    qed
    moreover have "log_wf (sv_db ?sv')"
      using keepsD_eq [OF keeps_history_append log run]
      by (simp add: deliver_fold log_wf_cong [of "fold (\<lambda>p. mark_seen p ch k) ps d" d for k ps] msgs)
    ultimately show ?thesis
      using ok run Inr by (simp add: post_run may_post_def in_order_def deliver_fold(3))
  qed
qed

lemma keeps_may_post_send [order_rules]: "line_seq l = None \<Longrightarrow> keeps may_post (session_send se l)"
  by (auto simp: keeps_def may_post_def session_send_run in_order_push)

lemma keeps_may_post_tasks [order_rules]:
  "keeps may_post (on_db (tasks_create u now ch t))"
  "keeps may_post (on_db (tasks_claim l now tid p))"
  "keeps may_post (on_db (tasks_done now tid p))"
  "keeps may_post (on_db (tasks_release now tid p))"
proof -
  have lift: "keeps may_post (on_db m)" if k: "keeps in_order (on_db m)" and fr: "\<And>d r d'. m d = (r, d') \<Longrightarrow> d' = d\<lparr>tasks := tasks d'\<rparr>" for m :: "(db, task) act"
  proof (rule keepsI)
    fix sv assume ok: "may_post sv"
    obtain r d where r: "m (sv_db sv) = (r, d)" by (cases "m (sv_db sv)")
    have "log_wf d = log_wf (sv_db sv)"
      using arg_cong [OF fr [OF r], of messages] arg_cong [OF fr [OF r], of messages_seq] by (intro log_wf_cong) simp_all
    with keepsD [OF k, of sv] ok r show "may_post (snd (on_db m sv))" by (simp add: may_post_def on_db_def)
  qed
  show "keeps may_post (on_db (tasks_create u now ch t))" "keeps may_post (on_db (tasks_claim l now tid p))"
    "keeps may_post (on_db (tasks_done now tid p))" "keeps may_post (on_db (tasks_release now tid p))"
    by (rule lift, rule keeps_order_tasks, erule tasks_frame)+
qed

subsection \<open>Handlers\<close>

lemma keeps_order_post_handlers [order_rules]:
  "keeps may_post (privmsg inp se ch body)"
  "keeps may_post (task_create inp se ch title)"
  "keeps may_post (task_claim inp se tid)"
  "keeps may_post (task_done inp se tid)"
  "keeps may_post (task_release inp se tid)"
  unfolding posts task_create_def task_claim_def task_done_def task_release_def task_failed_def
  by (intro keeps_rules order_rules line_seq_lines; simp add: line_seq_lines)+

lemma keeps_order_handlers [order_rules]:
  "keeps in_order (cap se sub caps)"
  "keeps in_order (chathistory se c a l)"
  "keeps in_order (task_list se ch)"
  "keeps in_order (join_channel inp se ch)"
  "keeps in_order (part_channel se ch)"
  "keeps in_order (register inp p se)"
  "keeps in_order (disconnect inp se)"
  unfolding cap_def Let_def chathistory_def task_list_def task_line_def join_channel_def part_channel_def register_def take_over_def
    replay_missed_def welcome_line_def replay_notice_def disconnect_def
  by (intro keeps_rules order_rules; simp)+

lemma keeps_order_guard:
  assumes "keeps I m" and send: "\<And>se s. keeps I (session_send se (CHR '':'' # s))"
  shows "keeps I (if_registered se m)"
  unfolding if_registered_def ensure_registered_def
  using send by (intro keeps_rules assms(1)) (simp_all del: append.simps add: append_Cons)

lemma keeps_order_register [order_rules]: "keeps in_order (try_register cr inp se)"
proof -
  have "keeps in_order (run_authenticate cr token)" for token
    by (auto simp: keeps_def run_authenticate_def split: prod.split sum.split err.split)
  then show ?thesis unfolding try_register_def
    by (intro keeps_rules order_rules) (auto split: sum.split intro!: keeps_rules order_rules)
qed

lemma handle_command_in_order:
  assumes "may_post sv"
  shows "in_order (snd (handle_command cr inp se cmd sv))"
proof -
  have ord: "in_order sv" using assms by (simp add: may_post_def)
  have post: "in_order (snd (if_registered se m sv))" if "keeps may_post m" for m
    using keepsD [OF keeps_order_guard [OF that] assms] order_rules by (simp add: may_post_def)
  have other: "in_order (snd (if_registered se m sv))" if "keeps in_order m" for m
    using keepsD [OF keeps_order_guard [OF that] ord] order_rules by simp
  have out: "in_order (snd (and_then m (\<lambda>x. ret (k x)) sv))" if "keeps in_order m" for m :: "(server, 'b) act" and k :: "'b \<Rightarrow> session \<times> bool"
    using keepsD [OF that ord] by (simp add: act_simps)
  show ?thesis
    using ord by (cases cmd) (auto intro!: post [OF keeps_order_post_handlers(1)] post [OF keeps_order_post_handlers(2)]
        post [OF keeps_order_post_handlers(3)] post [OF keeps_order_post_handlers(4)] post [OF keeps_order_post_handlers(5)]
        other out order_rules simp: run_act)
qed

subsection \<open>The system\<close>

definition sys_order :: "system \<Rightarrow> bool" where
  "sys_order sy \<longleftrightarrow> sys_ok sy \<and> in_order (sy_server sy)"

lemma sys_order_may_post: "sys_order sy \<Longrightarrow> may_post (sy_server sy)"
  using times_sent_ok [of "sy_server sy" "sy_conns sy"]
  by (simp add: sys_order_def may_post_def sys_ok_def sv_wf_def db_wf_def)

lemma in_order_queues [simp]:
  "in_order (close_out n sv) = in_order sv" "in_order (close_shut n sv) = in_order sv" "in_order (take_out n sv) = in_order sv"
  by (auto simp: in_order_def queue_ok_def close_out_def close_shut_def take_out_def)

lemma in_order_accept:
  assumes "in_order (sy_server sy)"
  shows "in_order (sy_server (accept_conn n u sy))"
proof -
  let ?sv = "(sy_server sy)\<lparr>outs := (outs (sy_server sy))(n := new_mpsc), shuts := (shuts (sy_server sy))(n := new_mpsc)\<rparr>"
  have "in_order ?sv" using assms by (auto simp: in_order_def queue_ok_def new_mpsc_def)
  then have "in_order (push n ['':aircd NOTICE * :Welcome to aircd prototype''] ?sv)" by (rule in_order_push) simp
  then show ?thesis by (simp add: accept_conn_def Let_def session_send_run new_session_def SERVER_NAME_def)
qed

lemma in_order_leave: "in_order sv \<Longrightarrow> in_order (sy_server (leave_loop inp n se sv sy))"
  using keepsD [OF keeps_order_handlers(7), of sv inp se]
  by (auto simp: leave_loop_def split: prod.split sum.split)

lemma in_order_line:
  assumes "sys_order sy"
  shows "in_order (sy_server (on_line cr inp n se l sy))"
proof -
  obtain r sv where run: "handle_line cr inp se l (sy_server sy) = (r, sv)" by (cases "handle_line cr inp se l (sy_server sy)")
  then have "in_order sv"
    using handle_command_in_order [OF sys_order_may_post [OF assms], of cr inp se "parse_command l"] by (simp add: handle_line_def)
  then show ?thesis by (auto simp: on_line_def run drop_conn_def in_order_leave split: sum.split)
qed

lemma sys_order_step:
  assumes "sys_step cr sy ev sy'" "sys_order sy"
  shows "sys_order sy'"
proof -
  have "in_order (sy_server sy')" using assms
  proof (induction rule: sys_step.induct)
    case (shut sy n se inp)
    then show ?case
      by (auto simp: on_shutdown_def Let_def sys_order_def session_send_run intro!: in_order_leave in_order_push)
  qed (auto simp: in_order_accept in_order_leave in_order_line drop_conn_def, auto simp: sys_order_def in_order_accept in_order_leave)
  with assms sys_step_ok show ?thesis by (auto simp: sys_order_def)
qed

lemma starts_order: "starts sy \<Longrightarrow> sys_order sy"
  using starts_ok
  by (auto simp: sys_order_def starts_def sys_start_def server_new_def in_order_def queue_ok_def new_mpsc_def)

interpretation ordered: transition_system starts "sys_step cr" sys_order for cr
  by unfold_locales (auto intro: starts_order sys_order_step)

subsection \<open>In the message queue of a client\<close>

definition live_read :: "client_event list \<Rightarrow> int list" where
  "live_read es = List.map_filter (\<lambda>e. case e of
     Deliver g \<Rightarrow> if g_is_replay g then None else g_seq g | _ \<Rightarrow> None) es"

lemma live_read_simps [simp]:
  "live_read [] = []"
  "live_read (Answer a # es) = live_read es" "live_read (Ignore # es) = live_read es"
  "live_read (Deliver g # es) = (if g_is_replay g \<or> g_seq g = None then live_read es else the (g_seq g) # live_read es)"
  by (auto simp: live_read_def List.map_filter_def)

lemma live_read_append: "live_read (xs @ ys) = live_read xs @ live_read ys"
  by (simp add: live_read_def List.map_filter_def)

lemma tags_rstrip:
  assumes "framed l"
  shows "map_option fst (read_tags (rstrip_newline l)) = map_option fst (read_tags l)"
proof -
  obtain c s where l: "l = c # s" using assms by (cases l) auto
  show ?thesis
  proof (cases "c = CHR '':''")
    case True
    then show ?thesis using rstrip_keep [of c "[]" s] by (simp add: l read_tags_def starts_with_def)
  next
    case False
    with assms obtain a r where r: "c = CHR ''@''" "split_once '' '' s = Some (a, r)"
      by (auto simp: l split: if_splits option.splits)
    have s: "s = a @ CHR '' '' # r" "CHR '' '' \<notin> set a"
      using split_once_Some [OF r(2)] split_once_first [OF r(2)] by simp_all
    have "rstrip_newline l = CHR ''@'' # a @ CHR '' '' # rstrip_newline r"
      using rstrip_keep [of "CHR '' ''" "CHR ''@'' # a" r] by (simp add: l r(1) s(1))
    then show ?thesis
      using s(2) by (simp add: l r(1) s(1) read_tags_def starts_with_def split_once_char)
  qed
qed

lemma read_live:
  assumes "server_line l" "read_event (rstrip_newline l) = Some (Deliver g)" "\<not> g_is_replay g" "g_seq g = Some s"
  shows "line_seq l = Some s"
proof -
  from assms(2) obtain t r where t: "read_tags (rstrip_newline l) = Some (t, r)" "g_seq g = Option.bind (t ''seq'') py_int"
      "g_is_replay g = (t ''replay'' = Some ''1'' \<or> ''batch'' \<in> dom t)"
    by (auto simp: read_event_def parse_irc_line_def split: option.splits prod.splits if_splits)
  have "map_option fst (read_tags l) = Some t" using tags_rstrip [of l] assms(1) t(1) by (simp add: server_line_def)
  then obtain r' where "read_tags l = Some (t, r')" by auto
  with t assms(3,4) show ?thesis by (simp add: line_seq_def)
qed

lemma heard_live:
  assumes "list_all server_line ls" "sorted_wrt (<) (live ls)"
  shows "sorted_wrt (<) (live_read (heard limit ls)) \<and> set (live_read (heard limit ls)) \<subseteq> set (live ls)"
  using assms
proof (induction ls)
  case Nil
  then show ?case by (simp add: heard_def)
next
  case (Cons l ls)
  then obtain e where e: "read_event (rstrip_newline l) = Some e" using server_line_read by fastforce
  have IH: "sorted_wrt (<) (live_read (heard limit ls))" "set (live_read (heard limit ls)) \<subseteq> set (live ls)"
    using Cons by (auto split: option.splits)
  show ?case
  proof (cases "fits limit l")
    case False
    then show ?thesis by (simp add: heard_def)
  next
    case True
    then have h: "heard limit (l # ls) = e # heard limit ls" by (simp add: heard_def e)
    show ?thesis
    proof (cases "\<exists>g s. e = Deliver g \<and> \<not> g_is_replay g \<and> g_seq g = Some s")
      case live: True
      then obtain g s where g: "e = Deliver g" "\<not> g_is_replay g" "g_seq g = Some s" by blast
      have "line_seq l = Some s" using read_live [of l g s] Cons.prems(1) e g by simp
      with Cons.prems(2) IH g h show ?thesis by auto
    next
      case False
      then have "live_read (e # heard limit ls) = live_read (heard limit ls)" by (cases e) auto
      with IH h show ?thesis by (auto split: option.splits)
    qed
  qed
qed

text \<open>C11. Whatever the clients send, as long as a handler is not interrupted by another: the live
  messages that the reader of a connection puts into its message queue, that is all that carry a
  sequence number and are not marked as replays, carry strictly increasing numbers, each the number
  of a message that the server has stored. No message is delivered live twice, or before one that
  was stored earlier, in any channel and whatever clients come and go.\<close>

theorem live_messages_in_order:
  assumes "db_wf d" "db_lines d" and "run (sys_step cr) (sys_start env d) evs sy" and "\<forall>ev \<in> set evs. event_lines ev"
  shows "sorted_wrt (<) (live_read (fst (reader_loop STREAM_LIMIT (written (outs (sy_server sy) n)))))
    \<and> set (live_read (fst (reader_loop STREAM_LIMIT (written (outs (sy_server sy) n))))) \<subseteq> sm_seq ` set (messages (sv_db (sy_server sy)))"
proof -
  let ?q = "outs (sy_server sy) n"
  let ?ls = "take (q_taken ?q) (q_sent ?q)"
  have lines: "list_all server_line (q_sent ?q)" by (rule run_lines [OF assms(2-4)])
  have "starts (sys_start env d)" using assms(1) by (auto simp: starts_def)
  then have "sys_order sy" using ordered.reach_inv assms(3) by blast
  then have q: "sorted_wrt (<) (live (q_sent ?q))" "set (live (q_sent ?q)) \<subseteq> sm_seq ` set (messages (sv_db (sy_server sy)))"
    by (simp_all add: sys_order_def in_order_def queue_ok_def)
  have split: "live (q_sent ?q) = live ?ls @ live (drop (q_taken ?q) (q_sent ?q))"
    using live_simps(3) [of ?ls "drop (q_taken ?q) (q_sent ?q)"] by simp
  have "list_all server_line ?ls" using lines by (auto simp: list_all_iff dest: in_set_takeD)
  from heard_live [OF this, of STREAM_LIMIT] q show ?thesis
    by (auto simp: split sorted_wrt_append reader_written [OF lines] Let_def)
qed

text \<open>The writer task takes whatever is queued.\<close>

lemma drain:
  assumes "sy_conns sy n \<noteq> Idle" "q_open (outs (sy_server sy) n)"
    and "length (q_sent (outs (sy_server sy) n)) = q_taken (outs (sy_server sy) n) + k"
  shows "\<exists>sy'. run (sys_step cr) sy (replicate k (Written n)) sy'
    \<and> outs (sy_server sy') n = (outs (sy_server sy) n)\<lparr>q_taken := length (q_sent (outs (sy_server sy) n))\<rparr>"
  using assms
proof (induction k arbitrary: sy)
  case 0
  then show ?case by auto
next
  case (Suc k)
  let ?s = "sy\<lparr>sy_server := take_out n (sy_server sy)\<rparr>"
  have "sys_step cr sy (Written n) ?s" using Suc.prems by (intro sys_step.written) auto
  moreover have "\<exists>sy'. run (sys_step cr) ?s (replicate k (Written n)) sy'
      \<and> outs (sy_server sy') n = (outs (sy_server ?s) n)\<lparr>q_taken := length (q_sent (outs (sy_server ?s) n))\<rparr>"
    using Suc.prems by (intro Suc.IH) (simp_all add: take_out_def)
  ultimately show ?case by (auto simp: take_out_def)
qed

text \<open>One client comes, posts a message to its channel and hears it.\<close>

definition chat_events :: "event list" where
  "chat_events = Accept 0 ''v'' # numbered 0 (\<lambda>_. demo_inputs) (hello_lines ''a-token'' ''a'')
     @ [Line 0 demo_inputs ''PRIVMSG #w :hi'']"

lemma fits_lengths: "map length ls = ks \<Longrightarrow> \<forall>k \<in> set ks. 2 * k < limit \<Longrightarrow> list_all (fits limit) ls"
  by (auto simp: list_all_iff intro!: fits_short)

lemma chat_fits:
  "list_all (fits STREAM_LIMIT) (register_lines (demo_pr ''a'') (memberships ''a'' demo_db) demo_db)"
  "fits STREAM_LIMIT (message_line (demo_pr ''a'') ''#w'' ''hi'' (next_message ''n'' 10 ''#w'' ''a'' ''hi'' demo_db))"
proof -
  have "map length (register_lines (demo_pr ''a'') (memberships ''a'' demo_db) demo_db) = [33, 10, 59]"
    "map length [message_line (demo_pr ''a'') ''#w'' ''hi'' (next_message ''n'' 10 ''#w'' ''a'' ''hi'' demo_db)] = [45]"
    by code_simp+
  then show "list_all (fits STREAM_LIMIT) (register_lines (demo_pr ''a'') (memberships ''a'' demo_db) demo_db)"
    "fits STREAM_LIMIT (message_line (demo_pr ''a'') ''#w'' ''hi'' (next_message ''n'' 10 ''#w'' ''a'' ''hi'' demo_db))"
    by (auto simp: STREAM_LIMIT_def intro!: fits_short dest!: fits_lengths)
qed

lemma chat_read:
  "\<exists>g. read_event (rstrip_newline (message_line (demo_pr ''a'') ''#w'' ''hi'' m)) = Some (Deliver g)
    \<and> \<not> g_is_replay g \<and> g_seq g = Some (sm_seq m)"
proof -
  have "\<exists>s. message_line (demo_pr ''a'') ''#w'' ''hi'' m = s @ ''hi''"
    by (simp add: message_line_def privmsg_line_def del: append_assoc add: append_assoc [symmetric])
  then have "rstrip_newline (message_line (demo_pr ''a'') ''#w'' ''hi'' m) = message_line (demo_pr ''a'') ''#w'' ''hi'' m"
    using rstrip_word [of "''hi''"] by (auto simp: py_word_def py_whitespace_def is_whitespace_def)
  with read_message_line [of "demo_pr ''a''" "''#w''" "''hi''" m] show ?thesis
    by (auto simp: plain_nick_def plain_channel_def py_word_def py_whitespace_def is_whitespace_def)
qed

lemma registers_clients: "registers inp p se sv sv' \<Longrightarrow> clients (sv_inner sv') (pr_id p) = Some (handle_of se)"
  by (auto simp: registers_def register_run take_over_clients)

lemma chat_run:
  defines "m \<equiv> next_message ''n'' 10 ''#w'' ''a'' ''hi'' demo_db"
  shows "\<exists>sy ls. run (sys_step demo_crypto) (sys_start None demo_db) chat_events sy \<and> sy_conns sy 0 \<noteq> Idle
    \<and> outs (sy_server sy) 0 = \<lparr>q_sent = ls @ [message_line (demo_pr ''a'') ''#w'' ''hi'' m], q_taken = 0, q_open = True\<rparr> \<and> live ls = [] \<and> list_all (fits STREAM_LIMIT) ls"
proof -
  let ?s0 = "sys_start None demo_db" and ?se = "registered_session (demo_pr ''a'') (knocking 0 ''v'' ''a-token'' ''a'')"
  have fresh: "sy_conns ?s0 0 = Idle" "\<forall>m se. sess ?s0 m = Some se \<longrightarrow> s_session_id se \<noteq> ''sess_'' @ ''v''"
    by (simp_all add: sys_start_def sess_def)
  have w: "is_param ''a-token''" "is_param ''a''" by (simp_all add: is_param_def is_word_def no_ws_def is_whitespace_def)
  have auth: "authenticate demo_crypto ''a-token'' (sv_db (sy_server ?s0)) (sv_legacy_hits (sy_server ?s0)) = (Inr (demo_pr ''a''), 1)"
    by (simp add: sys_start_def server_new_def demo_authenticate)
  obtain s1 ls where run1: "run (sys_step demo_crypto) ?s0 (Accept 0 ''v'' # numbered 0 (\<lambda>_. demo_inputs) (hello_lines ''a-token'' ''a'')) s1"
      and c1: "sy_conns s1 0 = Live ?se"
      and reg: "registers demo_inputs (demo_pr ''a'') (knocking 0 ''v'' ''a-token'' ''a'') (opened 0 (sy_server ?s0)) (sy_server s1)"
      and o1: "outs (sy_server s1) 0 = \<lparr>q_sent = ls, q_taken = 0, q_open = True\<rparr>"
      and ls: "ls = caps_lines @ register_lines (demo_pr ''a'') (memberships ''a'' demo_db) demo_db"
    using hello_accepted [where inp = "\<lambda>_. demo_inputs", OF fresh w auth] by (auto simp: sys_start_def server_new_def)
  have "starts ?s0" using demo_db_wf by (auto simp: starts_def)
  then have ok: "sys_ok s1" using sys.reach_inv run1 by blast
  have d: "sv_db (opened 0 (sy_server ?s0)) = demo_db" by (simp add: opened_def sys_start_def server_new_def)
  have mem: "is_member ''a'' ''#w'' (sv_db (sy_server s1))"
    using register_members [OF reg] by (simp add: d demo_members)
  have msgs: "messages (sv_db (sy_server s1)) = messages demo_db" "messages_seq (sv_db (sy_server s1)) = messages_seq demo_db"
    using register_messages [OF reg] by (simp_all add: d)
  then have room: "has_room ''n'' (sv_db (sy_server s1))" and m: "next_message ''n'' 10 ''#w'' ''a'' ''hi'' (sv_db (sy_server s1)) = m"
    using demo_room by (simp_all add: has_room_def m_def next_message_def)
  have own: "clients (sv_inner (sy_server s1)) ''a'' = Some (handle_of ?se)"
    using registers_clients [OF reg] by simp
  then have g: "guard_ok ?se (sy_server s1)"
    by (simp add: guard_ok_def handle_of_def)
  from privmsg_posted [OF ok, of ?se "demo_pr ''a''" "''#w''" demo_inputs "''hi''"] mem room
  obtain sv2 where p: "privmsg demo_inputs ?se ''#w'' ''hi'' (sy_server s1) = (Inr (), sv2)"
      "posted (message_line (demo_pr ''a'') ''#w'' ''hi'' m) m (sy_server s1) sv2"
    by (auto simp: m)
  have cmd: "parse_command ''PRIVMSG #w :hi'' = Privmsg ''#w'' ''hi''" "normalize_channel ''#w'' = ''#w''" by code_simp+
  have "handle_line demo_crypto demo_inputs ?se ''PRIVMSG #w :hi'' (sy_server s1) = (Inr (?se, False), sv2)"
    using p(1) by (simp add: handle_line_def cmd guarded_run [OF g] and_then_def run_act)
  then have s2: "sys_step demo_crypto s1 (Line 0 demo_inputs ''PRIVMSG #w :hi'') (s1\<lparr>sy_server := sv2\<rparr>)"
    using sys_step.line [where cr = demo_crypto and inp = demo_inputs and l = "''PRIVMSG #w :hi''", OF c1] on_line_stay [OF _ c1] by simp
  have "listens (sy_server s1) ''#w'' 0"
    unfolding listens_def using mem
    by (intro exI [of _ "''a''"] exI [of _ "handle_of ?se"]) (simp add: own, simp add: handle_of_def knocking_def new_session_def)
  then have "outs sv2 0 = \<lparr>q_sent = ls @ [message_line (demo_pr ''a'') ''#w'' ''hi'' m], q_taken = 0, q_open = True\<rparr>"
    using p(2) o1 by (simp add: posted_def m_def next_message_def send_all_def)
  moreover have "live ls = []"
    unfolding ls by (rule live_silent)
      (auto simp: caps_lines_def register_lines_def welcome_line_def replay_notice_def replay_lines_def line_seq_lines split: if_splits)
  moreover have "list_all (fits STREAM_LIMIT) ls"
    unfolding ls list_all_append using caps_fit chat_fits by simp
  moreover have "run (sys_step demo_crypto) ?s0 chat_events (s1\<lparr>sy_server := sv2\<rparr>)"
    unfolding chat_events_def append_Cons [symmetric] run_append using run1 s2 by auto
  ultimately show ?thesis using c1 by (intro exI [of _ "s1\<lparr>sy_server := sv2\<rparr>"] exI [of _ ls]) simp
qed

theorem live_messages_in_order_witness:
  "\<exists>sy es. run (sys_step demo_crypto) (sys_start None demo_db) (chat_events @ es) sy
    \<and> live_read (fst (reader_loop STREAM_LIMIT (written (outs (sy_server sy) 0)))) = [2]
    \<and> 2 \<in> sm_seq ` set (messages (sv_db (sy_server sy)))"
proof -
  let ?m = "next_message ''n'' 10 ''#w'' ''a'' ''hi'' demo_db"
  let ?l = "message_line (demo_pr ''a'') ''#w'' ''hi'' ?m"
  obtain s1 ls where s1: "run (sys_step demo_crypto) (sys_start None demo_db) chat_events s1" "sy_conns s1 0 \<noteq> Idle"
      and q1: "outs (sy_server s1) 0 = \<lparr>q_sent = ls @ [?l], q_taken = 0, q_open = True\<rparr>"
      and ls: "live ls = []" "list_all (fits STREAM_LIMIT) ls"
    using chat_run by blast
  from drain [OF s1(2), of "Suc (length ls)" demo_crypto] q1
  obtain s2 where s2: "run (sys_step demo_crypto) s1 (replicate (Suc (length ls)) (Written 0)) s2"
      and q2: "outs (sy_server s2) 0 = \<lparr>q_sent = ls @ [?l], q_taken = Suc (length ls), q_open = True\<rparr>" by auto
  let ?es = "chat_events @ replicate (Suc (length ls)) (Written 0)"
  have run: "run (sys_step demo_crypto) (sys_start None demo_db) ?es s2" unfolding run_append using s1(1) s2 by blast
  have evs: "\<forall>ev \<in> set ?es. event_lines ev"
    using hello_one_line [of "''a-token''" "''a''" "\<lambda>_. demo_inputs" 0 "''v''"]
    by (auto simp: chat_events_def is_param_def is_word_def no_ws_def is_whitespace_def inputs_lines_def)
  have lines: "list_all server_line (ls @ [?l])" using run_lines [OF demo_lines run evs, of 0] by (simp add: q2)
  have "live_read (heard STREAM_LIMIT ls) = []"
    using heard_live [of ls STREAM_LIMIT] lines ls(1) by simp
  moreover obtain g where "heard STREAM_LIMIT [?l] = [Deliver g]" "\<not> g_is_replay g" "g_seq g = Some 2"
    using chat_read [of ?m] chat_fits(2) by (auto simp: heard_def next_message_def demo_db_def)
  ultimately have "live_read (heard STREAM_LIMIT (ls @ [?l])) = [2]"
    by (simp add: heard_append [OF ls(2)] live_read_append)
  then have "live_read (fst (reader_loop STREAM_LIMIT (written (outs (sy_server s2) 0)))) = [2]"
    using lines by (subst reader_written) (simp_all add: q2 Let_def)
  with live_messages_in_order [OF demo_db_wf demo_lines run evs, of 0] run show ?thesis by auto
qed

end
