(* ===== verification/Leases.thy ===== *)
theory Leases
  imports Interleave Demo
begin

section \<open>A lease under interleaving\<close>

text \<open>
  The interface \<open>rely\<close> once more, with the state of one lease as the invariant: every region of
  a command that respects the lease keeps it, so it lasts through every schedule of lock regions.
\<close>

named_theorems hold_rules \<open>programs that keep a lease\<close>

subsection \<open>Regions that keep a lease\<close>

definition holds :: "string \<Rightarrow> string \<Rightarrow> int \<Rightarrow> server \<Rightarrow> bool" where
  "holds t p l sv \<longleftrightarrow> tasks_wf (sv_db sv) \<and> task_phase t (sv_db sv) = Claimed p l"

interpretation hold: rely "holds t p l" "\<lambda>_ _. True" for t p l
  by unfold_locales simp_all

definition hold_prog :: "string \<Rightarrow> string \<Rightarrow> int \<Rightarrow> 'a handler \<Rightarrow> bool" where
  "hold_prog t p l prog \<longleftrightarrow> (\<forall>s. holds t p l s \<longrightarrow> hold.safe t p l prog (\<lambda>_ _. True) s)"

lemma holds_tasks: "tasks (sv_db sv') = tasks (sv_db sv) \<Longrightarrow> holds t p l sv' = holds t p l sv"
  by (simp only: holds_def tasks_wf_cong [of "sv_db sv'" "sv_db sv"] task_phase_cong [of "sv_db sv'" "sv_db sv"])

lemma hold_region:
  assumes "\<And>s. holds t p l s \<Longrightarrow> holds t p l (snd (m s))"
  shows "hold_prog t p l (region m)"
  unfolding hold_prog_def by (intro allI impI hold.safe_region) (simp_all add: assms)

lemma hold_still: "(\<And>s. tasks (sv_db (snd (m s))) = tasks (sv_db s)) \<Longrightarrow> hold_prog t p l (region m)"
proof (rule hold_region)
  fix s assume "\<And>s. tasks (sv_db (snd (m s))) = tasks (sv_db s)" and s: "holds t p l s"
  then have eq: "tasks (sv_db (snd (m s))) = tasks (sv_db s)" by blast
  from s show "holds t p l (snd (m s))" unfolding holds_tasks [OF eq] .
qed

lemma hold_now [hold_rules]:
  "hold_prog t p l (pret x)" "hold_prog t p l (praise e)" "hold_prog t p l (plift r)"
  by (auto simp: hold_prog_def pret_def praise_def plift_def split: sum.split)

lemma hold_seq [hold_rules]:
  "hold_prog t p l q \<Longrightarrow> (\<And>x. hold_prog t p l (k x)) \<Longrightarrow> hold_prog t p l (pbind q k)"
  unfolding hold_prog_def by (intro allI impI hold.safe_bind [where P = "\<lambda>_ _. True"]) auto

lemma hold_alt [hold_rules]:
  "hold_prog t p l q \<Longrightarrow> (\<And>x. hold_prog t p l (k x)) \<Longrightarrow> (\<And>e. hold_prog t p l (err e)) \<Longrightarrow> hold_prog t p l (pcatch q err k)"
  unfolding hold_prog_def by (intro allI impI hold.safe_catch [where P = "\<lambda>_ _. True"]) auto

lemma hold_loop [hold_rules]: "(\<And>x. hold_prog t p l (body x)) \<Longrightarrow> hold_prog t p l (pfor xs body)"
  unfolding hold_prog_def by (intro allI impI hold.safe_for) auto

lemma hold_split [hold_rules]:
  "(b \<Longrightarrow> hold_prog t p l q) \<Longrightarrow> (\<not> b \<Longrightarrow> hold_prog t p l r) \<Longrightarrow> hold_prog t p l (if b then q else r)"
  "(x = None \<Longrightarrow> hold_prog t p l q) \<Longrightarrow> (\<And>y. x = Some y \<Longrightarrow> hold_prog t p l (k y)) \<Longrightarrow>
     hold_prog t p l (case x of None \<Rightarrow> q | Some y \<Rightarrow> k y)"
  "(\<And>e. z = Inl e \<Longrightarrow> hold_prog t p l (g e)) \<Longrightarrow> (\<And>w. z = Inr w \<Longrightarrow> hold_prog t p l (h w)) \<Longrightarrow>
     hold_prog t p l (case z of Inl e \<Rightarrow> g e | Inr w \<Rightarrow> h w)"
  by (auto split: option.split sum.split)

text \<open>Regions that do not touch the tasks.\<close>

lemma hold_others [hold_rules]:
  "hold_prog t p l (region (reads f))"
  "hold_prog t p l (region (send_out n line))" "hold_prog t p l (p_send se line)"
  "hold_prog t p l (region (cap se sub caps))" "hold_prog t p l (region (task_failed se pr v a tid e))"
  "hold_prog t p l (region (on_inner i))" "hold_prog t p l (region (take_over pr se cs))"
  "hold_prog t p l (region (count_hit pr))" "hold_prog t p l (region (remove_own pr se))"
  "hold_prog t p l (region (on_db (mark_connected_and_memberships now pid)))"
  unfolding p_send_def
  by (rule hold_still, simp add: run_act send_out_run session_send_run cap_def task_failed_def Let_def on_inner_run take_over_run
      count_hit_def remove_own_def act_simps and_then_def mark_connected_run mark_connected_def split: prod.split sum.split)+

lemma hold_writes [hold_rules]:
  "hold_prog t p l (region (on_db (modify (mark_seen pid c n))))"
  "hold_prog t p l (region (on_db (modify (add_membership now pid c))))"
  "hold_prog t p l (region (on_db (modify (remove_membership pid c))))"
  "hold_prog t p l (region (on_db (modify (mark_disconnected now pid))))"
  by (rule hold_still, simp add: on_db_modify add_membership_def remove_membership_def mark_disconnected_def)+

lemma hold_append [hold_rules]: "hold_prog t p l (region (on_db (history_append u now c se b)))"
proof (rule hold_still)
  fix s :: server
  obtain r d where run: "history_append u now c se b (sv_db s) = (r, d)" by (cases "history_append u now c se b (sv_db s)")
  have "tasks d = tasks (sv_db s)" by (subst history_append_frame [OF run]) simp
  with run show "tasks (sv_db (snd (on_db (history_append u now c se b) s))) = tasks (sv_db s)" by (simp add: on_db_def)
qed

text \<open>A task operation that respects the lease, whatever it finds.\<close>

lemma hold_op:
  assumes "respects_lease t p l x"
  shows "hold_prog t p l (region (on_db (task_db x)))"
proof (rule hold_region)
  fix s assume s: "holds t p l s"
  then have "tasks_wf (snd (task_step x (sv_db s)))" "task_phase t (snd (task_step x (sv_db s))) = Claimed p l"
    using lease.step_inv [of "sv_db s" x] lease.step_lease(1) [OF _ _ assms, of "sv_db s"] by (simp_all add: holds_def)
  then show "holds t p l (snd (on_db (task_db x) s))"
    by (simp add: holds_def on_db_def split_def task_step_db snd_succeeded)
qed

lemmas hold_task_ops [hold_rules] =
  hold_op [where x = "OpCreate u now ch title" for u now ch title, simplified]
  hold_op [where x = "OpDone now tid pid" for now tid pid, simplified]
  hold_op [where x = "OpRelease now tid pid" for now tid pid, simplified]

lemma hold_claim [hold_rules]:
  assumes "tid = t \<Longrightarrow> now \<le> l"
  shows "hold_prog t p l (region (\<lambda>sv. on_db (tasks_claim (sv_lease_seconds sv) now tid pid) sv))"
proof (rule hold_region)
  fix s :: server assume s: "holds t p l s"
  let ?x = "OpClaim (sv_lease_seconds s) now tid pid"
  have r: "respects_lease t p l ?x" using assms by simp
  have "tasks_wf (snd (task_step ?x (sv_db s)))" "task_phase t (snd (task_step ?x (sv_db s))) = Claimed p l"
    using s lease.step_inv [of "sv_db s" ?x] lease.step_lease(1) [OF _ _ r, of "sv_db s"] by (simp_all add: holds_def)
  then show "holds t p l (snd (on_db (tasks_claim (sv_lease_seconds s) now tid pid) s))"
    by (simp add: holds_def on_db_def split_def task_step_db snd_succeeded)
qed

subsection \<open>Commands that respect a lease\<close>

text \<open>Of the operations on the task only those of the holder, and claims after its end, do not.\<close>

definition command_respects :: "string \<Rightarrow> string \<Rightarrow> int \<Rightarrow> inputs \<Rightarrow> session \<Rightarrow> command \<Rightarrow> bool" where
  "command_respects t p l inp se cmd \<longleftrightarrow>
     (case s_principal se of
        None \<Rightarrow> True
      | Some q \<Rightarrow> (case task_op_of 0 inp (pr_id q) cmd of None \<Rightarrow> True | Some x \<Rightarrow> respects_lease t p l x))"

lemma hold_principal:
  "(\<And>q. s_principal se = Some q \<Longrightarrow> hold_prog t p l (k q)) \<Longrightarrow> hold_prog t p l (pbind (plift (session_principal se)) k)"
  by (cases "s_principal se") (simp_all add: session_principal_def bind_simps, simp add: pbind_def plift_def hold_prog_def)

lemma hold_event [hold_rules]: "hold_prog t p l (p_broadcast_task_event inp tk action status actor b)"
  unfolding p_broadcast_task_event_def p_broadcast_message_def p_deliver_def by (intro hold_rules)

lemma hold_tasks:
  assumes "command_respects t p l inp se cmd"
  shows "cmd = TaskCreate c b \<Longrightarrow> hold_prog t p l (p_task_create inp se (normalize_channel c) b)"
    "cmd = TaskClaim i \<Longrightarrow> hold_prog t p l (p_task_claim inp se i)"
    "cmd = TaskDone i \<Longrightarrow> hold_prog t p l (p_task_done inp se i)"
    "cmd = TaskRelease i \<Longrightarrow> hold_prog t p l (p_task_release inp se i)"
  unfolding p_task_create_def p_task_claim_def p_task_done_def p_task_release_def
  using assms by (auto simp: command_respects_def intro!: hold_principal hold_rules)

lemma hold_handlers [hold_rules]:
  "hold_prog t p l (p_try_register cr inp se)"
  "hold_prog t p l (p_join inp se c)" "hold_prog t p l (p_part se c)" "hold_prog t p l (p_privmsg inp se c b)"
  "hold_prog t p l (p_task_list se c)" "hold_prog t p l (p_chathistory se ch a n)"
  "hold_prog t p l (p_disconnect inp se)" "hold_prog t p l (p_shutdown inp se r)"
  unfolding p_try_register_def p_authenticate_def p_register_def Let_def p_join_def p_part_def p_broadcast_raw_def p_privmsg_def
    p_broadcast_message_def p_deliver_def p_task_list_def p_chathistory_def p_replay_history_def p_replay_channel_def
    p_replay_message_def p_shutdown_def p_disconnect_def
  by (intro hold_rules)+

lemma hold_guard: "hold_prog t p l q \<Longrightarrow> hold_prog t p l (p_if_registered se q)"
  unfolding p_if_registered_def p_ensure_registered_def by (intro hold_rules)

lemma hold_command:
  assumes "command_respects t p l inp se cmd"
  shows "hold_prog t p l (p_command cr inp se cmd)"
  unfolding p_command_def
  by (cases cmd) (simp_all add: hold_guard hold_rules hold_tasks [OF assms])

subsection \<open>Schedules that respect a lease\<close>

fun aevent_respects :: "string \<Rightarrow> string \<Rightarrow> int \<Rightarrow> asystem \<Rightarrow> aevent \<Rightarrow> bool" where
  "aevent_respects t p l s (ALine n inp line) =
     (case as_conns s n of Ready se \<Rightarrow> command_respects t p l inp se (parse_command line) | _ \<Rightarrow> True)"
| "aevent_respects t p l s _ = True"

fun conn_holds :: "string \<Rightarrow> string \<Rightarrow> int \<Rightarrow> aconn \<Rightarrow> bool" where
  "conn_holds t p l (Busy se q) = hold_prog t p l q"
| "conn_holds t p l (Closing se q) = hold_prog t p l q"
| "conn_holds t p l _ = True"

definition pool_holds :: "string \<Rightarrow> string \<Rightarrow> int \<Rightarrow> asystem \<Rightarrow> bool" where
  "pool_holds t p l s \<longleftrightarrow> holds t p l (as_server s) \<and> (\<forall>n. conn_holds t p l (as_conns s n))"

lemma pool_holds_move:
  "pool_holds t p l s \<Longrightarrow> holds t p l sv \<Longrightarrow> conn_holds t p l c \<Longrightarrow> pool_holds t p l (at_conn n sv c s)"
  by (simp add: pool_holds_def)

lemma holds_queues [simp]:
  "holds t p l (close_out n sv) = holds t p l sv" "holds t p l (close_shut n sv) = holds t p l sv"
  "holds t p l (take_out n sv) = holds t p l sv" "holds t p l (new_stream n uuid sv) = holds t p l sv"
  by (simp_all add: holds_def new_stream_db)

lemma hold_Region:
  assumes "hold_prog t p l (Region f)" "holds t p l sv" "f sv = (sv', q)"
  shows "holds t p l sv' \<and> hold_prog t p l q"
proof -
  have s: "hold.safe t p l (Region f) (\<lambda>_ _. True) sv" using assms(1,2) unfolding hold_prog_def by blast
  then have h: "holds t p l sv'" "hold.safe t p l q (\<lambda>_ _. True) sv'"
    using assms(2,3) by (auto simp: hold.safe_Region simp del: hold.safe.simps(2))
  then have "hold.safe t p l q (\<lambda>_ _. True) v" if "holds t p l v" for v
    using hold.safe_later that by blast
  with h show ?thesis by (simp add: hold_prog_def)
qed

lemma pool_holds_step:
  assumes "astep cr s e s'" "aevent_respects t p l s e" "pool_holds t p l s"
  shows "pool_holds t p l s'"
proof -
  have h: "holds t p l (as_server s)" and c: "\<And>n. conn_holds t p l (as_conns s n)"
    using assms(3) by (simp_all add: pool_holds_def)
  show ?thesis using assms(1)
  proof cases
    case (line n se inp l')
    with assms(2) show ?thesis by (auto intro!: pool_holds_move assms(3) h hold_command)
  next
    case (busy n se f sv q)
    with c [of n] hold_Region [of t p l f, OF _ h busy(4)] show ?thesis by (auto intro!: pool_holds_move assms(3))
  next
    case (closing n se f sv q)
    with c [of n] hold_Region [of t p l f, OF _ h closing(4)] show ?thesis by (auto intro!: pool_holds_move assms(3))
  next
    case (closed n se r inp)
    with h show ?thesis by (auto intro!: pool_holds_move assms(3) split: sum.split)
  next
    case (written n)
    with assms(3) show ?thesis by (simp add: pool_holds_def)
  next
    case (write_error n)
    with assms(3) show ?thesis by (simp add: pool_holds_def)
  qed (auto intro!: pool_holds_move assms(3) hold_rules simp: h)
qed

interpretation leased: transition_system "pool_holds t p l" "\<lambda>s e s'. astep cr s e s' \<and> aevent_respects t p l s e" "pool_holds t p l" for t p l cr
  by unfold_locales (auto intro: pool_holds_step)

lemma pool_holds_interleaved: "holds t p l (sy_server sy) \<Longrightarrow> pool_holds t p l (interleaved sy)"
  by (simp add: pool_holds_def) (metis aconn_of.elims conn_holds.simps(3-5))

text \<open>C10. A lease holds however the lock regions of the handlers interleave: as long as no
  connection is given a command that claims the task at a time after the lease's end, and no session
  of the holder a command that finishes or releases it, the task stays claimed by its holder until
  the same time, at every moment of every schedule, also in the middle of handlers.\<close>

theorem lease_holds_interleaved:
  assumes "sys_ok sy" and "task_phase t (sv_db (sy_server sy)) = Claimed p l"
    and "run (\<lambda>s e s'. astep cr s e s' \<and> aevent_respects t p l s e) (interleaved sy) es s"
  shows "task_phase t (sv_db (as_server s)) = Claimed p l"
proof -
  have "holds t p l (sy_server sy)" using assms(1,2) sys_okD(3) by (simp add: holds_def)
  from leased.run_inv [OF assms(3) pool_holds_interleaved [OF this]] show ?thesis
    by (simp add: pool_holds_def holds_def)
qed

text \<open>Another session tries to claim the task while a third command is under way.\<close>

theorem lease_holds_interleaved_witness:
  "\<exists>es s r. run (\<lambda>s e s'. astep demo_crypto s e s' \<and> aevent_respects ''task_t'' ''a'' 100 s e) (interleaved demo)
      (ALine 1 demo_inputs ''TASK CLAIM task_t'' # ALine 0 demo_inputs ''USER a'' # es) s
    \<and> as_conns s 1 = Busy demo_b (Finished r)
    \<and> task_phase ''task_t'' (sv_db (as_server s)) = Claimed ''a'' 100"
proof -
  let ?step = "\<lambda>s e s'. astep demo_crypto s e s' \<and> aevent_respects ''task_t'' ''a'' 100 s e"
  let ?p = "p_command demo_crypto demo_inputs demo_b (TaskClaim ''task_t'')"
  have cmd: "parse_command ''TASK CLAIM task_t'' = TaskClaim ''task_t''" by code_simp
  let ?s1 = "at_conn 1 (sy_server demo) (Busy demo_b ?p) (interleaved demo)"
  let ?s2 = "at_conn 0 (sy_server demo) (Busy demo_a (p_command demo_crypto demo_inputs demo_a (parse_command ''USER a''))) ?s1"
  have s1: "?step (interleaved demo) (ALine 1 demo_inputs ''TASK CLAIM task_t'') ?s1"
    using astep.line [of "interleaved demo" 1 demo_b demo_crypto demo_inputs "''TASK CLAIM task_t''"]
    by (simp add: cmd command_respects_def)
  have s2: "?step ?s1 (ALine 0 demo_inputs ''USER a'') ?s2"
    using astep.line [of ?s1 0 demo_a demo_crypto demo_inputs "''USER a''"] by (simp add: parse_user command_respects_def)
  obtain r sv where rsv: "exec_prog ?p (as_server ?s2) = (r, sv)" by fastforce
  obtain es where "run (own_step demo_crypto 1) ?s2 es (at_conn 1 sv (Busy demo_b (Finished r)) ?s2)"
    using busy_run [OF _ rsv, of 1 demo_b demo_crypto] by auto
  then have s3: "run ?step ?s2 es (at_conn 1 sv (Busy demo_b (Finished r)) ?s2)"
  proof (rule run_mono)
    fix s e s' assume "own_step demo_crypto 1 s e s'"
    then show "?step s e s'" by (cases e) (simp_all add: own_step_def)
  qed
  have run: "run ?step (interleaved demo) (ALine 1 demo_inputs ''TASK CLAIM task_t'' # ALine 0 demo_inputs ''USER a'' # es)
      (at_conn 1 sv (Busy demo_b (Finished r)) ?s2)"
    by (rule run_cons [where step = ?step, OF s1 run_cons [where step = ?step, OF s2 s3]])
  have "task_phase ''task_t'' (sv_db (sy_server demo)) = Claimed ''a'' 100"
    by (simp add: task_phase_def row_of_def query_row_def row_phase_def demo_defs)
  from lease_holds_interleaved [OF demo_ok this run] run show ?thesis by fastforce
qed

end
