(* ===== verification/Inbox.thy ===== *)
theory Inbox
  imports Client System "HOL-Library.AList" "HOL-Library.Multiset"
begin

section \<open>The daemon's delivery buffer (src/clients/python/aircd/daemon.py)\<close>

text \<open>
  Between the messages the Python client delivers and the agent process, \<open>airc-daemon\<close> keeps
  \<open>AgentState\<close>: a queue of pending messages, the messages handed out and not acknowledged, and the
  ids seen. Its asyncio thread and the HTTP thread of the bridge share them under \<open>inbox_lock\<close>; a
  step here is one region under that lock, or one write to the agent's stdin. What every step does
  to the messages is written to a log, and the log is shown to account for each of them.
\<close>

subsection \<open>Messages and their ids\<close>

text \<open>A \<open>Message\<close> object: \<open>it_no\<close> is what \<open>id\<close> returns of it.\<close>

record item =
  it_no :: nat
  it_msg :: message

text \<open>\<open>re.search(r"msg-id=([^\s;]+)", s)\<close>\<close>

definition id_char :: "char \<Rightarrow> bool" where
  "id_char c \<longleftrightarrow> \<not> py_whitespace c \<and> c \<noteq> CHR '';''"

fun search_msg_id :: "string \<Rightarrow> string option" where
  "search_msg_id [] = None"
| "search_msg_id (c # cs) =
     (if starts_with (c # cs) ''msg-id='' \<and> takeWhile id_char (drop 7 (c # cs)) \<noteq> []
      then Some (takeWhile id_char (drop 7 (c # cs))) else search_msg_id cs)"

definition message_id :: "item \<Rightarrow> string option" where
  "message_id x = search_msg_id (g_raw (it_msg x))"

definition delivery_id :: "item \<Rightarrow> string" where
  "delivery_id x = (case message_id x of Some i \<Rightarrow> i | None \<Rightarrow> ''noid_'' @ show_nat (it_no x))"

subsection \<open>The state\<close>

definition MAX_PENDING :: nat where
  "MAX_PENDING = 200"

definition MAX_DEDUP_ENTRIES :: nat where
  "MAX_DEDUP_ENTRIES = 10000"

text \<open>The clock is in milliseconds.\<close>

definition MESSAGE_VISIBILITY_TIMEOUT :: int where
  "MESSAGE_VISIBILITY_TIMEOUT = 30000"

text \<open>
  Where the asyncio thread is: waiting in its event loop, on its way into
  \<open>_deliver_pending_idle\<close>, at the write in it with its local \<open>messages\<close>, or ended by an exception.
\<close>

datatype thread = At_rest | Delivering | Writing "item list" | Ended

record agent =
  a_running :: bool \<comment> \<open>\<open>process is not None\<close>\<close>
  a_busy :: bool
  a_pending :: "item list"
  a_in_flight :: "(string \<times> item \<times> int) list" \<comment> \<open>a dict, in its order\<close>
  a_seen :: "string list" \<comment> \<open>an \<open>OrderedDict\<close>, oldest first\<close>
  a_thread :: thread

definition agent_new :: agent where
  "agent_new = \<lparr>a_running = False, a_busy = False, a_pending = [], a_in_flight = [], a_seen = [],
     a_thread = At_rest\<rparr>"

text \<open>What became of a message.\<close>

datatype fate =
    is_accepted: Accepted (fate_item: item)
  | is_dropped: Dropped (fate_item: item)
  | is_written: To_agent (fate_item: item)
  | is_handed: Handed string (fate_item: item)
  | is_overwritten: Overwritten (fate_item: item)
  | is_acked: Acked (fate_item: item)

definition items :: "(fate \<Rightarrow> bool) \<Rightarrow> fate list \<Rightarrow> item list" where
  "items P fs = map fate_item (filter P fs)"

abbreviation accepted :: "fate list \<Rightarrow> item list" where
  "accepted \<equiv> items is_accepted"

subsection \<open>The operations\<close>

text \<open>\<open>_start_claude\<close>: no program found, the first write failed, or started.\<close>

datatype start = No_claude | Start_broken | Started

definition start_claude :: "start \<Rightarrow> agent \<Rightarrow> agent" where
  "start_claude st a = (case st of
     No_claude \<Rightarrow> a | Start_broken \<Rightarrow> a\<lparr>a_running := True\<rparr> | Started \<Rightarrow> a\<lparr>a_running := True, a_busy := True\<rparr>)"

text \<open>Its exceptions end the tasks that \<open>run\<close> gathers.\<close>

definition must_start :: "start \<Rightarrow> agent \<Rightarrow> agent" where
  "must_start st a = (if st = Started then start_claude st a else (start_claude st a)\<lparr>a_thread := Ended\<rparr>)"

definition remember :: "string \<Rightarrow> string list \<Rightarrow> string list" where
  "remember i seen = drop (length seen + 1 - MAX_DEDUP_ENTRIES) (seen @ [i])"

definition move_to_end :: "string \<Rightarrow> string list \<Rightarrow> string list" where
  "move_to_end i seen = filter (\<lambda>j. j \<noteq> i) seen @ [i]"

definition enqueue :: "item \<Rightarrow> start \<Rightarrow> agent \<Rightarrow> agent \<times> fate list" where
  "enqueue x st a =
     (let ps = a_pending a @ [x] in
      if a_busy a then
        (if length ps > MAX_PENDING then (a\<lparr>a_pending := tl ps\<rparr>, [Accepted x, Dropped (hd ps)])
         else (a\<lparr>a_pending := ps\<rparr>, [Accepted x]))
      else if \<not> a_running a then (must_start st (a\<lparr>a_pending := ps\<rparr>), [Accepted x])
      else (a\<lparr>a_pending := ps, a_thread := Delivering\<rparr>, [Accepted x]))"

text \<open>\<open>_irc_reader_loop\<close>, for a message that no request waits for.\<close>

definition on_message :: "string \<Rightarrow> item \<Rightarrow> start \<Rightarrow> agent \<Rightarrow> agent \<times> fate list" where
  "on_message nick x st a =
     (if g_sender (it_msg x) = nick then (a, [])
      else (case message_id x of
          None \<Rightarrow> enqueue x st a
        | Some i \<Rightarrow>
            if i \<in> set (a_seen a) then (a\<lparr>a_seen := move_to_end i (a_seen a)\<rparr>, [])
            else enqueue x st (a\<lparr>a_seen := remember i (a_seen a)\<rparr>)))"

text \<open>\<open>_deliver_pending_idle\<close>: the region that drains the queue, and the write.\<close>

definition drain_pending :: "agent \<Rightarrow> agent" where
  "drain_pending a =
     (if \<not> a_running a \<or> a_pending a = [] then a\<lparr>a_thread := At_rest\<rparr>
      else a\<lparr>a_pending := [], a_thread := Writing (a_pending a)\<rparr>)"

definition write_pending :: "bool \<Rightarrow> item list \<Rightarrow> agent \<Rightarrow> agent \<times> fate list" where
  "write_pending ok ms a =
     (if ok then (a\<lparr>a_busy := True, a_thread := At_rest\<rparr>, map To_agent ms)
      else (a\<lparr>a_pending := ms @ a_pending a, a_thread := At_rest\<rparr>, []))"

text \<open>\<open>_requeue_expired_in_flight_locked\<close>\<close>

definition expired :: "int \<Rightarrow> string \<times> item \<times> int \<Rightarrow> bool" where
  "expired now e \<longleftrightarrow> now - snd (snd e) > MESSAGE_VISIBILITY_TIMEOUT"

definition requeue_one :: "string \<times> item \<times> int \<Rightarrow> agent \<Rightarrow> agent" where
  "requeue_one e a = a\<lparr>a_in_flight := AList.delete (fst e) (a_in_flight a), a_pending := fst (snd e) # a_pending a\<rparr>"

definition requeue :: "int \<Rightarrow> agent \<Rightarrow> agent" where
  "requeue now a = fold requeue_one (filter (expired now) (a_in_flight a)) a"

text \<open>\<open>_handle_check_messages\<close>: the loop hands out what is pending, the dict may lose an entry.\<close>

definition hand_out_one :: "int \<Rightarrow> item \<Rightarrow> agent \<Rightarrow> agent \<times> fate list" where
  "hand_out_one now x a =
     (a\<lparr>a_in_flight := AList.update (delivery_id x) (x, now) (a_in_flight a)\<rparr>,
      (case map_of (a_in_flight a) (delivery_id x) of None \<Rightarrow> [] | Some (y, _) \<Rightarrow> [Overwritten y])
        @ [Handed (delivery_id x) x])"

fun hand_out :: "int \<Rightarrow> item list \<Rightarrow> agent \<Rightarrow> agent \<times> fate list" where
  "hand_out now [] a = (a\<lparr>a_pending := []\<rparr>, [])"
| "hand_out now (x # xs) a =
     (case hand_out_one now x a of (b, fs) \<Rightarrow> (case hand_out now xs b of (c, gs) \<Rightarrow> (c, fs @ gs)))"

definition check_messages :: "int \<Rightarrow> agent \<Rightarrow> agent \<times> fate list" where
  "check_messages now a = hand_out now (a_pending (requeue now a)) (requeue now a)"

text \<open>\<open>_handle_ack_messages\<close>\<close>

fun ack_messages :: "string list \<Rightarrow> agent \<Rightarrow> agent \<times> fate list" where
  "ack_messages [] a = (a, [])"
| "ack_messages (i # ids) a =
     (case map_of (a_in_flight a) i of
        None \<Rightarrow> ack_messages ids a
      | Some (x, _) \<Rightarrow>
          (case ack_messages ids (a\<lparr>a_in_flight := AList.delete i (a_in_flight a)\<rparr>) of
             (b, fs) \<Rightarrow> (b, Acked x # fs)))"

text \<open>A turn of the agent is complete (\<open>_claude_stdout_reader\<close>).\<close>

definition turn_done :: "agent \<Rightarrow> agent" where
  "turn_done a = a\<lparr>a_busy := False, a_thread := if a_pending a = [] then At_rest else Delivering\<rparr>"

text \<open>The process has ended: its reader catches every exception, the watchdog none.\<close>

definition process_exited :: "start \<Rightarrow> agent \<Rightarrow> agent" where
  "process_exited st a =
     (let b = a\<lparr>a_busy := False, a_running := False\<rparr> in if a_pending a = [] then b else start_claude st b)"

definition watchdog :: "start \<Rightarrow> agent \<Rightarrow> agent" where
  "watchdog st a =
     (let b = a\<lparr>a_busy := False, a_running := False\<rparr> in if a_pending a = [] then b else must_start st b)"

text \<open>\<open>_in_flight_reaper\<close> and \<open>_wake_pending_delivery\<close>\<close>

definition wake_pending :: "start \<Rightarrow> agent \<Rightarrow> agent" where
  "wake_pending st a =
     (if \<not> a_running a then must_start st a
      else if a_busy a then a
      else a\<lparr>a_thread := Delivering\<rparr>)"

definition reap :: "int \<Rightarrow> start \<Rightarrow> agent \<Rightarrow> agent" where
  "reap now st a =
     (if filter (expired now) (a_in_flight a) = [] then a else wake_pending st (requeue now a))"

subsection \<open>Steps\<close>

text \<open>The messages the daemon holds.\<close>

definition writing :: "agent \<Rightarrow> item list" where
  "writing a = (case a_thread a of Writing ms \<Rightarrow> ms | _ \<Rightarrow> [])"

definition in_hand :: "(string \<times> item \<times> int) list \<Rightarrow> item list" where
  "in_hand fl = map (\<lambda>e. fst (snd e)) fl"

definition held :: "agent \<Rightarrow> item list" where
  "held a = a_pending a @ in_hand (a_in_flight a) @ writing a"

datatype daemon_event =
    Got_message item start | Drain | Write bool | Turn_done | Process_exited start | Watchdog start
  | Reap int start | Check int | Ack "string list"

text \<open>
  The first seven are steps of the asyncio thread, which runs one of its tasks until that task
  waits; the last two of the HTTP thread. \<open>id\<close> returns a number that no living object has.
\<close>

inductive daemon_step :: "string \<Rightarrow> agent \<times> fate list \<Rightarrow> daemon_event \<Rightarrow> agent \<times> fate list \<Rightarrow> bool"
  for nick :: string where
  got_message: "a_thread a = At_rest \<Longrightarrow> it_no x \<notin> it_no ` set (held a) \<Longrightarrow> on_message nick x st a = (b, fs)
    \<Longrightarrow> daemon_step nick (a, os) (Got_message x st) (b, os @ fs)"
| drain: "a_thread a = Delivering \<Longrightarrow> daemon_step nick (a, os) Drain (drain_pending a, os)"
| write_step: "a_thread a = Writing ms \<Longrightarrow> write_pending ok ms a = (b, fs)
    \<Longrightarrow> daemon_step nick (a, os) (Write ok) (b, os @ fs)"
| turn_done: "a_thread a = At_rest \<Longrightarrow> daemon_step nick (a, os) Turn_done (turn_done a, os)"
| process_exited: "a_thread a = At_rest \<Longrightarrow> a_running a
    \<Longrightarrow> daemon_step nick (a, os) (Process_exited st) (process_exited st a, os)"
| watchdog: "a_thread a = At_rest \<Longrightarrow> a_running a \<Longrightarrow> a_busy a
    \<Longrightarrow> daemon_step nick (a, os) (Watchdog st) (watchdog st a, os)"
| reap: "a_thread a = At_rest \<Longrightarrow> daemon_step nick (a, os) (Reap now st) (reap now st a, os)"
| check: "check_messages now a = (b, fs) \<Longrightarrow> daemon_step nick (a, os) (Check now) (b, os @ fs)"
| ack: "ack_messages ids a = (b, fs) \<Longrightarrow> daemon_step nick (a, os) (Ack ids) (b, os @ fs)"

definition resting :: "agent \<Rightarrow> bool" where
  "resting a = (case a_thread a of At_rest \<Rightarrow> True | _ \<Rightarrow> False)"

lemma resting [simp]: "resting a \<longleftrightarrow> a_thread a = At_rest"
  by (simp add: resting_def split: thread.split)

text \<open>The same steps as a function, \<open>None\<close> where a step cannot be taken.\<close>

fun daemon_exec :: "string \<Rightarrow> daemon_event \<Rightarrow> agent \<times> fate list \<Rightarrow> (agent \<times> fate list) option" where
  "daemon_exec nick (Got_message x st) (a, os) =
     (if resting a \<and> it_no x \<notin> it_no ` set (held a)
      then (case on_message nick x st a of (b, fs) \<Rightarrow> Some (b, os @ fs)) else None)"
| "daemon_exec nick Drain (a, os) =
     (case a_thread a of Delivering \<Rightarrow> Some (drain_pending a, os) | _ \<Rightarrow> None)"
| "daemon_exec nick (Write ok) (a, os) =
     (case a_thread a of Writing ms \<Rightarrow> (case write_pending ok ms a of (b, fs) \<Rightarrow> Some (b, os @ fs)) | _ \<Rightarrow> None)"
| "daemon_exec nick Turn_done (a, os) = (if resting a then Some (turn_done a, os) else None)"
| "daemon_exec nick (Process_exited st) (a, os) =
     (if resting a \<and> a_running a then Some (process_exited st a, os) else None)"
| "daemon_exec nick (Watchdog st) (a, os) =
     (if resting a \<and> a_running a \<and> a_busy a then Some (watchdog st a, os) else None)"
| "daemon_exec nick (Reap now st) (a, os) = (if resting a then Some (reap now st a, os) else None)"
| "daemon_exec nick (Check now) (a, os) = (case check_messages now a of (b, fs) \<Rightarrow> Some (b, os @ fs))"
| "daemon_exec nick (Ack ids) (a, os) = (case ack_messages ids a of (b, fs) \<Rightarrow> Some (b, os @ fs))"

fun daemon_execs :: "string \<Rightarrow> daemon_event list \<Rightarrow> agent \<times> fate list \<Rightarrow> (agent \<times> fate list) option" where
  "daemon_execs nick [] s = Some s"
| "daemon_execs nick (ev # evs) s = Option.bind (daemon_exec nick ev s) (daemon_execs nick evs)"

lemma daemon_exec_step: "daemon_exec nick ev s = Some t \<longleftrightarrow> daemon_step nick s ev t"
proof
  show "daemon_exec nick ev s = Some t \<Longrightarrow> daemon_step nick s ev t"
    by (cases "(nick, ev, s)" rule: daemon_exec.cases)
       (auto intro: daemon_step.intros split: if_splits prod.splits thread.splits)
qed (auto elim!: daemon_step.cases)

lemma daemon_execs_run: "daemon_execs nick evs s = Some t \<Longrightarrow> run (daemon_step nick) s evs t"
  by (induction evs arbitrary: s) (auto simp: daemon_exec_step split: Option.bind_splits)


subsection \<open>Accounting\<close>

text \<open>The messages that left the daemon, for whatever reason.\<close>

definition settled :: "fate \<Rightarrow> bool" where
  "settled f \<longleftrightarrow> \<not> is_accepted f \<and> \<not> is_handed f"

definition balanced :: "agent \<Rightarrow> fate list \<Rightarrow> agent \<Rightarrow> bool" where
  "balanced a fs b \<longleftrightarrow> mset (held a) + mset (accepted fs) = mset (held b) + mset (items settled fs)"

lemma items_simps [simp]:
  "items P [] = []" "items P (f # fs) = (if P f then fate_item f # items P fs else items P fs)"
  "items P (fs @ gs) = items P fs @ items P gs"
  by (simp_all add: items_def)

lemma settled_simps [simp]:
  "\<not> settled (Accepted x)" "\<not> settled (Handed i x)" "settled (Dropped x)" "settled (To_agent x)"
  "settled (Overwritten x)" "settled (Acked x)"
  by (simp_all add: settled_def)

lemma items_To_agent [simp]: "items P (map To_agent xs) = filter (\<lambda>x. P (To_agent x)) xs"
  by (induction xs) auto

lemma mset_settled: "mset (items settled fs) = mset (items is_dropped fs) + mset (items is_written fs)
    + mset (items is_overwritten fs) + mset (items is_acked fs)"
proof (induction fs)
  case (Cons f fs)
  then show ?case by (cases f) simp_all
qed simp

lemma balanced_held: "mset (held b) = mset (held a) \<Longrightarrow> balanced a [] b"
  by (simp add: balanced_def)

lemma balanced_sub: "balanced a fs b \<Longrightarrow> mset (held b) \<subseteq># mset (held a @ accepted fs)"
  by (simp add: balanced_def)

lemma distinct_submset: "mset xs \<subseteq># mset ys \<Longrightarrow> distinct ys \<Longrightarrow> distinct xs"
  unfolding distinct_count_atmost_1
  by (metis le_SucE le_zero_eq count_eq_zero_iff mset_subset_eq_count One_nat_def set_mset_mset)

subsection \<open>The dict of messages in flight\<close>

definition flight_ok :: "(string \<times> item \<times> int) list \<Rightarrow> bool" where
  "flight_ok fl \<longleftrightarrow> distinct (map fst fl) \<and> (\<forall>e \<in> set fl. fst e = delivery_id (fst (snd e)))"

lemma in_hand_simps [simp]:
  "in_hand [] = []" "in_hand (e # fl) = fst (snd e) # in_hand fl" "in_hand (fl @ fl') = in_hand fl @ in_hand fl'"
  by (simp_all add: in_hand_def)

lemma fold_requeue: "fold requeue_one es a
  = a\<lparr>a_in_flight := filter (\<lambda>e. fst e \<notin> fst ` set es) (a_in_flight a), a_pending := rev (in_hand es) @ a_pending a\<rparr>"
proof (induction es arbitrary: a)
  case (Cons e es)
  show ?case
    by (simp only: fold_Cons comp_apply Cons.IH)
       (auto simp: requeue_one_def AList.delete_eq filter_filter intro!: agent.equality filter_cong)
qed simp

lemma requeue_eq:
  assumes "flight_ok (a_in_flight a)"
  shows "requeue now a = a\<lparr>a_in_flight := filter (\<lambda>e. \<not> expired now e) (a_in_flight a),
    a_pending := rev (in_hand (filter (expired now) (a_in_flight a))) @ a_pending a\<rparr>"
proof -
  have inj: "inj_on fst (set (a_in_flight a))" using assms by (simp add: flight_ok_def distinct_map)
  have "fst e \<in> fst ` set (filter (expired now) (a_in_flight a)) \<longleftrightarrow> expired now e" if "e \<in> set (a_in_flight a)" for e
  proof -
    have "e' = e" if "e' \<in> set (a_in_flight a)" "fst e' = fst e" for e'
      using inj_onD [OF inj] that \<open>e \<in> set (a_in_flight a)\<close> by blast
    then show ?thesis using that by (force simp del: prod.collapse)
  qed
  then have "filter (\<lambda>e. fst e \<notin> fst ` set (filter (expired now) (a_in_flight a))) (a_in_flight a)
      = filter (\<lambda>e. \<not> expired now e) (a_in_flight a)" by (intro filter_cong) simp_all
  then show ?thesis by (simp only: requeue_def fold_requeue)
qed

lemma mset_in_hand: "mset (in_hand fl) = mset (in_hand (filter P fl)) + mset (in_hand (filter (\<lambda>e. \<not> P e) fl))"
  by (induction fl) auto

lemma requeue_held: "flight_ok (a_in_flight a) \<Longrightarrow> mset (held (requeue now a)) = mset (held a)"
  using mset_in_hand [of "a_in_flight a" "expired now"] by (simp add: requeue_eq held_def writing_def)

lemma flight_ok_filter: "flight_ok fl \<Longrightarrow> flight_ok (filter P fl)"
  by (auto simp: flight_ok_def distinct_map_filter)

lemma set_update: "set (AList.update k v fl) \<subseteq> insert (k, v) (set fl)"
  by (induction fl) auto

lemma flight_ok_update: "flight_ok fl \<Longrightarrow> flight_ok (AList.update (delivery_id x) (x, now) fl)"
  using set_update [of "delivery_id x" "(x, now)" fl] by (auto simp: flight_ok_def AList.distinct_update)

lemma mset_delete:
  "distinct (map fst fl) \<Longrightarrow> map_of fl i = Some (x, t) \<Longrightarrow>
   mset (in_hand fl) = add_mset x (mset (in_hand (AList.delete i fl)))"
  by (induction fl) (auto split: if_splits dest: weak_map_of_SomeI)

lemma mset_update_new:
  "map_of fl i = None \<Longrightarrow> mset (in_hand (AList.update i (x, t) fl)) = add_mset x (mset (in_hand fl))"
  by (induction fl) (auto split: if_splits)

lemma mset_update_old:
  "map_of fl i = Some (y, u) \<Longrightarrow>
   add_mset y (mset (in_hand (AList.update i (x, t) fl))) = add_mset x (mset (in_hand fl))"
  by (induction fl) (auto split: if_splits)

lemma flight_ok_delete: "flight_ok fl \<Longrightarrow> flight_ok (AList.delete i fl)"
  by (simp add: AList.delete_eq flight_ok_filter)

subsection \<open>Every operation accounts for its messages\<close>

lemma hand_out_held:
  assumes "hand_out now xs a = (b, fs)"
  shows "mset (in_hand (a_in_flight b)) + mset (items settled fs) = mset (in_hand (a_in_flight a)) + mset xs
    \<and> a_pending b = [] \<and> a_thread b = a_thread a \<and> a_seen b = a_seen a \<and> items settled fs = items is_overwritten fs
    \<and> accepted fs = [] \<and> (flight_ok (a_in_flight a) \<longrightarrow> flight_ok (a_in_flight b))"
  using assms
proof (induction xs arbitrary: a fs)
  case (Cons x xs)
  obtain c gs where hd: "hand_out_one now x a = (c, gs)" by fastforce
  obtain hs where tl: "hand_out now xs c = (b, hs)" "fs = gs @ hs"
    using Cons.prems hd by (auto split: prod.splits)
  have c: "c = a\<lparr>a_in_flight := AList.update (delivery_id x) (x, now) (a_in_flight a)\<rparr>"
    using hd by (simp add: hand_out_one_def)
  note ih = Cons.IH [OF tl(1)]
  have gs: "mset (in_hand (a_in_flight c)) + mset (items settled gs) = add_mset x (mset (in_hand (a_in_flight a)))"
    "items settled gs = items is_overwritten gs" "accepted gs = []"
    using hd mset_update_new [of "a_in_flight a" "delivery_id x" x now]
      mset_update_old [of "a_in_flight a" "delivery_id x" _ _ x now]
    by (auto simp: hand_out_one_def c split: option.splits)
  have "mset (in_hand (a_in_flight b)) + mset (items settled hs) + mset (items settled gs)
      = add_mset x (mset (in_hand (a_in_flight a))) + mset xs"
    using ih gs(1) by (metis add.assoc add.commute)
  then have "mset (in_hand (a_in_flight b)) + mset (items settled fs) = mset (in_hand (a_in_flight a)) + mset (x # xs)"
    by (simp add: tl(2) ac_simps)
  moreover have "a_pending b = [] \<and> a_thread b = a_thread a \<and> a_seen b = a_seen a" using ih by (simp add: c)
  moreover have "flight_ok (a_in_flight a) \<longrightarrow> flight_ok (a_in_flight b)"
    using ih flight_ok_update by (simp add: c)
  ultimately show ?case using ih gs(2,3) by (simp add: tl(2))
qed auto

lemma hand_out_once:
  assumes "hand_out now xs a = (b, fs)" "flight_ok (a_in_flight a)"
    and "distinct (map delivery_id (xs @ in_hand (a_in_flight a)))"
  shows "items is_overwritten fs = []"
  using assms
proof (induction xs arbitrary: a fs)
  case (Cons x xs)
  obtain c gs hs where st: "hand_out_one now x a = (c, gs)" "hand_out now xs c = (b, hs)" "fs = gs @ hs"
    using Cons.prems by (auto split: prod.splits)
  have c: "a_in_flight c = AList.update (delivery_id x) (x, now) (a_in_flight a)"
    using st by (auto simp: hand_out_one_def)
  have keys: "map fst (a_in_flight a) = map delivery_id (in_hand (a_in_flight a))"
    using Cons.prems(2) by (auto simp: flight_ok_def in_hand_def)
  have "delivery_id x \<notin> set (map fst (a_in_flight a))" unfolding keys using Cons.prems(3) by simp
  then have new: "map_of (a_in_flight a) (delivery_id x) = None" by (simp add: map_of_eq_None_iff)
  have "mset (in_hand (a_in_flight c)) = add_mset x (mset (in_hand (a_in_flight a)))"
    unfolding c using mset_update_new [OF new] .
  then have "mset (xs @ in_hand (a_in_flight c)) = mset (x # xs @ in_hand (a_in_flight a))" by simp
  then have "distinct (map delivery_id (xs @ in_hand (a_in_flight c)))"
    using Cons.prems(3) by (metis append_Cons mset_eq_imp_distinct_iff mset_map)
  with Cons.IH [OF st(2)] flight_ok_update [OF Cons.prems(2)] c
  have "items is_overwritten hs = []" by simp
  then show ?case using st(1,3) new by (auto simp: hand_out_one_def)
qed simp

lemma check_balanced:
  assumes "check_messages now a = (b, fs)" "flight_ok (a_in_flight a)"
  shows "balanced a fs b" "flight_ok (a_in_flight b)" "a_seen b = a_seen a" "accepted fs = []"
    "items settled fs = items is_overwritten fs"
    "distinct (map delivery_id (held a)) \<longrightarrow> items is_overwritten fs = []"
proof -
  let ?r = "requeue now a"
  have h: "hand_out now (a_pending ?r) ?r = (b, fs)" using assms(1) by (simp add: check_messages_def)
  note held = requeue_held [OF assms(2), of now]
  have r: "flight_ok (a_in_flight ?r)" "a_thread ?r = a_thread a" "a_seen ?r = a_seen a"
    using assms(2) by (simp_all add: requeue_eq flight_ok_filter)
  note f = hand_out_held [OF h]
  show "a_seen b = a_seen a" "balanced a fs b" "flight_ok (a_in_flight b)" "accepted fs = []"
    "items settled fs = items is_overwritten fs"
    using f r held by (auto simp: balanced_def held_def writing_def ac_simps)
  show "distinct (map delivery_id (held a)) \<longrightarrow> items is_overwritten fs = []"
  proof
    assume "distinct (map delivery_id (held a))"
    then have "distinct (map delivery_id (held ?r))" using held by (metis mset_eq_imp_distinct_iff mset_map)
    then show "items is_overwritten fs = []" by (intro hand_out_once [OF h r(1)]) (auto simp: held_def)
  qed
qed

lemma ack_balanced:
  assumes "ack_messages ids a = (b, fs)" "flight_ok (a_in_flight a)"
  shows "balanced a fs b \<and> flight_ok (a_in_flight b) \<and> a_seen b = a_seen a \<and> accepted fs = []
    \<and> items is_overwritten fs = [] \<and> items is_dropped fs = []"
  using assms
proof (induction ids arbitrary: a fs)
  case Nil
  then show ?case by (auto simp: balanced_def)
next
  case (Cons i ids)
  show ?case
  proof (cases "map_of (a_in_flight a) i")
    case None
    with Cons show ?thesis by simp
  next
    case (Some xt)
    obtain x t where xt: "xt = (x, t)" by fastforce
    let ?c = "a\<lparr>a_in_flight := AList.delete i (a_in_flight a)\<rparr>"
    obtain gs where st: "ack_messages ids ?c = (b, gs)" "fs = Acked x # gs"
      using Cons.prems(1) Some xt by (auto split: prod.splits)
    have "mset (in_hand (a_in_flight a)) = add_mset x (mset (in_hand (AList.delete i (a_in_flight a))))"
      using mset_delete Some xt Cons.prems(2) by (auto simp: flight_ok_def)
    with Cons.IH [OF st(1)] flight_ok_delete [OF Cons.prems(2)] show ?thesis
      by (auto simp: st(2) balanced_def held_def writing_def)
  qed
qed

lemma write_balanced:
  assumes "a_thread a = Writing ms" "write_pending ok ms a = (b, fs)"
  shows "balanced a fs b" "a_in_flight b = a_in_flight a" "a_seen b = a_seen a" "accepted fs = []"
    "items is_overwritten fs = []" "items is_dropped fs = []"
  using assms by (auto simp: write_pending_def balanced_def held_def writing_def split: if_splits)

lemma drain_balanced:
  "a_thread a = Delivering \<Longrightarrow> balanced a [] (drain_pending a)"
  by (rule balanced_held) (simp add: drain_pending_def held_def writing_def)

lemma start_claude_simps [simp]:
  "a_pending (start_claude st a) = a_pending a" "a_in_flight (start_claude st a) = a_in_flight a"
  "a_seen (start_claude st a) = a_seen a" "a_thread (start_claude st a) = a_thread a"
  by (cases st; simp add: start_claude_def)+

lemma must_start_simps [simp]:
  "a_pending (must_start st a) = a_pending a" "a_in_flight (must_start st a) = a_in_flight a"
  "a_seen (must_start st a) = a_seen a"
  "a_thread (must_start st a) = (if st = Started then a_thread a else Ended)"
  by (simp_all add: must_start_def)

text \<open>The steps that leave the messages where they are.\<close>

definition same_messages :: "agent \<Rightarrow> agent \<Rightarrow> bool" where
  "same_messages a b \<longleftrightarrow> mset (held b) = mset (held a) \<and> a_seen b = a_seen a
     \<and> (flight_ok (a_in_flight a) \<longrightarrow> flight_ok (a_in_flight b))"

lemma same_messages_ops:
  "a_thread a = Delivering \<Longrightarrow> same_messages a (drain_pending a)"
  "a_thread a = At_rest \<Longrightarrow> same_messages a (turn_done a)"
  "a_thread a = At_rest \<Longrightarrow> same_messages a (process_exited st a)"
  "a_thread a = At_rest \<Longrightarrow> same_messages a (watchdog st a)"
  by (auto simp: same_messages_def drain_pending_def turn_done_def process_exited_def watchdog_def
      held_def writing_def Let_def)

lemma same_messages_reap:
  assumes "a_thread a = At_rest" "flight_ok (a_in_flight a)"
  shows "same_messages a (reap now st a)"
proof -
  have "a_thread (requeue now a) = At_rest" using assms by (simp add: requeue_eq)
  then have "mset (held (wake_pending st (requeue now a))) = mset (held (requeue now a))
      \<and> a_seen (wake_pending st (requeue now a)) = a_seen (requeue now a)
      \<and> a_in_flight (wake_pending st (requeue now a)) = a_in_flight (requeue now a)"
    by (auto simp: wake_pending_def held_def writing_def)
  then show ?thesis
    using requeue_held [OF assms(2), of now] assms(2)
    by (auto simp: same_messages_def reap_def requeue_eq flight_ok_filter)
qed

lemma enqueue_balanced:
  assumes "enqueue x st a = (b, fs)" "a_thread a = At_rest"
  shows "balanced a fs b" "a_in_flight b = a_in_flight a" "a_seen b = a_seen a" "accepted fs = [x]"
    "items is_overwritten fs = []" "items is_dropped fs \<noteq> [] \<longrightarrow> MAX_PENDING \<le> length (a_pending a)"
proof -
  obtain y ys where ps: "a_pending a @ [x] = y # ys" by (metis append_is_Nil_conv list.exhaust)
  then have "add_mset x (mset (a_pending a)) = add_mset y (mset ys)"
    by (metis mset.simps(2) mset_append add_mset_add_single mset_single_iff)
  moreover have "length (a_pending a) = length ys" using arg_cong [OF ps, of length] by simp
  ultimately show "balanced a fs b" "a_in_flight b = a_in_flight a" "a_seen b = a_seen a" "accepted fs = [x]"
    "items is_overwritten fs = []" "items is_dropped fs \<noteq> [] \<longrightarrow> MAX_PENDING \<le> length (a_pending a)"
    using ps assms by (auto simp: enqueue_def Let_def balanced_def held_def writing_def split: if_splits)
qed

subsection \<open>The invariant\<close>

definition message_ids :: "item list \<Rightarrow> string list" where
  "message_ids xs = List.map_filter message_id xs"

definition plain_id :: "item \<Rightarrow> bool" where
  "plain_id x \<longleftrightarrow> (\<forall>i. message_id x = Some i \<longrightarrow> \<not> starts_with i ''noid_'')"

fun daemon_ok :: "agent \<times> fate list \<Rightarrow> bool" where
  "daemon_ok (a, os) \<longleftrightarrow> balanced agent_new os a \<and> distinct (map it_no (held a)) \<and> flight_ok (a_in_flight a)
     \<and> (\<forall>x \<in> set (accepted os). plain_id x)
     \<and> (length (accepted os) \<le> MAX_PENDING \<longrightarrow> items is_dropped os = [])
     \<and> (length (accepted os) \<le> MAX_DEDUP_ENTRIES \<longrightarrow>
         distinct (message_ids (accepted os)) \<and> set (a_seen a) = set (message_ids (accepted os))
         \<and> length (a_seen a) \<le> length (accepted os) \<and> items is_overwritten os = [])"

declare daemon_ok.simps [simp del]

lemma message_ids_simps [simp]:
  "message_ids [] = []" "message_ids (xs @ ys) = message_ids xs @ message_ids ys"
  "message_ids (x # xs) = (case message_id x of None \<Rightarrow> [] | Some i \<Rightarrow> [i]) @ message_ids xs"
  by (simp_all add: message_ids_def map_filter_def split: option.split)

lemma show_nat_inject: "show_nat m = show_nat n \<longleftrightarrow> m = n"
  by (metis digits_val_show_nat of_nat_eq_iff option.inject)

lemma noid_not_plain: "message_id y = Some (''noid_'' @ s) \<Longrightarrow> \<not> plain_id y"
  by (auto simp: plain_id_def starts_with_def prefix_def)

lemma message_ids_inj:
  "distinct (message_ids xs) \<Longrightarrow> x \<in> set xs \<Longrightarrow> y \<in> set xs \<Longrightarrow> message_id x = Some i \<Longrightarrow>
   message_id y = Some i \<Longrightarrow> x = y"
proof (induction xs)
  case (Cons z zs)
  have "i \<in> set (message_ids zs)" if "w \<in> set zs" "message_id w = Some i" for w
    using that by (induction zs) auto
  with Cons show ?case by auto
qed simp

lemma held_new [simp]: "held agent_new = []"
  by (simp add: held_def agent_new_def writing_def)

lemma held_accepted: "balanced agent_new os a \<Longrightarrow> set (held a) \<subseteq> set (accepted os)"
  using set_mset_mono [OF balanced_sub [of agent_new os a]]
  by simp

lemma distinct_deliveries:
  assumes "daemon_ok (a, os)" "length (accepted os) \<le> MAX_DEDUP_ENTRIES"
  shows "distinct (map delivery_id (held a))"
proof -
  have ok: "distinct (map it_no (held a))" "set (held a) \<subseteq> set (accepted os)"
    "\<forall>x \<in> set (accepted os). plain_id x" "distinct (message_ids (accepted os))"
    using assms held_accepted by (auto simp: daemon_ok.simps)
  have "x = y" if "x \<in> set (held a)" "y \<in> set (held a)" "delivery_id x = delivery_id y" for x y
  proof (cases "message_id x")
    case None
    with that(3) have "message_id y = Some (''noid_'' @ show_nat (it_no x)) \<or> message_id y = None"
      by (auto simp: delivery_id_def split: option.splits)
    with that(2) ok(2,3) noid_not_plain have "message_id y = None" by blast
    with None that(3) have "it_no x = it_no y" by (simp add: delivery_id_def show_nat_inject)
    with ok(1) that show ?thesis by (auto simp: distinct_map dest: inj_onD)
  next
    case (Some i)
    with that(3) have "message_id x = Some (''noid_'' @ show_nat (it_no y)) \<or> message_id y = Some i"
      by (auto simp: delivery_id_def split: option.splits)
    with that(1) ok(2,3) noid_not_plain have "message_id y = Some i" by blast
    with Some that ok(2,4) show ?thesis by (blast intro: message_ids_inj)
  qed
  with ok(1) show ?thesis by (auto simp: distinct_map inj_on_def)
qed

lemma balanced_trans:
  assumes "balanced a fs b" "balanced b gs c"
  shows "balanced a (fs @ gs) c"
proof -
  have "mset (held a) + mset (accepted (fs @ gs)) = mset (held b) + mset (accepted gs) + mset (items settled fs)"
    using assms(1) by (simp add: balanced_def add.assoc [symmetric])
  also have "\<dots> = mset (held c) + mset (items settled (fs @ gs))"
    using assms(2) by (simp add: balanced_def ac_simps)
  finally show ?thesis by (simp add: balanced_def)
qed

lemma distinct_held:
  "balanced a fs b \<Longrightarrow> distinct (map it_no (held a @ accepted fs)) \<Longrightarrow> distinct (map it_no (held b))"
  by (metis balanced_sub distinct_submset image_mset_subseteq_mono mset_map)

lemma quiet_step:
  assumes "daemon_ok (a, os)" "balanced a fs b" "flight_ok (a_in_flight b)" "a_seen b = a_seen a"
    and "accepted fs = []" "items is_dropped fs = []"
    and "distinct (map delivery_id (held a)) \<longrightarrow> items is_overwritten fs = []"
  shows "daemon_ok (b, os @ fs)"
proof -
  have "distinct (map it_no (held b))"
    using distinct_held [OF assms(2)] assms(1,5) by (simp add: daemon_ok.simps)
  moreover have "length (accepted os) \<le> MAX_DEDUP_ENTRIES \<longrightarrow> items is_overwritten fs = []"
    using distinct_deliveries [OF assms(1)] assms(7) by blast
  ultimately show ?thesis
    using assms balanced_trans [of agent_new os a fs b] by (simp add: daemon_ok.simps)
qed

lemma same_messages_step: "daemon_ok (a, os) \<Longrightarrow> same_messages a b \<Longrightarrow> daemon_ok (b, os)"
  using quiet_step [of a os "[]" b] balanced_held by (simp add: same_messages_def daemon_ok.simps)

lemma enqueue_ok:
  assumes ok: "daemon_ok (a, os)" and en: "enqueue x st (a\<lparr>a_seen := sn\<rparr>) = (b, fs)" and "a_thread a = At_rest"
    and "it_no x \<notin> it_no ` set (held a)" "plain_id x"
    and seen: "length (accepted os) < MAX_DEDUP_ENTRIES \<Longrightarrow> distinct (message_ids (accepted os @ [x]))
      \<and> set sn = set (message_ids (accepted os @ [x])) \<and> length sn \<le> Suc (length (accepted os))"
  shows "daemon_ok (b, os @ fs)"
proof -
  have held: "held (a\<lparr>a_seen := sn\<rparr>) = held a" by (simp add: held_def writing_def)
  note en = enqueue_balanced [OF en, simplified, OF assms(3)]
  have bal: "balanced a fs b" using en(1) by (simp add: balanced_def held)
  have "distinct (map it_no (held b))"
    using distinct_held [OF bal] ok assms(4) en(4) by (simp add: daemon_ok.simps)
  moreover have "items is_dropped fs = []" if "Suc (length (accepted os)) \<le> MAX_PENDING"
  proof -
    have "mset (held a) \<subseteq># mset (accepted os)"
      using ok balanced_sub [of agent_new os a] by (simp add: daemon_ok.simps)
    then have "length (held a) \<le> length (accepted os)" using size_mset_mono by (metis size_mset)
    with that en(6) show ?thesis by (auto simp: held_def)
  qed
  ultimately show ?thesis
    using ok bal en(2-5) seen assms(5) balanced_trans [of agent_new os a fs b]
    by (simp add: daemon_ok.simps)
qed

lemma on_message_ok:
  assumes "daemon_ok (a, os)" "on_message nick x st a = (b, fs)" "a_thread a = At_rest"
    and "it_no x \<notin> it_no ` set (held a)" "plain_id x"
  shows "daemon_ok (b, os @ fs)"
proof -
  consider (own) "b = a" "fs = []"
    | (anon) "message_id x = None" "enqueue x st a = (b, fs)"
    | (again) i where "message_id x = Some i" "i \<in> set (a_seen a)"
        "b = a\<lparr>a_seen := move_to_end i (a_seen a)\<rparr>" "fs = []"
    | (new) i where "message_id x = Some i" "i \<notin> set (a_seen a)"
        "enqueue x st (a\<lparr>a_seen := remember i (a_seen a)\<rparr>) = (b, fs)"
  proof (cases "g_sender (it_msg x) = nick")
    case True
    then show ?thesis using own assms(2) by (simp add: on_message_def)
  next
    case other: False
    show ?thesis
    proof (cases "message_id x")
      case None
      then show ?thesis using anon other assms(2) by (simp add: on_message_def)
    next
      case (Some i)
      then show ?thesis
        using again [of i] new [of i] other assms(2) by (cases "i \<in> set (a_seen a)") (simp_all add: on_message_def)
    qed
  qed
  then show ?thesis
  proof cases
    case own
    with assms(1) show ?thesis by simp
  next
    case anon
    with assms show ?thesis
      by (intro enqueue_ok [where sn = "a_seen a"]) (auto simp: daemon_ok.simps)
  next
    case again
    have "length (filter (\<lambda>j. j \<noteq> i) (a_seen a)) < length (a_seen a)"
      using again(2) by (intro length_filter_less [of i]) auto
    with again assms(1) show ?thesis
      by (auto simp: daemon_ok.simps move_to_end_def balanced_def held_def writing_def)
  next
    case new
    with assms show ?thesis
      by (intro enqueue_ok [where sn = "remember i (a_seen a)"])
         (auto simp: daemon_ok.simps remember_def)
  qed
qed

lemma reap_ok: "daemon_ok (a, os) \<Longrightarrow> a_thread a = At_rest \<Longrightarrow> daemon_ok (reap now st a, os)"
  by (rule same_messages_step, assumption) (simp add: same_messages_reap daemon_ok.simps)

definition plain_event :: "daemon_event \<Rightarrow> bool" where
  "plain_event ev = (case ev of Got_message x st \<Rightarrow> plain_id x | _ \<Rightarrow> True)"

lemma daemon_ok_step:
  assumes "daemon_step nick s ev t" "plain_event ev" "daemon_ok s"
  shows "daemon_ok t"
  using assms
proof (cases rule: daemon_step.cases)
  case (got_message a x st b fs os)
  have "plain_id x" using assms(2) got_message(2) by (simp add: plain_event_def)
  with assms(3) got_message show ?thesis using on_message_ok [of a os nick x st b fs] by blast
next
  case (write_step a ms ok b fs os)
  then have "flight_ok (a_in_flight a)" using assms(3) by (simp add: daemon_ok.simps)
  with write_balanced [OF write_step(4,5)] write_step assms show ?thesis
    by (auto intro!: quiet_step [of a os fs b])
next
  case (check now a b fs os)
  then have "flight_ok (a_in_flight a)" using assms(3) by (simp add: daemon_ok.simps)
  note c = check_balanced [OF check(4) this]
  have "items is_dropped fs = []" using mset_settled [of fs] c(5) by simp
  with c check assms show ?thesis by (auto intro!: quiet_step [of a os fs b])
next
  case (ack ids a b fs os)
  then have "flight_ok (a_in_flight a)" using assms(3) by (simp add: daemon_ok.simps)
  from ack_balanced [OF ack(4) this] ack assms show ?thesis by (auto intro!: quiet_step [of a os fs b])
qed (auto intro: same_messages_step same_messages_ops reap_ok)

definition daemon_starts :: "agent \<times> fate list \<Rightarrow> bool" where
  "daemon_starts s \<longleftrightarrow> s = (agent_new, [])"

interpretation inbox: transition_system daemon_starts "\<lambda>s ev t. daemon_step nick s ev t \<and> plain_event ev" daemon_ok
  for nick
proof
  fix s assume "daemon_starts s"
  then show "daemon_ok s"
    by (simp add: daemon_starts_def daemon_ok.simps balanced_def flight_ok_def)
       (simp add: agent_new_def)
qed (auto intro: daemon_ok_step)

lemma run_daemon:
  assumes "run (daemon_step nick) (agent_new, []) evs s" "\<forall>ev \<in> set evs. plain_event ev"
  shows "daemon_ok s"
  by (rule inbox.reach_inv [OF _ run_with [OF assms]]) (simp add: daemon_starts_def)

subsection \<open>At least once\<close>

lemma hand_out_handed: "hand_out now xs a = (b, fs) \<Longrightarrow> x \<in> set xs \<Longrightarrow> Handed (delivery_id x) x \<in> set fs"
  by (induction xs arbitrary: a fs) (auto simp: hand_out_one_def split: prod.splits)

lemma check_hands_out:
  assumes "flight_ok (a_in_flight a)" "e \<in> set (a_in_flight a)" "expired now e" "check_messages now a = (b, fs)"
  shows "Handed (fst e) (fst (snd e)) \<in> set fs"
proof -
  have "fst (snd e) \<in> set (a_pending (requeue now a))"
    using assms(1-3) by (auto simp: requeue_eq in_hand_def)
  moreover have "fst e = delivery_id (fst (snd e))" using assms(1,2) by (simp add: flight_ok_def)
  ultimately show ?thesis using hand_out_handed assms(4) unfolding check_messages_def by metis
qed

text \<open>C30. Every message the daemon accepts is accounted for: it is held, or was written to the
  agent's stdin, acknowledged, pushed out of a full queue, or replaced in the dict of messages in
  flight by one with its id. Nothing is pushed out of the first 200 messages and nothing replaced among the
  first 10000, where a message id is accepted only once. What is in flight for longer than the timeout
  is handed out again by the next check.\<close>

theorem daemon_accounts:
  assumes "run (daemon_step nick) (agent_new, []) evs (a, os)" and "\<forall>ev \<in> set evs. plain_event ev"
  shows "mset (accepted os) = mset (held a) + mset (items is_written os) + mset (items is_acked os)
      + mset (items is_dropped os) + mset (items is_overwritten os)
    \<and> (length (accepted os) \<le> MAX_PENDING \<longrightarrow> items is_dropped os = [])
    \<and> (length (accepted os) \<le> MAX_DEDUP_ENTRIES \<longrightarrow>
        items is_overwritten os = [] \<and> distinct (message_ids (accepted os)))
    \<and> (\<forall>e \<in> set (a_in_flight a). expired now e \<longrightarrow>
        Handed (fst e) (fst (snd e)) \<in> set (snd (check_messages now a)))"
proof -
  have ok: "daemon_ok (a, os)" by (rule run_daemon [OF assms])
  have "mset (accepted os) = mset (held a) + mset (items settled os)"
    using ok by (simp add: daemon_ok.simps balanced_def)
  moreover have "\<forall>e \<in> set (a_in_flight a). expired now e \<longrightarrow>
      Handed (fst e) (fst (snd e)) \<in> set (snd (check_messages now a))"
    using check_hands_out ok by (metis daemon_ok.simps prod.collapse)
  ultimately show ?thesis using ok by (simp add: mset_settled daemon_ok.simps ac_simps)
qed

text \<open>A reaper that finds an idle agent writes the expired messages to it.\<close>

theorem idle_agent_gets_expired:
  assumes "run (daemon_step nick) (agent_new, []) evs (a, os)" and "\<forall>ev \<in> set evs. plain_event ev"
    and "a_thread a = At_rest" "a_running a" "\<not> a_busy a" and "e \<in> set (a_in_flight a)" "expired now e"
  shows "\<exists>b fs. run (daemon_step nick) (a, os) [Reap now st, Drain, Write True] (b, os @ fs)
    \<and> To_agent (fst (snd e)) \<in> set fs"
proof -
  have fl: "flight_ok (a_in_flight a)" using run_daemon [OF assms(1,2)] by (simp add: daemon_ok.simps)
  let ?r = "requeue now a"
  have r: "a_running ?r" "\<not> a_busy ?r" "fst (snd e) \<in> set (a_pending ?r)"
    using assms(4-7) by (auto simp: requeue_eq [OF fl] in_hand_def)
  then have reap: "reap now st a = ?r\<lparr>a_thread := Delivering\<rparr>"
    using assms(6,7) by (auto simp: reap_def wake_pending_def filter_empty_conv)
  have "a_pending ?r \<noteq> []" using r(3) by auto
  then have "daemon_execs nick [Reap now st, Drain, Write True] (a, os)
      = Some (?r\<lparr>a_pending := [], a_busy := True, a_thread := At_rest\<rparr>, os @ map To_agent (a_pending ?r))"
    using assms(3) r by (simp add: reap drain_pending_def write_pending_def)
  then have "run (daemon_step nick) (a, os) [Reap now st, Drain, Write True]
      (?r\<lparr>a_pending := [], a_busy := True, a_thread := At_rest\<rparr>, os @ map To_agent (a_pending ?r))"
    by (rule daemon_execs_run)
  with r(3) show ?thesis by (intro exI conjI) (assumption, simp)
qed

text \<open>But in the wrong order: \<open>appendleft\<close> turns the expired messages round.\<close>

lemma hand_out_fresh:
  assumes "distinct (map delivery_id xs @ map fst (a_in_flight a))" "hand_out now xs a = (b, fs)"
  shows "a_in_flight b = a_in_flight a @ map (\<lambda>x. (delivery_id x, x, now)) xs \<and> items is_handed fs = xs \<and> a_pending b = []"
  using assms
proof (induction xs arbitrary: a fs)
  case (Cons x xs)
  then have new: "delivery_id x \<notin> fst ` set (a_in_flight a)" by auto
  have up: "AList.update k v fl = fl @ [(k, v)]" if "k \<notin> fst ` set fl" for k v and fl :: "(string \<times> item \<times> int) list"
    using that by (induction fl) auto
  have "map_of (a_in_flight a) (delivery_id x) = None" using new by (simp add: map_of_eq_None_iff)
  with Cons.prems(2) obtain gs where "fs = Handed (delivery_id x) x # gs"
    "hand_out now xs (a\<lparr>a_in_flight := a_in_flight a @ [(delivery_id x, x, now)]\<rparr>) = (b, gs)"
    by (auto simp: hand_out_one_def up [OF new] split: prod.splits)
  with Cons.IH [of "a\<lparr>a_in_flight := a_in_flight a @ [(delivery_id x, x, now)]\<rparr>" gs] Cons.prems(1)
  show ?case by auto
qed auto

theorem redelivery_reverses:
  assumes "a_in_flight a = []" "distinct (map delivery_id (a_pending a))"
    and "check_messages now a = (b, fs)" "check_messages later b = (c, gs)"
    and "now + MESSAGE_VISIBILITY_TIMEOUT < later"
  shows "items is_handed fs = a_pending a \<and> items is_handed gs = rev (a_pending a)"
proof -
  have "requeue now a = a" using assms(1) by (simp add: requeue_def)
  then have b: "a_in_flight b = map (\<lambda>x. (delivery_id x, x, now)) (a_pending a)" "items is_handed fs = a_pending a" "a_pending b = []"
    using hand_out_fresh [of "a_pending a" a now b fs] assms(1-3) by (simp_all add: check_messages_def)
  have fl: "flight_ok (a_in_flight b)" using assms(2) by (simp add: b(1) flight_ok_def comp_def)
  have ex: "filter (expired later) (a_in_flight b) = a_in_flight b" "filter (\<lambda>e. \<not> expired later e) (a_in_flight b) = []"
    using assms(5) by (auto simp: b(1) expired_def filter_id_conv filter_empty_conv)
  have "requeue later b = b\<lparr>a_in_flight := [], a_pending := rev (a_pending a)\<rparr>"
    unfolding requeue_eq [OF fl] ex by (simp add: b in_hand_def comp_def)
  then show ?thesis
    using hand_out_fresh [of "rev (a_pending a)" "requeue later b" later c gs] assms(2,4) b(2)
    by (simp add: check_messages_def rev_map [symmetric])
qed

subsection \<open>The ids of the server's lines\<close>

text \<open>\<open>msg_\<close> and a UUID.\<close>

definition server_msg_id :: "string \<Rightarrow> bool" where
  "server_msg_id i \<longleftrightarrow> starts_with i ''msg_'' \<and> (\<forall>c \<in> set i. id_char c \<and> c \<noteq> CHR 0x5C)"

lemma search_skip: "CHR ''m'' \<notin> set u \<Longrightarrow> search_msg_id (u @ v) = search_msg_id v"
  by (induction u) (auto simp: starts_with_def)

lemma search_hit: "takeWhile id_char w \<noteq> [] \<Longrightarrow> search_msg_id (''msg-id='' @ w) = Some (takeWhile id_char w)"
  by (simp add: starts_with_def)

lemma id_char_escape: "id_char c \<and> c \<noteq> CHR 0x5C \<Longrightarrow> escape_char c = [c]"
proof -
  have "\<not> id_char (CHR '';'')" "\<not> id_char (CHR '' '')" "\<not> id_char (CHR 0x0D)" "\<not> id_char (CHR 0x0A)"
    by (simp_all add: id_char_def py_whitespace_def is_whitespace_def)
  moreover assume "id_char c \<and> c \<noteq> CHR 0x5C"
  ultimately have "c \<noteq> CHR '';''" "c \<noteq> CHR '' ''" "c \<noteq> CHR 0x0D" "c \<noteq> CHR 0x0A" "c \<noteq> CHR 0x5C"
    by blast+
  then show "escape_char c = [c]" by (simp add: escape_char_def)
qed

lemma escape_plain: "\<forall>c \<in> set s. id_char c \<and> c \<noteq> CHR 0x5C \<Longrightarrow> escape_tag_value s = s"
  by (induction s) (simp_all add: escape_tag_value_def id_char_escape)

lemma show_int_chars: "c \<in> set (show_int n) \<Longrightarrow> is_digit c \<or> c = CHR ''-''"
  using show_nat_digits by (auto simp: show_int_def split: if_splits)

lemma search_tags:
  assumes "server_msg_id i" "tags \<noteq> []"
  shows "search_msg_id (format_message_tags ((''seq'', show_int n) # (''msg-id'', i) # tags) @ s) = Some i"
proof -
  have chars: "\<forall>c \<in> set (show_int n). id_char c \<and> c \<noteq> CHR 0x5C \<and> c \<noteq> CHR ''m''"
  proof
    fix c assume "c \<in> set (show_int n)"
    then consider "is_digit c" | "c = CHR ''-''" using show_int_chars by blast
    then show "id_char c \<and> c \<noteq> CHR 0x5C \<and> c \<noteq> CHR ''m''"
    proof cases
      case 1
      have "\<not> is_digit (CHR '';'')" "\<not> is_digit (CHR 0x5C)" "\<not> is_digit (CHR ''m'')" by (simp_all add: is_digit_def)
      with 1 digit_not_ws [of c] show ?thesis by (auto simp: id_char_def)
    qed (simp add: id_char_def py_whitespace_def is_whitespace_def)
  qed
  obtain r where line: "format_message_tags ((''seq'', show_int n) # (''msg-id'', i) # tags) @ s
      = (''@seq='' @ show_int n @ '';'') @ ''msg-id='' @ i @ CHR '';'' # r"
    using assms chars
    by (cases tags) (auto simp: format_message_tags_def format_tag_def join_Cons escape_plain server_msg_id_def)
  have "\<not> id_char (CHR '';'')" by (simp add: id_char_def)
  then have tw: "takeWhile id_char (i @ CHR '';'' # r) = i"
    using assms(1) by (simp add: takeWhile_append2 server_msg_id_def)
  have "i \<noteq> []" using assms(1) by (cases i) (simp_all add: server_msg_id_def starts_with_def)
  then have "search_msg_id (''msg-id='' @ i @ CHR '';'' # r) = Some i"
    using search_hit [of "i @ CHR '';'' # r", unfolded tw] by blast
  moreover have "CHR ''m'' \<notin> set (''@seq='' @ show_int n @ '';'')" using chars by auto
  ultimately show ?thesis unfolding line by (metis search_skip)
qed

theorem server_line_id:
  assumes "server_msg_id (sm_msg_id m)"
  shows "search_msg_id (message_line p ch body m) = Some (sm_msg_id m)"
    and "search_msg_id (replay_line d m) = Some (sm_msg_id m)"
    and "search_msg_id (task_event_line t action status actor body m) = Some (sm_msg_id m)"
  unfolding message_line_tags replay_line_tags task_event_line_tags task_event_tags_def append_Cons append_Nil
  by (rule search_tags [OF assms], simp)+

lemma server_line_plain: "message_id x = Some i \<Longrightarrow> server_msg_id i \<Longrightarrow> plain_id x"
  by (auto simp: plain_id_def server_msg_id_def starts_with_def prefix_def)

text \<open>What was delivered live and is replayed on a reconnect is accepted once.\<close>

theorem live_and_replay_once:
  assumes "run (daemon_step nick) (agent_new, []) evs (a, os)" and "\<forall>ev \<in> set evs. plain_event ev"
    and "length (accepted os) \<le> MAX_DEDUP_ENTRIES" and "server_msg_id (sm_msg_id m)"
    and "x \<in> set (accepted os)" "g_raw (it_msg x) = message_line p ch body m"
    and "y \<in> set (accepted os)" "g_raw (it_msg y) = replay_line d m"
  shows "x = y"
proof -
  have "distinct (message_ids (accepted os))" using daemon_accounts [OF assms(1,2)] assms(3) by blast
  moreover have "message_id x = Some (sm_msg_id m)" "message_id y = Some (sm_msg_id m)"
    using server_line_id [OF assms(4)] assms(6,8) by (simp_all add: message_id_def)
  ultimately show ?thesis using message_ids_inj assms(5,7) by blast
qed

subsection \<open>A run\<close>

definition demo_item :: "nat \<Rightarrow> string \<Rightarrow> item" where
  "demo_item n raw = \<lparr>it_no = n, it_msg = \<lparr>g_seq = None, g_channel = ''#w'', g_sender = ''b'', g_content = ''hi'',
     g_raw = raw, g_tags = Map.empty, g_is_replay = False\<rparr>\<rparr>"

definition demo_x :: item where
  "demo_x = demo_item 7 ''@seq=1;msg-id=msg_1;time=5 :b PRIVMSG #w :hi''"

definition demo_y :: item where
  "demo_y = demo_item 8 '':aircd NOTICE a :hi''"

definition demo_z :: item where
  "demo_z = demo_item 9 ''@seq=1;msg-id=msg_1;time=5;replay=1 :b PRIVMSG #w :hi''"

definition demo_events :: "daemon_event list" where
  "demo_events = [Got_message demo_x Started, Got_message demo_y Started, Check 0,
     Got_message demo_z Started, Ack [''noid_8''], Turn_done]"

definition demo_agent :: agent where
  "demo_agent = \<lparr>a_running = True, a_busy = False, a_pending = [], a_in_flight = [(''msg_1'', demo_x, 0)],
     a_seen = [''msg_1''], a_thread = At_rest\<rparr>"

definition demo_fates :: "fate list" where
  "demo_fates = [Accepted demo_x, Accepted demo_y, Handed ''msg_1'' demo_x, Handed ''noid_8'' demo_y, Acked demo_y]"

lemma demo_ids:
  "message_id demo_x = Some ''msg_1''" "message_id demo_y = None" "message_id demo_z = Some ''msg_1''"
  "delivery_id demo_x = ''msg_1''" "delivery_id demo_y = ''noid_8''"
  by code_simp+

lemma demo_fields:
  "it_no demo_x = 7" "it_no demo_y = 8" "it_no demo_z = 9"
  "g_sender (it_msg demo_x) = ''b''" "g_sender (it_msg demo_y) = ''b''" "g_sender (it_msg demo_z) = ''b''"
  by (simp_all add: demo_x_def demo_y_def demo_z_def demo_item_def)

lemma demo_run: "daemon_execs ''a'' demo_events (agent_new, []) = Some (demo_agent, demo_fates)"
  by (simp add: demo_events_def agent_new_def demo_agent_def demo_fates_def on_message_def enqueue_def
      must_start_def start_claude_def remember_def move_to_end_def check_messages_def requeue_def
      hand_out_one_def turn_done_def held_def writing_def demo_ids demo_fields
      MAX_PENDING_def MAX_DEDUP_ENTRIES_def)

lemma daemon_accounts_witness:
  "mset (accepted demo_fates) = {#demo_x, demo_y#} \<and> held demo_agent = [demo_x]
    \<and> mset (accepted demo_fates) = mset (held demo_agent) + mset (items is_written demo_fates)
      + mset (items is_acked demo_fates) + mset (items is_dropped demo_fates) + mset (items is_overwritten demo_fates)
    \<and> Handed ''msg_1'' demo_x \<in> set (snd (check_messages 30001 demo_agent))"
proof -
  have plain: "\<forall>ev \<in> set demo_events. plain_event ev"
    by (simp add: demo_events_def plain_event_def plain_id_def demo_ids starts_with_def)
  have "(''msg_1'', demo_x, 0) \<in> set (a_in_flight demo_agent)" "expired 30001 (''msg_1'', demo_x, 0)"
    by (simp_all add: demo_agent_def expired_def MESSAGE_VISIBILITY_TIMEOUT_def)
  then show ?thesis
    using daemon_accounts [OF daemon_execs_run [OF demo_run] plain]
    by (auto simp: demo_agent_def demo_fates_def held_def writing_def)
qed

end
