(* ===== verification/Requests.thy ===== *)
theory Requests
  imports Inbox Demo
begin

section \<open>The daemon's requests to the server (daemon.py)\<close>

text \<open>
  The tools of the agent that need an answer (history, task list, claim, done) register a
  \<open>SyncRequest\<close>, send a command and wait for lines that \<open>_irc_reader_loop\<close> recognises. A message it
  recognises is not delivered to the agent. The last part composes a claim with the server's handler.
\<close>

subsection \<open>The patterns of \<open>re.match\<close>\<close>

text \<open>
  In these patterns a run of non-spaces is followed by white space, and white space by a
  non-space, so a greedy group never has to give a character back.
\<close>

definition literal :: "string \<Rightarrow> string \<Rightarrow> string option" where
  "literal k s = (if starts_with s k then Some (drop (length k) s) else None)"

definition spaces :: "string \<Rightarrow> string option" where
  "spaces s = (if s \<noteq> [] \<and> py_whitespace (hd s) then Some (dropWhile py_whitespace s) else None)"

definition word :: "string \<Rightarrow> (string \<times> string) option" where
  "word s = (let w = takeWhile (\<lambda>c. \<not> py_whitespace c) s in
     if w = [] then None else Some (w, drop (length w) s))"

text \<open>\<open>\s+key(\S+)\<close>\<close>

definition field :: "string \<Rightarrow> string \<Rightarrow> (string \<times> string) option" where
  "field k s = Option.bind (spaces s) (\<lambda>s. Option.bind (literal k s) word)"

text \<open>\<open>TASK\s+(\S+)\s+channel=(\S+)\s+status=(\S+)\s+claimed_by=(\S+)\s+lease_expires_at=(\S+)\s+title=:(.*)\<close>\<close>

definition match_task :: "string \<Rightarrow> (string \<times> string \<times> string \<times> string \<times> string) option" where
  "match_task s =
     Option.bind (literal ''TASK'' s) (\<lambda>s.
     Option.bind (field '''' s) (\<lambda>(tid, s).
     Option.bind (field ''channel='' s) (\<lambda>(channel, s).
     Option.bind (field ''status='' s) (\<lambda>(status, s).
     Option.bind (field ''claimed_by='' s) (\<lambda>(claimed_by, s).
     Option.bind (field ''lease_expires_at='' s) (\<lambda>(_, s).
     Option.bind (spaces s) (\<lambda>s.
     Option.bind (literal ''title=:'' s) (\<lambda>s.
       Some (tid, channel, status, claimed_by, takeWhile (\<lambda>c. c \<noteq> CHR 0x0A) s)))))))))"

text \<open>One of two literals.\<close>

definition either :: "string \<times> string \<Rightarrow> string \<times> string \<Rightarrow> string \<Rightarrow> (string \<times> string) option" where
  "either a b s =
     (case literal (fst a) s of
        Some r \<Rightarrow> Some (snd a, r)
      | None \<Rightarrow> map_option (\<lambda>r. (snd b, r)) (literal (fst b) s))"

text \<open>\<open>TASK\s+(CLAIM|DONE)\s+(\S+)\s+failed[\s:]\<close>, the action and the task.\<close>

definition match_failed :: "string \<Rightarrow> (string \<times> string) option" where
  "match_failed s =
     Option.bind (literal ''TASK'' s) (\<lambda>s.
     Option.bind (spaces s) (\<lambda>s.
     Option.bind (either (''CLAIM'', ''claim'') (''DONE'', ''done'') s) (\<lambda>(action, s).
     Option.bind (field '''' s) (\<lambda>(tid, s).
     Option.bind (spaces s) (\<lambda>s.
     Option.bind (literal ''failed'' s) (\<lambda>s.
       if s \<noteq> [] \<and> (py_whitespace (hd s) \<or> hd s = CHR '':'') then Some (action, tid) else None))))))"

text \<open>\<open>TASK\s+(\S+)\s+(claimed|completed)\s+by\s+(\S+?):\<close>, the action, the task and who.\<close>

definition match_success :: "string \<Rightarrow> (string \<times> string \<times> string) option" where
  "match_success s =
     Option.bind (literal ''TASK'' s) (\<lambda>s.
     Option.bind (field '''' s) (\<lambda>(tid, s).
     Option.bind (spaces s) (\<lambda>s.
     Option.bind (either (''claimed'', ''claim'') (''completed'', ''done'') s) (\<lambda>(action, s).
     Option.bind (spaces s) (\<lambda>s.
     Option.bind (literal ''by'' s) (\<lambda>s.
     Option.bind (field '''' s) (\<lambda>(w, _).
       if CHR '':'' \<in> set (tl w) then Some (action, tid, hd w # takeWhile (\<lambda>c. c \<noteq> CHR '':'') (tl w))
       else None)))))))"

subsection \<open>Requests and answers\<close>

datatype answer =
    Replayed message
  | Listed string string string string string
  | Refused string
  | Confirmed string string

text \<open>\<open>SyncRequest\<close>; its event is set by \<open>_finalize_sync_request\<close> or by the answer itself.\<close>

record sync_request =
  rq_responses :: "answer list"
  rq_done :: bool
  rq_event :: bool

definition sync_request_new :: sync_request where
  "sync_request_new = \<lparr>rq_responses = [], rq_done = False, rq_event = False\<rparr>"

text \<open>The three dicts, in their order.\<close>

record requests =
  history_requests :: "(string \<times> sync_request) list"
  list_requests :: "(string \<times> sync_request) list"
  action_requests :: "(string \<times> sync_request) list"


text \<open>One more response to a request that collects several.\<close>

definition collect :: "answer \<Rightarrow> sync_request \<Rightarrow> sync_request" where
  "collect x q = q\<lparr>rq_responses := rq_responses q @ [x], rq_done := True\<rparr>"

text \<open>The response that settles a request.\<close>

definition settle :: "string \<Rightarrow> answer \<Rightarrow> requests \<Rightarrow> requests" where
  "settle key x r = r\<lparr>action_requests := AList.map_entry key
     (\<lambda>q. q\<lparr>rq_responses := rq_responses q @ [x], rq_event := True\<rparr>) (action_requests r)\<rparr>"

definition action_key :: "string \<Rightarrow> string \<Rightarrow> string" where
  "action_key action tid = action @ '':'' @ tid"

subsection \<open>Recognising an answer\<close>

definition from_server :: "message \<Rightarrow> bool" where
  "from_server g \<longleftrightarrow> g_sender g = ''aircd'' \<or> g_sender g = ''server''"

fun contains :: "string \<Rightarrow> string \<Rightarrow> bool" where
  "contains k [] = (k = [])"
| "contains k (c # cs) = (starts_with (c # cs) k \<or> contains k cs)"

definition tag :: "message \<Rightarrow> string \<Rightarrow> string" where
  "tag g k = (case g_tags g k of None \<Rightarrow> [] | Some v \<Rightarrow> v)"

text \<open>\<open>Some\<close> is \<open>continue\<close>: the message goes no further.\<close>

definition route_history :: "message \<Rightarrow> requests \<Rightarrow> requests option" where
  "route_history g r =
     (if g_is_replay g \<and> g_channel g \<in> set (map fst (history_requests r))
      then Some (r\<lparr>history_requests := AList.map_entry (g_channel g) (collect (Replayed g)) (history_requests r)\<rparr>)
      else None)"

definition route_list :: "message \<Rightarrow> requests \<Rightarrow> requests option" where
  "route_list g r =
     (if list_requests r \<noteq> [] \<and> from_server g \<and> contains ''TASK '' (g_content g)
      then Some (case match_task (g_content g) of
          None \<Rightarrow> r
        | Some (tid, channel, status, claimed_by, title) \<Rightarrow>
            r\<lparr>list_requests := AList.map_entry channel
              (collect (Listed tid channel status claimed_by title)) (list_requests r)\<rparr>)
      else None)"

definition route_tags :: "string \<Rightarrow> message \<Rightarrow> requests \<Rightarrow> requests option" where
  "route_tags nick g r =
     (let action = tag g ''task-action''; key = action_key action (tag g ''task-id''); status = tag g ''task-status'' in
      if key \<notin> set (map fst (action_requests r)) then None
      else if status = ''failed'' then Some (settle key (Refused (g_content g)) r)
      else if status = ''success'' \<and> tag g ''task-actor'' = nick
      then Some (settle key (Confirmed (if action = ''claim'' then ''claimed'' else ''done'') (g_content g)) r)
      else None)"

definition route_body :: "string \<Rightarrow> message \<Rightarrow> requests \<Rightarrow> requests option" where
  "route_body nick g r =
     (case Option.bind (match_failed (g_content g)) (\<lambda>(action, tid).
         if action_key action tid \<in> set (map fst (action_requests r))
         then Some (settle (action_key action tid) (Refused (g_content g)) r) else None) of
        Some r' \<Rightarrow> Some r'
      | None \<Rightarrow> Option.bind (match_success (g_content g)) (\<lambda>(action, tid, who).
         if action_key action tid \<in> set (map fst (action_requests r)) \<and> who = nick
         then Some (settle (action_key action tid)
           (Confirmed (if action = ''claim'' then ''claimed'' else ''done'') (g_content g)) r) else None))"

definition route_action :: "string \<Rightarrow> message \<Rightarrow> requests \<Rightarrow> requests option" where
  "route_action nick g r =
     (if action_requests r \<noteq> [] \<and> from_server g
      then (if tag g ''task-id'' \<noteq> [] \<and> tag g ''task-action'' \<noteq> [] \<and> tag g ''task-status'' \<noteq> []
        then route_tags nick g r else route_body nick g r)
      else None)"

definition route :: "string \<Rightarrow> message \<Rightarrow> requests \<Rightarrow> requests option" where
  "route nick g r =
     (case route_history g r of Some r' \<Rightarrow> Some r' | None \<Rightarrow>
     (case route_list g r of Some r' \<Rightarrow> Some r' | None \<Rightarrow> route_action nick g r))"

subsection \<open>\<open>_request_task_action\<close>\<close>




text \<open>\<open>_request_history\<close> and \<open>_request_task_list\<close> return what was collected when the event is set
  or the time is over.\<close>

definition begin_history :: "string \<Rightarrow> requests \<Rightarrow> requests option" where
  "begin_history channel r =
     (if channel \<in> set (map fst (history_requests r)) then None
      else Some (r\<lparr>history_requests := history_requests r @ [(channel, sync_request_new)]\<rparr>))"

definition end_history :: "string \<Rightarrow> requests \<Rightarrow> answer list \<times> requests" where
  "end_history channel r =
     ((case map_of (history_requests r) channel of None \<Rightarrow> [] | Some q \<Rightarrow> rq_responses q),
      r\<lparr>history_requests := AList.delete channel (history_requests r)\<rparr>)"

definition begin_list :: "string \<Rightarrow> requests \<Rightarrow> requests option" where
  "begin_list channel r =
     (if channel \<in> set (map fst (list_requests r)) then None
      else Some (r\<lparr>list_requests := list_requests r @ [(channel, sync_request_new)]\<rparr>))"

definition end_list :: "string \<Rightarrow> requests \<Rightarrow> answer list \<times> requests" where
  "end_list channel r =
     ((case map_of (list_requests r) channel of None \<Rightarrow> [] | Some q \<Rightarrow> rq_responses q),
      r\<lparr>list_requests := AList.delete channel (list_requests r)\<rparr>)"

text \<open>The whole body of \<open>_irc_reader_loop\<close>.\<close>

definition reader_body ::
    "string \<Rightarrow> item \<Rightarrow> start \<Rightarrow> requests \<Rightarrow> agent \<Rightarrow> requests \<times> agent \<times> fate list" where
  "reader_body nick x st r a =
     (case route nick (it_msg x) r of
        Some r' \<Rightarrow> (r', a, [])
      | None \<Rightarrow> (r, on_message nick x st a))"


subsection \<open>The server's lines\<close>


lemma read_success:
  assumes "plain_channel (t_channel t)"
  shows "\<exists>g. read_event (task_event_line t action status actor (event_body p op t) m) = Some (Deliver g)
    \<and> g_sender g = ''aircd'' \<and> \<not> g_is_replay g \<and> g_content g = event_body p op t
    \<and> tag g ''task-id'' = t_id t \<and> tag g ''task-action'' = action \<and> tag g ''task-status'' = status
    \<and> tag g ''task-actor'' = actor"
proof -
  have "event_body p op t \<noteq> []" by (simp add: event_body_def)
  from read_task_event_line [OF assms this, of action status actor m] show ?thesis by (auto simp: tag_def)
qed

subsection \<open>What the tool is told\<close>




subsection \<open>A claim through the daemon\<close>




text \<open>While a task list is asked for, the announcements of the server are lost.\<close>

lemma contains_prefix: "starts_with s k \<Longrightarrow> contains k s"
  by (cases s) (auto simp: starts_with_def)

lemma word_split: "py_word w \<Longrightarrow> word (w @ CHR '' '' # s) = Some (w, CHR '' '' # s)"
  by (auto simp: word_def py_word_def Let_def takeWhile_tail)

lemma no_task_listing:
  assumes "py_word (t_id t)"
  shows "match_task (event_body p op t) = None"
proof -
  have first: "\<not> py_whitespace (hd (t_id t @ u))" "t_id t \<noteq> []" for u
    using assms by (cases "t_id t"; simp add: py_word_def)+
  have "spaces (CHR '' '' # t_id t @ u) = Some (t_id t @ u)" for u
    using first by (simp add: spaces_def) (cases "t_id t"; simp)
  then have tid: "field '''' (CHR '' '' # t_id t @ CHR '' '' # u) = Some (t_id t, CHR '' '' # u)" for u
    using word_split [OF assms] by (simp add: field_def literal_def starts_with_def)
  have "field ''channel='' (CHR '' '' # past_tense op @ u) = None" for u
    by (cases op) (simp_all add: field_def spaces_def literal_def starts_with_def py_whitespace_def is_whitespace_def)
  then show ?thesis
    using tid by (simp add: match_task_def event_body_def literal_def starts_with_def)
qed

theorem list_swallows_events:
  assumes "list_requests r \<noteq> []" "plain_channel (t_channel t)" "py_word (t_id t)"
  shows "\<exists>g. read_event (task_event_line t action status actor (event_body p op t) m) = Some (Deliver g)
    \<and> (\<forall>x st a. it_msg x = g \<longrightarrow> reader_body nick x st r a = (r, a, []))"
proof -
  obtain g where g: "read_event (task_event_line t action status actor (event_body p op t) m) = Some (Deliver g)"
    "g_sender g = ''aircd''" "\<not> g_is_replay g" "g_content g = event_body p op t"
    using read_success [OF assms(2)] by metis
  have "contains ''TASK '' (g_content g)" by (intro contains_prefix) (simp add: g(4) event_body_def starts_with_def)
  then have "route nick g r = Some r"
    using g assms(1) no_task_listing [OF assms(3)]
    by (simp add: route_def route_history_def route_list_def from_server_def)
  with g(1) show ?thesis by (auto simp: reader_body_def)
qed


end
