(* ===== verification/Reconnect.thy ===== *)
theory Reconnect
  imports Handshake
begin

section \<open>The Python client over several connections (client.py)\<close>

text \<open>
  \<open>_reader_loop\<close> on a connection, its back-off when the connection is lost, and the connections
  after it; and the client's own state, \<open>_ConnectionState\<close>, which \<open>join\<close> and \<open>part\<close> change. What an
  attempt to connect comes to is an argument: theory Handshake shows what the server makes of one.
\<close>

subsection \<open>The client's state\<close>

record client_state =
  cl_registered :: bool
  cl_nick :: "string option"
  cl_channels :: "string list" \<comment> \<open>a set\<close>
  cl_last_seen :: "string \<rightharpoonup> int"

definition client_new :: client_state where
  "client_new = \<lparr>cl_registered = False, cl_nick = None, cl_channels = [], cl_last_seen = Map.empty\<rparr>"

definition client_join :: "string \<Rightarrow> client_state \<Rightarrow> client_state \<times> string list" where
  "client_join ch s = (s\<lparr>cl_channels := List.insert ch (cl_channels s)\<rparr>, [client_line (Join ch)])"

definition client_part :: "string \<Rightarrow> client_state \<Rightarrow> client_state \<times> string list" where
  "client_part ch s = (s\<lparr>cl_channels := removeAll ch (cl_channels s),
     cl_last_seen := (cl_last_seen s)(ch := None)\<rparr>, [client_line (Part ch)])"

text \<open>
  \<open>_do_connect\<close> on a connection that was opened: the state, and with a welcome the lines it sends
  and what the reader has before it. The iteration order of the set is the list's.
\<close>

definition do_connect ::
    "nat \<Rightarrow> string \<Rightarrow> string \<Rightarrow> string \<Rightarrow> client_state \<Rightarrow> client_state \<times> (string list \<times> string) option" where
  "do_connect limit token nick stream s =
     (case await_welcome limit stream of
        (pongs, Welcomed k rest) \<Rightarrow>
          (s\<lparr>cl_registered := True, cl_nick := (case k of None \<Rightarrow> cl_nick s | Some _ \<Rightarrow> k)\<rparr>,
           Some (hello_lines token nick @ pongs @ rejoin_lines (cl_channels s), rest))
      | _ \<Rightarrow> (s\<lparr>cl_registered := False\<rparr>, None))"

text \<open>What the reader loop keeps of the messages it delivers.\<close>

definition note_event :: "client_event \<Rightarrow> client_state \<Rightarrow> client_state" where
  "note_event e s = (case e of Deliver g \<Rightarrow> s\<lparr>cl_last_seen := track_seen g (cl_last_seen s)\<rparr> | _ \<Rightarrow> s)"

subsection \<open>The back-off\<close>

text \<open>In milliseconds; the defaults of \<open>__init__\<close>.\<close>

definition RECONNECT_DELAY :: nat where
  "RECONNECT_DELAY = 2000"

definition MAX_RECONNECT_DELAY :: nat where
  "MAX_RECONNECT_DELAY = 60000"

text \<open>
  An attempt: \<open>open_connection\<close> raised, so the old reader stays, at its end; the handshake raised,
  so the loop goes on with what the new connection still sends; or a new reader task has taken over.
\<close>

datatype attempt = Unreachable | Turned_away string | Connected string

definition next_delay :: "nat \<Rightarrow> nat" where
  "next_delay delay = min (2 * delay) MAX_RECONNECT_DELAY"

text \<open>
  The reader tasks from a stream on, with the attempts that follow: what they deliver, how long
  they sleep before each attempt, and whether they end with an exception. A task that outlives the
  attempts given is asleep, or has returned if \<open>auto_reconnect\<close> is off.
\<close>

fun reading :: "bool \<Rightarrow> nat \<Rightarrow> nat \<Rightarrow> string \<Rightarrow> attempt list \<Rightarrow> client_event list \<times> nat list \<times> bool" where
  "reading auto limit delay s [] =
     (case reader_loop limit s of (es, e) \<Rightarrow> (es, [], e = Crashed))"
| "reading auto limit delay s (a # attempts) =
     (case reader_loop limit s of
        (es, Crashed) \<Rightarrow> (es, [], True)
      | (es, Lost) \<Rightarrow>
          (if \<not> auto then (es, [], False)
           else (let d = (if es = [] then delay else RECONNECT_DELAY) in
             (case (case a of
                  Unreachable \<Rightarrow> reading auto limit (next_delay d) [] attempts
                | Turned_away rest \<Rightarrow> reading auto limit (next_delay d) rest attempts
                | Connected rest \<Rightarrow> reading auto limit RECONNECT_DELAY rest attempts) of
                (fs, ws, dead) \<Rightarrow> (es @ fs, d # ws, dead)))))"

subsection \<open>Lemmas\<close>

lemma delay_bound: "RECONNECT_DELAY \<le> MAX_RECONNECT_DELAY" "next_delay d \<le> MAX_RECONNECT_DELAY"
  by (simp_all add: RECONNECT_DELAY_def MAX_RECONNECT_DELAY_def next_delay_def)

text \<open>No sleep is longer than a minute.\<close>

theorem sleeps_bounded:
  "delay \<le> MAX_RECONNECT_DELAY \<Longrightarrow> \<forall>w \<in> set (fst (snd (reading auto limit delay s attempts))). w \<le> MAX_RECONNECT_DELAY"
proof (induction auto limit delay s attempts rule: reading.induct)
  case (2 auto limit delay s a attempts)
  obtain es e where r: "reader_loop limit s = (es, e)" by fastforce
  show ?case
  proof (cases "e = Lost \<and> auto")
    case True
    let ?d = "if es = [] then delay else RECONNECT_DELAY"
    have d: "?d \<le> MAX_RECONNECT_DELAY" using 2(4) delay_bound by simp
    show ?thesis
    proof (cases a)
      case Unreachable
      with 2(1) [OF r [symmetric], of ?d] True r d delay_bound show ?thesis by (auto split: prod.splits)
    next
      case (Turned_away rest)
      with 2(2) [OF r [symmetric], of ?d] True r d delay_bound show ?thesis by (auto split: prod.splits)
    next
      case (Connected rest)
      with 2(3) [OF r [symmetric], of ?d] True r d delay_bound show ?thesis by (auto split: prod.splits)
    qed
  next
    case False
    then show ?thesis using r by (cases e) auto
  qed
qed (auto split: prod.splits)

text \<open>While the server is down the sleeps double up to the minute, nothing is delivered, and the
  task lives on.\<close>

lemma unreachable:
  "reading True limit delay [] (replicate k Unreachable @ attempts) =
     (case reading True limit ((next_delay ^^ k) delay) [] attempts of
        (es, ws, dead) \<Rightarrow> (es, map (\<lambda>i. (next_delay ^^ i) delay) [0..<k] @ ws, dead))"
proof (induction k arbitrary: delay)
  case (Suc k)
  have up: "[0..<Suc k] = 0 # map Suc [0..<k]" by (simp add: map_Suc_upt upt_conv_Cons)
  have shift: "(next_delay ^^ i) (next_delay delay) = (next_delay ^^ Suc i) delay" for i
    by (simp add: funpow_swap1)
  show ?case
    unfolding up using Suc.IH [of "next_delay delay"]
    by (simp add: reader_loop_end shift split: prod.splits)
qed (simp split: prod.splits)

lemma next_delays: "d \<le> MAX_RECONNECT_DELAY \<Longrightarrow> (next_delay ^^ i) d = min (2 ^ i * d) MAX_RECONNECT_DELAY"
  by (induction i) (auto simp: next_delay_def min_def)

text \<open>A client whose connection is lost and whose server is away for \<open>k\<close> attempts delivers what the
  old connection brought, then what the new one brings, after \<open>k + 1\<close> sleeps of 2, 4, 8, ... seconds.\<close>

theorem reconnects_after_outage:
  assumes "reader_loop limit s = (es, Lost)" "reader_loop limit rest = (fs, Lost)" "es \<noteq> []"
  shows "reading True limit delay s (replicate k Unreachable @ [Connected rest])
    = (es @ fs, map (\<lambda>i. min (2 ^ i * RECONNECT_DELAY) MAX_RECONNECT_DELAY) [0..<Suc k], False)"
proof (cases k)
  case 0
  with assms show ?thesis by (simp add: delay_bound min_absorb1)
next
  case (Suc j)
  let ?f = "\<lambda>i. (next_delay ^^ i) RECONNECT_DELAY"
  have shift: "(next_delay ^^ i) (next_delay RECONNECT_DELAY) = ?f (Suc i)" for i by (simp add: funpow_swap1)
  have "reading True limit (next_delay RECONNECT_DELAY) [] (replicate j Unreachable @ [Connected rest])
      = (fs, map (\<lambda>i. ?f (Suc i)) [0..<j] @ [?f (Suc j)], False)"
    unfolding unreachable shift by (simp add: reader_loop_end assms(2))
  then have "reading True limit delay s (replicate k Unreachable @ [Connected rest])
      = (es @ fs, ?f 0 # map (\<lambda>i. ?f (Suc i)) [0..<j] @ [?f (Suc j)], False)"
    using assms(1,3) by (simp add: Suc)
  also have "?f 0 # map (\<lambda>i. ?f (Suc i)) [0..<j] @ [?f (Suc j)] = map ?f [0..<Suc k]"
  proof -
    have e: "[0..<Suc k] = 0 # map Suc [0..<Suc j]" by (simp only: Suc map_Suc_upt) (simp add: upt_conv_Cons)
    show ?thesis unfolding e by simp
  qed
  finally show ?thesis by (simp only: next_delays [OF delay_bound(1)])
qed

end
