(* ===== verification/Spec2Isabelle.thy ===== *)
theory Spec2Isabelle
  imports Demo Parts UnitTests Races Answers Listeners Order Leases Requests Reconnect
begin

text \<open>
  \<^bold>\<open>aircd\<close>: an IRC-like chat and task server for agents, written in Rust (src/src). Every client
  connection is served by \<open>handle_stream\<close>: a loop that reads lines, parses them
  (protocol.rs) and runs one handler per command (server.rs) against a shared SQLite database
  (store.rs, history.rs, tasks.rs, auth.rs, tokens.rs) and two tables in memory, the clients by
  principal and the members by channel. Lines go out through one unbounded queue per connection.

  \<^bold>\<open>What is modelled, and where.\<close>
  \<^item> \<open>Prelude\<close>: errors (an \<open>anyhow\<close> error or a panic) and fallible operations with state
    (\<open>act\<close>: a result together with the state, because what was written before an error stays),
    sequencing as by \<open>?\<close>, and \<open>keeps\<close> (an operation preserves an invariant).
    \<open>RustStr\<close>: the parts of \<open>str\<close> and \<open>i64\<close> the server uses. \<open>Table\<close>: SQL statements
    on lists of rows, and the contract \<open>keyed_table\<close>. \<open>Codec\<close>: the contracts
    \<open>prefix_codec\<close> and \<open>stream_codec\<close> of the two encoders.
  \<^item> \<open>Wire\<close> (end of server.rs): channel names, message tags and their escaping.
    \<open>Protocol\<close> (protocol.rs): \<open>Command\<close> and \<open>parse_command\<close>. \<open>Tokens\<close> (tokens.rs):
    generation, parsing, hashing, with argon2 as the parameter \<open>crypto\<close>.
  \<^item> \<open>Store\<close> (store.rs): the tables, \<open>init\<close> with its migrations, seeds and backfill.
    \<open>History\<close> (history.rs), \<open>Tasks\<close> (tasks.rs), \<open>Auth\<close> (auth.rs), \<open>Membership\<close> (the
    SQL methods of \<open>Server\<close>): each store operation as an \<open>act\<close> on \<open>db\<close>, its invariant
    and its interface (\<open>message_log\<close>, \<open>lease_protocol\<close>, \<open>roster\<close>), interpreted on it.
  \<^item> \<open>Server\<close> (server.rs): \<open>Server\<close>, \<open>Session\<close> and every handler up to
    \<open>handle_command\<close>. \<open>System\<close>: \<open>handle_stream\<close> as a step relation on the server and all
    its connections, with the ways a connection can end.
  \<^item> \<open>Startup\<close> (main.rs, \<open>store::open\<close>): the program up to the running listeners, with
    file access and rustls as the parameter \<open>tls_lib\<close>. \<open>Listeners\<close> (\<open>listen\<close>,
    \<open>listen_tls\<close>): the process of the listeners and the system of the connections they accept; what
    it does is a run of \<open>System\<close>, and one failed \<open>accept\<close> ends it.
  \<^item> \<open>Client\<close> (src/clients/python/aircd/client.py): how the Python client reads a line; the
    lines it writes are \<open>client_line\<close> of \<open>Protocol\<close>. \<open>Streams\<close>: the characters between
    the writer of \<open>handle_stream\<close> and the reader of the client, with the line limit of asyncio.
    \<open>Handshake\<close>: \<open>_do_connect\<close>. \<open>Reconnect\<close>: its reader task over several
    connections, with the back-off.
  \<^item> \<open>Inbox\<close> (src/clients/python/aircd/daemon.py): the delivery buffer of the agent daemon, as steps of
    its asyncio thread and its HTTP thread. \<open>Requests\<close>: its synchronous requests and the patterns that
    recognise their answers, composed with the server's handlers.
  \<^item> \<open>UnitTests\<close>: the tests at the end of the Rust files, with the model in the place of the code.
  \<^item> \<open>Regions\<close> and \<open>Atomic\<close>: every handler, and \<open>handle_stream\<close>, once more as a program of
    the regions it runs under one lock (or as one send), and the step relation \<open>astep\<close> that
    interleaves the regions of all connections; run without interruption a program is the handler of
    \<open>Server\<close> (\<open>exec_command\<close>).

  \<^bold>\<open>The lemmas.\<close> \<open>Delivery\<close> gives every handler a closed form (which queues get which
  lines, which cursors move). \<open>ServerInv\<close> shows that every command keeps the invariant of the
  database, \<open>Rooms\<close> that the table of members agrees with the durable memberships,
  \<open>Outcome\<close> what a command can do to the tables, \<open>System\<close> the invariant \<open>sys_ok\<close> of
  all reachable states, \<open>Traces\<close> what runs keep (through the interfaces
  \<open>transition_system\<close> and \<open>db_monotone\<close>), \<open>Guarantees\<close> what that means to a user.
  \<open>Demo\<close> is a small deployment on which the properties are instantiated. \<open>Serial\<close> shows that
  the runs of \<open>System\<close> are the serial schedules of \<open>astep\<close>, \<open>Interleave\<close>, through the interface
  \<open>rely\<close>, what every schedule respects. \<open>Install\<close> follows \<open>init\<close> statement by
  statement on an empty file. \<open>Lines\<close> is a judgement on the handlers, \<open>yields\<close>: every entry of
  a queue of a reachable state is one line that ends in CRLF, so \<open>Streams\<close> can state what the client
  hears of the characters. \<open>Order\<close> bounds the sequence numbers in a queue by the history, \<open>Leases\<close>
  is the rely of a lease under every schedule of \<open>astep\<close>. \<open>Inbox\<close> keeps a log of what became of each
  message and shows by an invariant of all runs that it accounts for every one; \<open>Requests\<close> shows that a
  tool reports the server's decision, and which lines a request for a list swallows.
  The properties C1 to C21 stand below, but C6 (the client registers again) in \<open>Handshake\<close>, C7
  (the bytes of a connection) in \<open>Streams\<close>, C10 (a lease under interleaving) in \<open>Leases\<close> and C11
  (live messages in order) in \<open>Order\<close>; C22 to C33 about single components in \<open>Parts\<close>, except
  C27 (the answer of a daemon's tool) in \<open>Requests\<close>, C30 (the daemon loses nothing unlogged) in
  \<open>Inbox\<close> and C32 in \<open>UnitTests\<close>; C34 to C37 about interleaving in \<open>Races\<close>, C38 and
  C40 about single lines in \<open>Answers\<close>, C39 about the process in \<open>Listeners\<close>.

  \<^bold>\<open>Choices.\<close> A \<open>String\<close> is a list of characters up to U+00FF. The clock, UUIDs, random bytes
  and salts are arguments (\<open>inputs\<close>, \<open>draw\<close>). A \<open>HashSet\<close> is a list without
  repetition, and C4 shows that its iteration order does not matter. In \<open>System\<close> a handler is
  one step; \<open>Atomic\<close> drops that assumption, and C35 says what it was. Arithmetic on \<open>i64\<close> and
  the counter of legacy hits panic or wrap as in the development profile, in which the README
  starts the server. No recursion needs fuel: every loop of the server is over a list.

  \<^bold>\<open>Not modelled.\<close> Sockets and the TLS handshake beyond their outcome, the reader of the server below lines,
  SQLite failures other than violated constraints and exhausted row ids, the poisoning of a mutex
  by a panic (no handler panics while it holds one), the queue, the
  raw handlers and the TLS context of the Python client, the HTTP and JSON layer, the subprocess and the timers of its daemon,
  the bridge and the shell scripts.
\<close>

section \<open>Properties of the running server\<close>

lemma demo_wf: "sv_wf (sy_server demo)"
  using demo_ok by (simp add: sys_ok_def)

lemma demo_starts: "starts (sys_start None demo_db)"
  using demo_db_wf by (auto simp: starts_def)

text \<open>C1. In every state that a run reaches from a start on a well-formed database, the
  database is well formed (message numbers strictly increase, keys are unique, task rows are
  consistent, cursors stand at stored messages), the channel table agrees with the durable
  memberships, every client handle belongs to a connection of that principal, and every live
  session that is not the registered one of its principal has been told to shut down.\<close>

theorem reachable_ok:
  assumes "starts sy" and "run (sys_step cr) sy es sy'"
  shows "sys_ok sy'"
  using sys.reach_inv assms .

theorem reachable_ok_witness:
  "\<exists>sy'. run (sys_step demo_crypto) (sys_start None demo_db) [Accept 4 ''u'', ReadError 4] sy' \<and> sys_ok sy'"
proof -
  let ?s = "sys_start None demo_db"
  have "exec_all demo_crypto [Accept 4 ''u'', ReadError 4] ?s
      = Some (drop_conn 4 (new_session 4 ''u'') (sy_server (accept_conn 4 ''u'' ?s)) (accept_conn 4 ''u'' ?s))"
    by (simp add: sys_start_def accept_conn_def Let_def)
  then have "run (sys_step demo_crypto) ?s [Accept 4 ''u'', ReadError 4]
      (drop_conn 4 (new_session 4 ''u'') (sy_server (accept_conn 4 ''u'' ?s)) (accept_conn 4 ''u'' ?s))"
    by (rule exec_run) (simp_all add: starts_ok [OF demo_starts], simp add: sys_start_def sid_def)
  with reachable_ok [OF demo_starts this] show ?thesis by blast
qed


text \<open>Connection 3 of the demo registers as \<open>a\<close>, who is connected already.\<close>

definition demo_twice :: system where
  "demo_twice = on_line demo_crypto demo_inputs 3 demo_a2 ''USER a'' demo"

lemma demo_register:
  assumes "s_pass_token se = Some t" "\<not> s_registered se" "s_nick se = Some k"
    and "authenticate cr t demo_db 0 = (Inr p, h)"
  shows "handle_line cr inp se ''USER a'' (sy_server demo)
    = (Inr (registered_session p se, False),
       snd (register inp p se ((sy_server demo)\<lparr>sv_legacy_hits := h\<rparr>)))"
  using assms
  by (simp add: handle_line_def parse_user try_register_def run_authenticate_def and_then_def
      register_run run_act)

lemma demo_twice_conns: "sy_conns demo_twice = (sy_conns demo)(3 := Live (registered_session (demo_pr ''a'') demo_a2))"
  using demo_register [where se = demo_a2 and t = "''a-token''" and cr = demo_crypto
      and p = "demo_pr ''a''" and h = 1 and inp = demo_inputs and k = "''x''"] demo_authenticate(1)
  by (simp add: demo_twice_def on_line_def demo_a2_def new_session_def)

lemma demo_twice_ok: "sys_ok demo_twice"
  unfolding demo_twice_def by (rule on_line_ok [OF demo_ok]) simp


subsection \<open>Delivery\<close>

text \<open>C3. A PRIVMSG of the active session of a member is stored once, as the next message of the
  log; every connection of a connected member of the channel (the sender's included) is sent
  exactly one copy of the line with the message's tags and every other connection nothing; the
  cursors of exactly the members that were reached move to the message.\<close>

theorem privmsg_delivered:
  assumes ok: "sys_ok sy" and n: "sy_conns sy n = Live se" "s_principal se = Some p"
    and active: "clients (sv_inner (sy_server sy)) (pr_id p) = Some (handle_of se)"
    and cmd: "parse_command l = Privmsg tgt body"
    and member: "is_member (pr_id p) (normalize_channel tgt) (sv_db (sy_server sy))"
    and room: "has_room (i_log_uuid inp) (sv_db (sy_server sy))"
  shows "\<exists>sv m. on_line cr inp n se l sy = sy\<lparr>sy_server := sv\<rparr>
    \<and> m = next_message (i_log_uuid inp) (i_log_now inp) (normalize_channel tgt) (pr_id p) body
           (sv_db (sy_server sy))
    \<and> posted (message_line p (normalize_channel tgt) body m) m (sy_server sy) sv"
proof -
  have g: "guard_ok se (sy_server sy)"
    using guard_ok_handle [OF sys_okD(7) [OF ok] n] active by simp
  from privmsg_posted [OF ok n(2) member room] obtain sv where
    "privmsg inp se (normalize_channel tgt) body (sy_server sy) = (Inr (), sv)"
    "posted (message_line p (normalize_channel tgt) body
       (next_message (i_log_uuid inp) (i_log_now inp) (normalize_channel tgt) (pr_id p) body (sv_db (sy_server sy))))
       (next_message (i_log_uuid inp) (i_log_now inp) (normalize_channel tgt) (pr_id p) body (sv_db (sy_server sy)))
       (sy_server sy) sv" by blast
  moreover from this have "handle_line cr inp se l (sy_server sy) = (Inr (se, False), sv)"
    by (simp add: handle_line_def cmd guarded_run [OF g] and_then_def run_act)
  ultimately show ?thesis using on_line_stay [OF _ n(1)] by blast
qed

lemma demo_privmsg: "parse_command ''PRIVMSG #w :hi'' = Privmsg ''#w'' ''hi''" "normalize_channel ''#w'' = ''#w''"
  by code_simp+

theorem privmsg_delivered_witness:
  "\<exists>sv m. on_line demo_crypto demo_inputs 0 demo_a ''PRIVMSG #w :hi'' demo = demo\<lparr>sy_server := sv\<rparr>
    \<and> m = next_message ''n'' 10 ''#w'' ''a'' ''hi'' demo_db
    \<and> posted (message_line (demo_pr ''a'') ''#w'' ''hi'' m) m (sy_server demo) sv"
  using privmsg_delivered [OF demo_ok, of 0 demo_a "demo_pr ''a''" "''PRIVMSG #w :hi''" "''#w''" "''hi''"
      demo_inputs demo_crypto]
  by (simp add: demo_privmsg demo_members demo_room)

text \<open>C4. The order in which a broadcast visits the members of a channel (the iteration order of
  a Rust HashSet) does not matter: any two member lists with the same elements give the same
  queues and the same cursors.\<close>

theorem broadcast_order_irrelevant:
  assumes "channels (sv_inner sv) c = Some ms" "mset ms = mset ms'"
  shows "\<exists>sv'. broadcast_message c line seq sv = (Inr (), sv')
    \<and> broadcast_message c line seq (sv\<lparr>sv_inner := (sv_inner sv)\<lparr>channels := (channels (sv_inner sv))(c \<mapsto> ms')\<rparr>\<rparr>)
      = (Inr (), sv'\<lparr>sv_inner := (sv_inner sv)\<lparr>channels := (channels (sv_inner sv))(c \<mapsto> ms')\<rparr>\<rparr>)"
proof -
  let ?i = "(sv_inner sv)\<lparr>channels := (channels (sv_inner sv))(c \<mapsto> ms')\<rparr>"
  let ?f = "\<lambda>pid. map_option (Pair pid) (clients (sv_inner sv) pid)"
  have mf: "mset (List.map_filter ?f xs) = mset (List.map_filter ?f ys)" if "mset xs = mset ys" for xs ys
    using that by (simp add: map_filter_def)
  have one: "deliver_to c line seq r (v\<lparr>sv_inner := i\<rparr>) = (deliver_to c line seq r v)\<lparr>sv_inner := i\<rparr>"
    for r v i
    by (simp add: deliver_to_def)
  have inner: "fold (deliver_to c line seq) rs (v\<lparr>sv_inner := i\<rparr>)
      = (fold (deliver_to c line seq) rs v)\<lparr>sv_inner := i\<rparr>" for rs v i
    by (induction rs arbitrary: v) (simp_all add: one)
  have "fold (deliver_to c line seq) (recipients_with_ids c ?i) sv
      = fold (deliver_to c line seq) (recipients_with_ids c (sv_inner sv)) sv"
    by (rule deliver_order) (simp add: recipients_with_ids_def assms(1) mf [OF assms(2)])
  then show ?thesis by (simp add: broadcast_message_run inner)
qed

theorem broadcast_order_irrelevant_witness:
  "\<exists>sv'. broadcast_message ''#w'' ''x'' 2 (sy_server demo) = (Inr (), sv')
    \<and> broadcast_message ''#w'' ''x'' 2 ((sy_server demo)\<lparr>sv_inner := (sv_inner (sy_server demo))
        \<lparr>channels := (channels (sv_inner (sy_server demo)))(''#w'' \<mapsto> [''b'', ''a''])\<rparr>\<rparr>)
      = (Inr (), sv'\<lparr>sv_inner := (sv_inner (sy_server demo))
        \<lparr>channels := (channels (sv_inner (sy_server demo)))(''#w'' \<mapsto> [''b'', ''a''])\<rparr>\<rparr>)"
  by (rule broadcast_order_irrelevant [of _ _ "[''a'', ''b'']"]) simp_all

subsection \<open>Reconnecting\<close>

text \<open>C5. When a token is accepted, the new session becomes the principal's one handle, the
  principal is marked connected, the session is sent the welcome, a JOIN for each membership and,
  for each membership, the first 200 of the messages it missed there, in the order of the log;
  what it misses afterwards are exactly the messages beyond those 200.\<close>

theorem reconnect_replays_missed:
  assumes wf: "sv_wf sv" and fresh: "\<not> s_registered se" "s_pass_token se = Some token" "s_nick se = Some k"
    and auth: "authenticate cr token (sv_db sv) (sv_legacy_hits sv) = (Inr p, hits)"
  shows "\<exists>se' sv'. try_register cr inp se sv = (Inr se', sv')
    \<and> s_registered se' \<and> s_principal se' = Some p
    \<and> clients (sv_inner sv') = (clients (sv_inner sv))(pr_id p \<mapsto> handle_of se)
    \<and> online (sv_db sv') (pr_id p)
    \<and> outs sv' (s_tx se) = send_all (register_lines p (memberships (pr_id p) (sv_db sv)) (sv_db sv))
         (outs sv (s_tx se))
    \<and> (\<forall>c x. cursor (pr_id p) c (sv_db sv) = Some x \<longrightarrow>
         replay_lines c x 200 (sv_db sv) = map (replay_line (sv_db sv)) (take 200 (missed (pr_id p) c (sv_db sv))))
    \<and> (\<forall>c. missed (pr_id p) c (sv_db sv') = drop 200 (missed (pr_id p) c (sv_db sv)))"
proof -
  obtain r sv' where run: "try_register cr inp se sv = (r, sv')" by (cases "try_register cr inp se sv")
  have "register inp p se (sv\<lparr>sv_legacy_hits := hits\<rparr>) = (r, sv')"
    using run fresh auth by (simp add: try_register_def run_authenticate_def and_then_def)
  moreover have "pr_id p \<in> p_id ` set (principals (sv_db sv))"
    using authenticate_sound [OF auth] by (auto simp: principal_of_row_def)
  ultimately have reg: "registers inp p se sv sv'" and r: "r = Inr (registered_session p se)"
    by (auto simp: registers_def register_run)
  have log: "log_wf (sv_db sv)" using wf by (simp add: sv_wf_def db_wf_def)
  have lines: "replay_lines c x 200 (sv_db sv) = map (replay_line (sv_db sv)) (take 200 (missed (pr_id p) c (sv_db sv)))"
    if "cursor (pr_id p) c (sv_db sv) = Some x" for c x
    using that by (simp add: replay_lines_def history_after_take [OF log] missed_def clamp_limit_def)
  have "online (mark_connected (i_now inp) (pr_id p) (sv_db sv)) (pr_id p)"
    using reg by (simp add: online_connected registers_def)
  then have "online (register_seen (pr_id p) ms (mark_connected (i_now inp) (pr_id p) (sv_db sv))) (pr_id p)" for ms
    using same_roster_stable(2) [OF same_roster_folds(3)] by blast
  with reg have "clients (sv_inner sv') = (clients (sv_inner sv))(pr_id p \<mapsto> handle_of se)
      \<and> online (sv_db sv') (pr_id p)
      \<and> outs sv' (s_tx se) = send_all (register_lines p (memberships (pr_id p) (sv_db sv)) (sv_db sv)) (outs sv (s_tx se))"
    by (auto simp: registers_def register_run take_over_clients)
  with run r lines register_missed [OF wf reg] show ?thesis by auto
qed

theorem reconnect_replays_missed_witness:
  "\<exists>se' sv'. try_register demo_crypto demo_inputs demo_c (sy_server demo) = (Inr se', sv')
    \<and> s_registered se' \<and> online (sv_db sv') ''c'' \<and> missed ''c'' ''#w'' (sv_db sv') = []"
proof -
  have "missed ''c'' ''#w'' demo_db = [demo_message]"
    by (simp add: missed_def cursor_def row_of_def query_row_def member_key_def channel_messages_def demo_defs)
  moreover have "authenticate demo_crypto ''c-token'' (sv_db (sy_server demo)) (sv_legacy_hits (sy_server demo))
      = (Inr (demo_pr ''c''), 1)"
    using demo_authenticate(2) by simp
  ultimately show ?thesis
    using reconnect_replays_missed [OF demo_wf, of demo_c "''c-token''" "''c''" demo_crypto "demo_pr ''c''" 1 demo_inputs]
    by (auto simp: demo_c_def new_session_def)
qed

text \<open>A run never takes a cursor back: as long as the principal does not PART the channel, it
  stays a member and its cursor is at least what it was, whatever the sessions do.\<close>

theorem cursor_never_back:
  assumes "sys_ok sy" and "cursor p c (sv_db (sy_server sy)) = Some x"
    and "run (\<lambda>s e t. sys_step cr s e t \<and> \<not> parts_from p c s e) sy es sy'"
  shows "\<exists>y. cursor p c (sv_db (sy_server sy')) = Some y \<and> x \<le> y"
  using run_cursor [OF assms(3,1,2)] by (simp add: at_least_def)

theorem cursor_never_back_witness:
  "\<exists>sy' y. run (\<lambda>s e t. sys_step demo_crypto s e t \<and> \<not> parts_from ''a'' ''#w'' s e) demo
      [Line 1 demo_inputs ''PRIVMSG #w :hi''] sy'
    \<and> cursor ''a'' ''#w'' (sv_db (sy_server sy')) = Some y \<and> 1 \<le> y"
proof -
  let ?t = "on_line demo_crypto demo_inputs 1 demo_b ''PRIVMSG #w :hi'' demo"
  have r: "run (\<lambda>s e t. sys_step demo_crypto s e t \<and> \<not> parts_from ''a'' ''#w'' s e) demo
      [Line 1 demo_inputs ''PRIVMSG #w :hi''] ?t"
    by (simp add: demo_privmsg, rule sys_step.line) simp
  have "cursor ''a'' ''#w'' (sv_db (sy_server demo)) = Some 1"
    by (simp add: cursor_def row_of_def query_row_def member_key_def demo_defs)
  from cursor_never_back [OF demo_ok this r] r show ?thesis by blast
qed

text \<open>The message log is append-only: at the end of any run the stored messages are those of
  its beginning, unchanged and in the same order, followed by new ones.\<close>

theorem history_append_only:
  assumes "run (sys_step cr) sy es sy'"
  shows "prefix (messages (sv_db (sy_server sy))) (messages (sv_db (sy_server sy')))"
  using run_history assms .

theorem history_append_only_witness:
  "\<exists>sy'. run (sys_step demo_crypto) demo [ReadError 0] sy'
    \<and> prefix (messages demo_db) (messages (sv_db (sy_server sy')))"
proof -
  have "run (sys_step demo_crypto) demo [ReadError 0] (drop_conn 0 demo_a (sy_server demo) demo)"
    by (simp, rule sys_step.read_error) simp
  from this history_append_only [OF this] show ?thesis by auto
qed

subsection \<open>Tasks\<close>

lemma demo_phases: "task_phase ''task_t'' demo_db = Claimed ''a'' 100" "task_phase ''task_o'' demo_db = Open"
  by (simp_all add: task_phase_def row_of_def query_row_def row_phase_def demo_defs)

text \<open>C8. Every command is at most one operation on the tasks: after a command the task table is
  what the operation that the command stands for (none, if the session may not act) makes of it,
  whatever else the command does.\<close>

theorem command_is_task_operation:
  "tasks (sv_db (snd (handle_command cr inp se cmd sv)))
   = (case session_op sv inp se cmd of
        None \<Rightarrow> tasks (sv_db sv)
      | Some op \<Rightarrow> tasks (snd (task_step op (sv_db sv))))"
  using handle_command_tasks [of cr inp se cmd sv] by (simp add: tasks_after_def)

text \<open>C9. The task store implements the lease protocol: on a well-formed table each operation
  succeeds exactly when the protocol allows it in the task's phase (an expired lease may be taken
  over, a running one not; only the holder finishes or releases), takes the task to the protocol's
  next phase, leaves every other task alone and keeps the table well formed.\<close>

theorem task_store_refines_protocol:
  assumes "tasks_wf d"
  shows "(fst (task_step op d) \<longleftrightarrow> fst (spec_op op (task_phase (op_task op) d)))
    \<and> task_phase (op_task op) (snd (task_step op d)) = snd (spec_op op (task_phase (op_task op) d))
    \<and> (\<forall>u. u \<noteq> op_task op \<longrightarrow> task_phase u (snd (task_step op d)) = task_phase u d)
    \<and> tasks_wf (snd (task_step op d))"
  using task_step_refines [OF assms] task_step_wf [OF assms] by blast

theorem task_store_refines_protocol_witness:
  "fst (task_step (OpClaim 300 10 ''task_o'' ''b'') demo_db)
   \<and> task_phase ''task_o'' (snd (task_step (OpClaim 300 10 ''task_o'' ''b'') demo_db)) = Claimed ''b'' 310"
  using task_store_refines_protocol [OF sys_okD(3) [OF demo_ok], of "OpClaim 300 10 ''task_o'' ''b''"]
  by (simp add: demo_phases spec_claim_def is_i64_def i64_min_def i64_max_def del: task_step.simps)

text \<open>A lease holds against the whole system: while no command claims the task after the
  lease's end and the holder's own sessions do not finish or release it, the task stays claimed by
  the holder until the same time, through any run.\<close>

theorem lease_excludes_others:
  assumes "sys_ok sy" and "task_phase t (sv_db (sy_server sy)) = Claimed p l"
    and "run (\<lambda>s e s'. sys_step cr s e s' \<and> event_respects t p l s e) sy es sy'"
  shows "task_phase t (sv_db (sy_server sy')) = Claimed p l"
  using run_task_lease [OF assms(3,1,2)] .

theorem lease_excludes_others_witness:
  "\<exists>sy'. run (\<lambda>s e s'. sys_step demo_crypto s e s' \<and> event_respects ''task_t'' ''a'' 100 s e) demo
      [Line 1 demo_inputs ''TASK CLAIM task_t''] sy'
    \<and> task_phase ''task_t'' (sv_db (sy_server sy')) = Claimed ''a'' 100"
proof -
  let ?t = "on_line demo_crypto demo_inputs 1 demo_b ''TASK CLAIM task_t'' demo"
  have "event_respects ''task_t'' ''a'' 100 demo (Line 1 demo_inputs ''TASK CLAIM task_t'')"
    by (simp add: event_respects_def demo_task_lines demo_ops)
  then have r: "run (\<lambda>s e s'. sys_step demo_crypto s e s' \<and> event_respects ''task_t'' ''a'' 100 s e) demo
      [Line 1 demo_inputs ''TASK CLAIM task_t''] ?t"
    by (simp, intro sys_step.line) simp
  from lease_excludes_others [OF demo_ok _ r] r show ?thesis by (auto simp: demo_phases)
qed

text \<open>A finished task is finished for good: no run of the system takes it out of Done.\<close>

theorem done_is_final:
  assumes "sys_ok sy" and "task_phase t (sv_db (sy_server sy)) = Done" and "run (sys_step cr) sy es sy'"
  shows "task_phase t (sv_db (sy_server sy')) = Done"
  using run_task_done [OF assms(3,1,2)] .

lemma demo_done_line: "parse_command ''TASK DONE task_t'' = TaskDone ''task_t''"
  by code_simp

lemma demo_line_step: "sys_step cr demo (Line 0 inp l) (on_line cr inp 0 demo_a l demo)"
  by (rule sys_step.line) simp

lemma demo_done_phase:
  "task_phase ''task_t'' (sv_db (sy_server (on_line cr demo_inputs 0 demo_a ''TASK DONE task_t'' demo))) = Done"
proof -
  have "event_op demo (Line 0 demo_inputs ''TASK DONE task_t'') = Some (OpDone 10 ''task_t'' ''a'')"
    by (simp add: demo_done_line session_op_def demo_guard)
  with step_phase [OF demo_line_step, of "''task_t''"] task_step_refines(2) [OF sys_okD(3) [OF demo_ok], of "OpDone 10 ''task_t'' ''a''"]
  show ?thesis by (simp add: demo_phases spec_done_def del: task_step.simps)
qed

theorem done_is_final_witness:
  "\<exists>sy sy'. run (sys_step demo_crypto) sy [ReadError 1] sy' \<and> task_phase ''task_t'' (sv_db (sy_server sy')) = Done"
proof -
  let ?s = "on_line demo_crypto demo_inputs 0 demo_a ''TASK DONE task_t'' demo"
  have ok: "sys_ok ?s" by (rule on_line_ok [OF demo_ok]) simp
  have "sy_conns ?s 1 = Live demo_b"
    by (simp add: on_line_def drop_conn_def leave_loop_conns split: prod.split sum.split)
  then have "run (sys_step demo_crypto) ?s [ReadError 1] (drop_conn 1 demo_b (sy_server ?s) ?s)"
    by (simp add: sys_step.read_error)
  from this done_is_final [OF ok demo_done_phase this] show ?thesis by blast
qed

text \<open>C12. Of racing claims on an open task whose clocks are not past the first one's lease, the
  first wins and all others are refused.\<close>

theorem one_claim_wins:
  assumes "tasks_wf d" "task_phase t d = Open" "is_i64 (now + lease)" "0 \<le> lease"
    and "\<forall>(n, q) \<in> set cs. n \<le> now + lease"
  shows "fst (run_ops task_step (OpClaim lease now t p # map (\<lambda>(n, q). OpClaim lease n t q) cs) d)
      = True # replicate (length cs) False
    \<and> task_phase t (snd (run_ops task_step (OpClaim lease now t p # map (\<lambda>(n, q). OpClaim lease n t q) cs) d))
      = Claimed p (now + lease)"
  using lease.race [OF assms] by (metis fst_conv)

theorem one_claim_wins_witness:
  "fst (run_ops task_step (OpClaim 300 10 ''task_o'' ''b'' # map (\<lambda>(n, q). OpClaim 300 n ''task_o'' q)
      [(11, ''a''), (310, ''c'')]) demo_db) = [True, False, False]"
  using one_claim_wins [OF sys_okD(3) [OF demo_ok], of "''task_o''" 10 300 "[(11, ''a''), (310, ''c'')]" "''b''"]
  by (simp add: demo_phases is_i64_def i64_min_def i64_max_def del: task_step.simps run_ops.simps list.map)

text \<open>C13. A task command that the protocol accepts changes the task and is announced: one message
  of the server, about the task as it is afterwards, is stored in the task's channel and sent once
  to each connection of a connected member there.\<close>

theorem accepted_task_announced:
  assumes ok: "sys_ok sy" and n: "sy_conns sy n = Live se" "s_principal se = Some p"
    and op: "session_op (sy_server sy) inp se (parse_command l) = Some op"
    and yes: "fst (spec_op op (task_phase (op_task op) (sv_db (sy_server sy))))"
    and room: "has_room (i_log_uuid inp) (sv_db (sy_server sy))"
  shows "\<exists>t d m sv. task_step op (sv_db (sy_server sy)) = (True, d) \<and> t_id t = op_task op
    \<and> on_line cr inp n se l sy = sy\<lparr>sy_server := sv\<rparr>
    \<and> m = next_message (i_log_uuid inp) (i_log_now inp) (t_channel t) SERVER_NAME (event_body p op t) d
    \<and> posted (task_event_line t (snd (task_verb op)) ''success'' (pr_nick p) (event_body p op t) m) m
        ((sy_server sy)\<lparr>sv_db := d\<rparr>) sv"
proof -
  show ?thesis
    by (rule accepted_posted [OF ok n op yes room, of cr]) blast
qed

theorem accepted_task_announced_witness:
  "\<exists>t d m sv. task_step (OpClaim 300 10 ''task_o'' ''b'') demo_db = (True, d) \<and> t_id t = ''task_o''
    \<and> on_line demo_crypto demo_inputs 1 demo_b ''TASK CLAIM task_o'' demo = demo\<lparr>sy_server := sv\<rparr>
    \<and> m = next_message ''n'' 10 (t_channel t) SERVER_NAME (event_body (demo_pr ''b'') (OpClaim 300 10 ''task_o'' ''b'') t) d
    \<and> messages (sv_db sv) = messages d @ [m]"
proof -
  have yes: "fst (spec_op (OpClaim 300 10 ''task_o'' ''b'') (task_phase ''task_o'' demo_db))"
    by (simp add: demo_phases spec_claim_def is_i64_def i64_min_def i64_max_def)
  show ?thesis
    using accepted_task_announced [OF demo_ok, of 1 demo_b "demo_pr ''b''" demo_inputs "''TASK CLAIM task_o''"
        "OpClaim 300 10 ''task_o'' ''b''" demo_crypto] yes
    by (simp add: demo_task_lines demo_ops demo_room posted_def del: task_step.simps) blast
qed

text \<open>C14. A claim, finish or release that the protocol refuses has no effect but one: the failure
  notice, with the tags of the failed action, to the connection that asked.\<close>

theorem refused_task_only_notifies:
  assumes ok: "sys_ok sy" and n: "sy_conns sy n = Live se" "s_principal se = Some p"
    and op: "session_op (sy_server sy) inp se (parse_command l) = Some op" "in_range op"
    and kind: "\<And>u now ch title. op \<noteq> OpCreate u now ch title"
    and no: "\<not> fst (spec_op op (task_phase (op_task op) (sv_db (sy_server sy))))"
  shows "on_line cr inp n se l sy = sy\<lparr>sy_server := push n [refusal_line p op] (sy_server sy)\<rparr>"
proof -
  have "s_tx se = n" using linkedD(1) [OF sys_okD(7) [OF ok], of n se] n(1) by (simp add: session_ok_def)
  with task_refused_run [OF sys_okD(3) [OF ok] n(2) op kind no, of cr]
  show ?thesis using on_line_stay [OF _ n(1)] by (simp add: handle_line_def)
qed

theorem refused_task_only_notifies_witness:
  "on_line demo_crypto demo_inputs 1 demo_b ''TASK CLAIM task_t'' demo
   = demo\<lparr>sy_server := push 1 [refusal_line (demo_pr ''b'') (OpClaim 300 10 ''task_t'' ''b'')] (sy_server demo)\<rparr>"
  by (rule refused_task_only_notifies [OF demo_ok])
     (simp_all add: demo_task_lines demo_ops demo_phases spec_claim_def is_i64_def i64_min_def i64_max_def)

subsection \<open>Who may act\<close>

text \<open>C15. A session that has not registered can change nothing: every command but PASS, NICK,
  USER, PING, PONG, CAP, QUIT and unknown ones is answered by the 451 line to that connection and
  leaves the server and the session as they were.\<close>

theorem unregistered_powerless:
  assumes "sy_conns sy n = Live se" "\<not> s_registered se" "\<not> open_command (parse_command l)"
  shows "on_line cr inp n se l sy
    = sy\<lparr>sy_server := push (s_tx se) ['':'' @ SERVER_NAME @ '' 451 * :You have not registered''] (sy_server sy)\<rparr>"
  using on_line_stay [OF _ assms(1)] closed_command_unregistered [OF assms(3,2), of cr inp "sy_server sy"]
  by (simp add: handle_line_def)

theorem unregistered_powerless_witness:
  "on_line demo_crypto demo_inputs 2 demo_c ''PRIVMSG #w :hi'' demo
   = demo\<lparr>sy_server := push 2 ['':aircd 451 * :You have not registered''] (sy_server demo)\<rparr>"
  using unregistered_powerless [of demo 2 demo_c "''PRIVMSG #w :hi''" demo_crypto demo_inputs]
  by (simp add: demo_privmsg, simp add: demo_c_def new_session_def SERVER_NAME_def)

text \<open>C16. A session whose principal has registered anew cannot act either: a command that needs
  registration ends its connection with an error line to it, and the database, the tables in memory
  and every other queue stay as they were.\<close>

theorem replaced_powerless:
  assumes ok: "sys_ok sy" and n: "sy_conns sy n = Live se" "s_principal se = Some p"
    and replaced: "clients (sv_inner (sy_server sy)) (pr_id p) \<noteq> Some (handle_of se)"
    and closed: "\<not> open_command (parse_command l)"
  shows "on_line cr inp n se l sy = drop_conn n se
    (push n ['':'' @ SERVER_NAME @ '' ERROR :Session replaced by a newer connection''] (sy_server sy)) sy"
proof -
  have L: "linked (sy_server sy) (sy_conns sy)" by (rule sys_okD(7) [OF ok])
  have "\<not> guard_ok se (sy_server sy)" using guard_ok_handle [OF L n] replaced by simp
  moreover have "s_registered se" "s_tx se = n"
    using linkedD(1) [OF L, of n se] n by (simp_all add: session_ok_def)
  ultimately show ?thesis
    using closed_command_replaced [OF closed _ n(2), of "sy_server sy" cr inp]
    by (simp add: on_line_def handle_line_def)
qed

lemma demo_twice_clients: "clients (sv_inner (sy_server demo_twice)) ''a'' = Some (handle_of demo_a2)"
  using demo_register [where se = demo_a2 and t = "''a-token''" and cr = demo_crypto
      and p = "demo_pr ''a''" and h = 1 and inp = demo_inputs and k = "''x''"] demo_authenticate(1)
  by (simp add: demo_twice_def on_line_def register_run demo_a2_def new_session_def)
     (simp add: take_over_clients)

lemma demo_a_replaced: "clients (sv_inner (sy_server demo_twice)) ''a'' \<noteq> Some (handle_of demo_a)"
  by (simp add: demo_twice_clients) (simp add: demo_defs handle_of_def)

theorem replaced_powerless_witness:
  "on_line demo_crypto demo_inputs 0 demo_a ''PRIVMSG #w :hi'' demo_twice = drop_conn 0 demo_a
     (push 0 ['':'' @ SERVER_NAME @ '' ERROR :Session replaced by a newer connection''] (sy_server demo_twice)) demo_twice"
  by (rule replaced_powerless [OF demo_twice_ok, of _ _ "demo_pr ''a''"])
     (simp_all add: demo_twice_conns demo_a_replaced demo_privmsg)

text \<open>C17. The end of a connection takes its principal offline only if the connection is still the
  principal's own: a session that was replaced leaves the newer one in place and the principal
  connected in the database.\<close>

theorem end_of_connection:
  assumes ok: "sys_ok sy" and n: "sy_conns sy n = Live se" "s_principal se = Some p"
  shows "\<exists>sy'. sys_step cr sy (Eof n inp) sy' \<and> sy_conns sy' n = Gone se
    \<and> (if clients (sv_inner (sy_server sy)) (pr_id p) = Some (handle_of se)
       then clients (sv_inner (sy_server sy')) = (clients (sv_inner (sy_server sy)))(pr_id p := None)
         \<and> \<not> online (sv_db (sy_server sy')) (pr_id p)
       else sv_inner (sy_server sy') = sv_inner (sy_server sy) \<and> sv_db (sy_server sy') = sv_db (sy_server sy))"
proof -
  have L: "linked (sy_server sy) (sy_conns sy)" by (rule sys_okD(7) [OF ok])
  have tx: "s_tx se = n" using linkedD(1) [OF L, of n se] n by (simp add: session_ok_def)
  have own: "owns se (sv_inner (sy_server sy)) (pr_id p)
      \<longleftrightarrow> clients (sv_inner (sy_server sy)) (pr_id p) = Some (handle_of se)"
  proof
    assume "owns se (sv_inner (sy_server sy)) (pr_id p)"
    then obtain h where h: "clients (sv_inner (sy_server sy)) (pr_id p) = Some h" "h_tx h = n"
      using tx by (auto simp: owns_def split: option.splits)
    then obtain k s where k: "conn_session (sy_conns sy k) = Some s" "h = handle_of s"
      using linkedD(3) [OF L h(1)] by (auto simp: handle_ok_def)
    then have "k = n" using linkedD(1) [OF L k(1)] h(2) by (simp add: session_ok_def handle_of_def)
    with k n h show "clients (sv_inner (sy_server sy)) (pr_id p) = Some (handle_of se)" by simp
  qed (simp add: owns_def handle_of_def)
  let ?sy = "leave_loop inp n se (sy_server sy) sy"
  have "sys_step cr sy (Eof n inp) ?sy" by (rule sys_step.eof [of sy n se]) (rule n(1))
  moreover have "sy_conns ?sy n = Gone se" by (simp add: leave_loop_conns)
  moreover have "if clients (sv_inner (sy_server sy)) (pr_id p) = Some (handle_of se)
      then clients (sv_inner (sy_server ?sy)) = (clients (sv_inner (sy_server sy)))(pr_id p := None)
        \<and> \<not> online (sv_db (sy_server ?sy)) (pr_id p)
      else sv_inner (sy_server ?sy) = sv_inner (sy_server sy) \<and> sv_db (sy_server ?sy) = sv_db (sy_server sy)"
    using own n(2) by (simp add: leave_loop_def disconnect_run online_disconnected)
  ultimately show ?thesis by blast
qed

theorem end_of_connection_witness:
  "\<exists>sy'. sys_step demo_crypto demo_twice (Eof 0 demo_inputs) sy' \<and> online (sv_db (sy_server sy')) ''a''"
proof -
  obtain sy' where "sys_step demo_crypto demo_twice (Eof 0 demo_inputs) sy'"
      "sv_db (sy_server sy') = sv_db (sy_server demo_twice)"
    using end_of_connection [OF demo_twice_ok, of 0 demo_a "demo_pr ''a''" demo_crypto demo_inputs] demo_a_replaced
    by (auto simp: demo_twice_conns)
  with rooms_okD(4) [OF sys_okD(6) [OF demo_twice_ok] demo_twice_clients] show ?thesis by auto
qed

text \<open>C18. A session becomes registered only on a token that is a principal's: an unrevoked token
  row of the principal whose hash accepts the secret, or the principal's plaintext token.\<close>

theorem registration_needs_token:
  assumes "try_register cr inp se sv = (Inr se', sv')" "\<not> s_registered se" "s_registered se'"
  shows "\<exists>token row. s_pass_token se = Some token \<and> row \<in> set (principals (sv_db sv))
    \<and> s_principal se' = Some (principal_of_row row)
    \<and> (new_ground cr token (sv_db sv) row \<or> p_token row = token)"
  using assms(1)
proof (cases rule: try_register_cases)
  case same
  with assms(2,3) show ?thesis by simp
next
  case (new p token)
  then obtain h where "authenticate cr token (sv_db sv) (sv_legacy_hits sv) = (Inr p, h)"
    by (metis prod.collapse)
  from authenticate_sound [OF this] new show ?thesis by auto
qed

theorem registration_needs_token_witness:
  "\<exists>row \<in> set (principals demo_db). principal_of_row row = demo_pr ''c''
     \<and> (new_ground demo_crypto ''c-token'' demo_db row \<or> p_token row = ''c-token'')"
proof -
  have c: "try_register demo_crypto demo_inputs demo_c (sy_server (demo_on demo_db))
    = (Inr (registered_session (demo_pr ''c'') demo_c),
       snd (register demo_inputs (demo_pr ''c'') demo_c ((sy_server (demo_on demo_db))\<lparr>sv_legacy_hits := 1\<rparr>)))"
    by (rule demo_c_registers) (rule demo_authenticate(2))
  have "\<not> s_registered demo_c" "s_pass_token demo_c = Some ''c-token''"
    by (simp_all add: demo_c_def new_session_def)
  with registration_needs_token [OF c] show ?thesis by auto
qed

subsection \<open>Joining, and two losses\<close>

text \<open>C19. A JOIN by the active session of a principal makes it a member. A newcomer's cursor stands
  at the end of the channel, so nothing of the past counts as missed; for a principal that was a
  member the database does not change. Every connected member of the channel, the newcomer's
  connection included, is sent the JOIN line once and no other connection anything.\<close>

theorem join_enters:
  assumes ok: "sys_ok sy" and n: "sy_conns sy n = Live se" "s_principal se = Some p"
    and active: "clients (sv_inner (sy_server sy)) (pr_id p) = Some (handle_of se)"
    and cmd: "parse_command l = Join c"
  shows "\<exists>sv. on_line cr inp n se l sy = sy\<lparr>sy_server := sv\<rparr>
    \<and> is_member (pr_id p) (normalize_channel c) (sv_db sv)
    \<and> (if is_member (pr_id p) (normalize_channel c) (sv_db (sy_server sy))
       then sv_db sv = sv_db (sy_server sy)
       else missed (pr_id p) (normalize_channel c) (sv_db sv) = [])
    \<and> (\<forall>k. outs sv k = send_all (if listens sv (normalize_channel c) k
         then ['':'' @ pr_nick p @ '' JOIN '' @ normalize_channel c] else []) (outs (sy_server sy) k))"
proof -
  let ?c = "normalize_channel c" and ?sv = "sy_server sy" and ?d = "sv_db (sy_server sy)"
  let ?j = "'':'' @ pr_nick p @ '' JOIN '' @ ?c"
  have g: "guard_ok se ?sv" using guard_ok_handle [OF sys_okD(7) [OF ok] n] active by simp
  obtain sv where run: "join_channel inp se ?c ?sv = (Inr (), sv)"
    by (simp add: join_channel_run [OF n(2)])
  then have line: "handle_line cr inp se l ?sv = (Inr (se, False), sv)"
    by (simp add: handle_line_def cmd guarded_run [OF g] and_then_def run_act)
  have "sys_ok (on_line cr inp n se l sy)" by (rule on_line_ok [OF ok n(1)])
  then have ok': "rooms_ok (sv_inner sv) (sv_db sv)" "linked sv (sy_conns sy)"
    using on_line_stay [OF line n(1)] sys_okD(6,7) [of "sy\<lparr>sy_server := sv\<rparr>"] by simp_all
  from run have sv: "sv_db sv = add_membership (i_now inp) (pr_id p) ?c ?d"
      "outs sv k = send_all (replicate (times_sent k (recipients_with_ids ?c (sv_inner sv))) ?j) (outs ?sv k)" for k
    by (auto simp: join_channel_run [OF n(2)] push_fold recipients_def times_sent_def filter_map o_def)
  have "outs sv k = send_all (if listens sv ?c k then [?j] else []) (outs ?sv k)" for k
    using sv(2) times_sent_ok [OF ok'] by simp
  moreover have "is_member (pr_id p) ?c (sv_db sv)"
    by (simp add: is_member_cursor sv(1) cursor_add_membership)
  moreover have "if is_member (pr_id p) ?c ?d then sv_db sv = ?d else missed (pr_id p) ?c (sv_db sv) = []"
    using joined_missed [of "pr_id p" ?c ?d] by (auto simp: sv(1) is_member_in add_membership_def)
  ultimately show ?thesis using on_line_stay [OF line n(1)] by blast
qed
lemma demo_join: "parse_command ''JOIN #v'' = Join ''#v''" "normalize_channel ''#v'' = ''#v''"
  by code_simp+

theorem join_enters_witness:
  "\<exists>sv. on_line demo_crypto demo_inputs 0 demo_a ''JOIN #v'' demo = demo\<lparr>sy_server := sv\<rparr>
    \<and> is_member ''a'' ''#v'' (sv_db sv) \<and> missed ''a'' ''#v'' (sv_db sv) = []"
  using join_enters [OF demo_ok, of 0 demo_a "demo_pr ''a''" "''JOIN #v''" "''#v''" demo_crypto demo_inputs]
  by (simp add: demo_join demo_members) blast

text \<open>C20. The replay at registration stops after 200 messages of a channel, and the rest is lost to
  the principal: the first message posted to the channel afterwards moves its cursor past the
  messages that were not replayed. Between them the connection is sent the first 200 and the new
  one, and the principal counts as having missed nothing.\<close>

theorem backlog_lost:
  assumes wf: "sv_wf sv" and new: "try_register cr inp se sv = (Inr se', sv1)" "\<not> s_registered se"
      "s_principal se' = Some p" "s_registered se'" and open_q: "q_open (outs sv (s_tx se))"
    and long: "200 < length (missed (pr_id p) c (sv_db sv))"
    and next_one: "posted line (next_message u now c s b (sv_db sv1)) sv1 sv2"
  shows "outs sv1 (s_tx se) = send_all (register_lines p (memberships (pr_id p) (sv_db sv)) (sv_db sv)) (outs sv (s_tx se))
    \<and> (\<exists>x. cursor (pr_id p) c (sv_db sv) = Some x \<and>
         replay_lines c x 200 (sv_db sv) = map (replay_line (sv_db sv)) (take 200 (missed (pr_id p) c (sv_db sv))))
    \<and> missed (pr_id p) c (sv_db sv1) = drop 200 (missed (pr_id p) c (sv_db sv))
    \<and> missed (pr_id p) c (sv_db sv1) \<noteq> []
    \<and> outs sv2 (s_tx se) = send_all [line] (outs sv1 (s_tx se))
    \<and> missed (pr_id p) c (sv_db sv2) = []"
proof -
  have log: "log_wf (sv_db sv)" using wf by (simp add: sv_wf_def db_wf_def)
  have reg: "registers inp p se sv sv1" using try_register_new [OF new(1,2,4)] new(3) by auto
  note wf1 = keepsD_eq [OF keeps_sv_wf_try_register wf new(1)]
  obtain x where x: "cursor (pr_id p) c (sv_db sv) = Some x"
    using long by (auto simp: missed_def split: option.splits)
  have lines: "replay_lines c x 200 (sv_db sv) = map (replay_line (sv_db sv)) (take 200 (missed (pr_id p) c (sv_db sv)))"
    using x by (simp add: replay_lines_def history_after_take [OF log] missed_def clamp_limit_def)
  note m1 = register_missed [OF wf reg, of c]
  have cl: "clients (sv_inner sv1) (pr_id p) = Some (handle_of se)"
    using reg by (auto simp: registers_def register_run take_over_clients)
  have q: "outs sv1 (s_tx se) = send_all (register_lines p (memberships (pr_id p) (sv_db sv)) (sv_db sv)) (outs sv (s_tx se))"
    using reg by (auto simp: registers_def register_run)
  have "is_member (pr_id p) c (sv_db sv1)"
    using register_members [OF reg] x by (simp add: is_member_cursor)
  with cl q open_q have "hears sv1 c (pr_id p)" "listens sv1 c (s_tx se)"
    unfolding hears_def listens_def by (auto simp: handle_of_def intro!: exI [of _ "pr_id p"])
  moreover have "log_wf (sv_db sv1)" "cursors_wf (sv_db sv1)"
    using wf1 by (simp_all add: sv_wf_def db_wf_def)
  ultimately have "missed (pr_id p) c (sv_db sv2) = []" "outs sv2 (s_tx se) = send_all [line] (outs sv1 (s_tx se))"
    using posted_missed [OF _ _ next_one refl] next_one by (simp_all add: posted_def next_message_def)
  with x lines m1 q long show ?thesis by auto
qed

theorem backlog_lost_witness:
  "\<exists>se' sv1 line m sv2. try_register demo_crypto demo_inputs demo_c (sy_server (demo_on demo_backlog)) = (Inr se', sv1)
    \<and> posted line m sv1 sv2
    \<and> length (missed ''c'' ''#w'' (sv_db sv1)) = 1 \<and> missed ''c'' ''#w'' (sv_db sv2) = []"
proof -
  let ?s = "demo_on demo_backlog"
  have auth: "authenticate demo_crypto ''c-token'' demo_backlog 0 = (Inr (demo_pr ''c''), 1)"
    using demo_authenticate(2) demo_tokens(2)
    by (simp add: authenticate_def authenticate_legacy_def demo_backlog_def)
  from demo_c_registers [OF this] obtain sv1 where
    sv1: "try_register demo_crypto demo_inputs demo_c (sy_server ?s)
      = (Inr (registered_session (demo_pr ''c'') demo_c), sv1)" by blast
  have c: "\<not> s_registered demo_c" "s_tx demo_c = 2" by (simp_all add: demo_c_def new_session_def)
  have line: "sy_server (on_line demo_crypto demo_inputs 2 demo_c ''USER a'' ?s) = sv1"
    by (simp add: on_line_def handle_line_def parse_user and_then_def sv1 run_act)
  have ok: "sys_ok (on_line demo_crypto demo_inputs 2 demo_c ''USER a'' ?s)"
    by (rule on_line_ok [OF demo_backlog_ok]) simp
  have reg: "registers demo_inputs (demo_pr ''c'') demo_c (sy_server ?s) sv1"
    using try_register_new [OF sv1 c(1)] by simp
  have "is_member ''a'' ''#w'' (sv_db sv1)" "has_room ''n'' (sv_db sv1)"
    using register_members [OF reg] register_messages [OF reg] demo_room_backlog demo_members
    by (simp_all add: has_room_def, simp add: demo_backlog_def is_member_def)
  then obtain sv2 where sv2: "posted (message_line (demo_pr ''a'') ''#w'' ''x''
      (next_message ''n'' 10 ''#w'' ''a'' ''x'' (sv_db sv1))) (next_message ''n'' 10 ''#w'' ''a'' ''x'' (sv_db sv1)) sv1 sv2"
    using privmsg_posted [OF ok, of demo_a "demo_pr ''a''" "''#w''" demo_inputs "''x''"] by (auto simp: line)
  have "sv_wf (sy_server ?s)" using demo_backlog_ok by (simp add: sys_ok_def)
  from backlog_lost [OF this sv1 c(1) _ _ _ _ sv2] demo_backlog_missed
  have "length (missed ''c'' ''#w'' (sv_db sv1)) = 1" "missed ''c'' ''#w'' (sv_db sv2) = []"
    by (simp_all add: new_mpsc_def)
  with sv1 sv2 show ?thesis by blast
qed

text \<open>C21. A connection that ends with a read error (a reset, or bytes that are not UTF-8) is not
  disconnected in the tables: its principal stays online and keeps the dead handle, still hears its
  channels, and the next message of each of them leaves it with nothing to catch up on.\<close>

theorem read_error_keeps_presence:
  assumes ok: "sys_ok sy" and n: "sy_conns sy n = Live se" "s_principal se = Some p"
    and active: "clients (sv_inner (sy_server sy)) (pr_id p) = Some (handle_of se)"
    and out: "q_open (outs (sy_server sy) n)" and mem: "is_member (pr_id p) c (sv_db (sy_server sy))"
    and step: "sys_step cr sy (ReadError n) sy'"
  shows "sy_conns sy' n = Gone se \<and> online (sv_db (sy_server sy')) (pr_id p)
    \<and> clients (sv_inner (sy_server sy')) (pr_id p) = Some (handle_of se)
    \<and> hears (sy_server sy') c (pr_id p)
    \<and> (\<forall>line u now s b sv2. posted line (next_message u now c s b (sv_db (sy_server sy'))) (sy_server sy') sv2
         \<longrightarrow> missed (pr_id p) c (sv_db sv2) = [])"
proof -
  have tx: "s_tx se = n" using linkedD(1) [OF sys_okD(7) [OF ok], of n se] n by (simp add: session_ok_def)
  have sy': "sy' = drop_conn n se (sy_server sy) sy"
    using step n(1) by (cases rule: sys_stepE) auto
  have ok': "sys_ok sy'" using sys_step_ok [OF step ok] .
  have h: "hears (sy_server sy') c (pr_id p)"
    using active out mem tx by (simp add: sy' drop_conn_def hears_def close_shut_def handle_of_def)
  then have "missed (pr_id p) c (sv_db sv2) = []"
    if "posted line (next_message u now c s b (sv_db (sy_server sy'))) (sy_server sy') sv2" for line u now s b sv2
    using posted_missed [OF sys_okD(1,4) [OF ok'] that refl] by simp
  moreover have cl: "clients (sv_inner (sy_server sy')) (pr_id p) = Some (handle_of se)"
    using active by (simp add: sy' drop_conn_def close_shut_def)
  moreover have "online (sv_db (sy_server sy')) (pr_id p)"
    using rooms_okD(4) [OF sys_okD(6) [OF ok'] cl] .
  ultimately show ?thesis using h by (simp add: sy' drop_conn_def)
qed

theorem read_error_keeps_presence_witness:
  "\<exists>sy'. sys_step demo_crypto demo (ReadError 0) sy' \<and> sy_conns sy' 0 = Gone demo_a
     \<and> online (sv_db (sy_server sy')) ''a'' \<and> hears (sy_server sy') ''#w'' ''a''"
proof -
  have step: "sys_step demo_crypto demo (ReadError 0) (drop_conn 0 demo_a (sy_server demo) demo)"
    by (rule sys_step.read_error) simp
  with read_error_keeps_presence [OF demo_ok _ _ _ _ _ step, of demo_a "demo_pr ''a''" "''#w''"]
  show ?thesis by (simp add: demo_members new_mpsc_def) blast
qed

end
